(* ===== verification/Prelude.thy ===== *)
theory Prelude
  imports Main "HOL-Library.Word"
begin

text \<open>
  What every component shares: the machine integer types, the outcome of a Rust
  computation (\<open>res\<close>: it returns, it panics, or it never returns), overflow-checked
  arithmetic, the little-endian byte encoding that \<open>byteorder::LittleEndian\<close> and the
  guest's memory use, slices of byte lists, and the update of the first list element
  that satisfies a predicate (\<open>iter_mut().find(..)\<close>).

  Arithmetic follows the dev profile the workspace's \<open>Cargo.toml\<close> leaves in force: a
  plain \<open>+\<close> or \<open>-\<close> that overflows panics, while \<open>wrapping_add\<close> and shifts
  do not.  \<open>usize\<close> values (lengths, list indices, thread indices) are \<open>nat\<close>.
\<close>

section \<open>Machine integers\<close>

type_synonym u8 = "8 word"
type_synonym u16 = "16 word"
type_synonym u32 = "32 word"
type_synonym u64 = "64 word"

section \<open>Outcomes\<close>

text \<open>
  The reasons a Rust function of the repository can panic for.  \<open>Expect\<close> carries the
  message of the failing \<open>expect\<close> or \<open>panic!\<close>.
\<close>

datatype panic =
    Expect string
  | Unwrap
  | Assertion
  | Unreachable
  | Unimplemented
  | Overflow
  | OutOfRange

datatype 'a res = Ret 'a | Panic panic | Diverge

text \<open>Sequencing: a panic or a divergence ends the computation.\<close>

primrec and_then :: "'a res \<Rightarrow> ('a \<Rightarrow> 'b res) \<Rightarrow> 'b res" where
  "and_then (Ret x) f = f x"
| "and_then (Panic p) f = Panic p"
| "and_then Diverge f = Diverge"

definition expect :: "string \<Rightarrow> 'a option \<Rightarrow> 'a res" where
  "expect msg v = (case v of None \<Rightarrow> Panic (Expect msg) | Some x \<Rightarrow> Ret x)"

definition guard :: "panic \<Rightarrow> bool \<Rightarrow> unit res" where
  "guard p b = (if b then Ret () else Panic p)"

primrec fold_res :: "('a \<Rightarrow> 's \<Rightarrow> 's res) \<Rightarrow> 'a list \<Rightarrow> 's \<Rightarrow> 's res" where
  "fold_res f [] s = Ret s"
| "fold_res f (x # xs) s = and_then (f x s) (fold_res f xs)"

lemma and_then_cong [fundef_cong]:
  "m = m' \<Longrightarrow> (\<And>x. m' = Ret x \<Longrightarrow> f x = g x) \<Longrightarrow> and_then m f = and_then m' g"
  by (cases m') simp_all

lemma and_then_eq_Ret [simp]:
  "and_then m f = Ret y \<longleftrightarrow> (\<exists>x. m = Ret x \<and> f x = Ret y)"
  by (cases m) simp_all

lemma and_then_assoc [simp]:
  "and_then (and_then m f) g = and_then m (\<lambda>x. and_then (f x) g)"
  by (cases m) simp_all

lemma and_then_Ret [simp]: "and_then m Ret = m"
  by (cases m) simp_all

lemma expect_simps [simp]:
  "expect msg (Some x) = Ret x"
  "expect msg None = Panic (Expect msg)"
  by (simp_all add: expect_def)

lemma expect_eq_Ret [simp]: "expect msg v = Ret x \<longleftrightarrow> v = Some x"
  by (cases v) simp_all

lemma guard_simps [simp]:
  "guard p True = Ret ()"
  "guard p False = Panic p"
  by (simp_all add: guard_def)

lemma guard_eq_Ret [simp]: "guard p b = Ret u \<longleftrightarrow> b"
  by (simp add: guard_def)

lemma guard_then: "b \<Longrightarrow> and_then (guard p b) f = f ()"
  by simp

lemma fold_res_append [simp]:
  "fold_res f (xs @ ys) s = and_then (fold_res f xs s) (fold_res f ys)"
proof (induction xs arbitrary: s)
  case (Cons x xs)
  then show ?case by (cases "f x s") simp_all
qed simp

text \<open>A loop whose body always returns and keeps an invariant returns and keeps it.\<close>

lemma fold_res_keeps:
  assumes "\<And>x s s'. f x s = Ret s' \<Longrightarrow> P s \<Longrightarrow> P s'"
  shows "fold_res f xs s = Ret s' \<Longrightarrow> P s \<Longrightarrow> P s'"
  by (induction xs arbitrary: s) (auto dest: assms)

lemma fold_res_invariant:
  assumes "I s"
    and "\<And>x s. x \<in> set xs \<Longrightarrow> I s \<Longrightarrow> \<exists>s'. f x s = Ret s' \<and> I s'"
  shows "\<exists>s'. fold_res f xs s = Ret s' \<and> I s'"
  using assms
proof (induction xs arbitrary: s)
  case (Cons x xs)
  then obtain s' where "f x s = Ret s'" "I s'" by (metis list.set_intros(1))
  with Cons show ?case by simp
qed simp

section \<open>Overflow-checked arithmetic\<close>

definition checked_add :: "'a::len word \<Rightarrow> 'a word \<Rightarrow> 'a word option" where
  "checked_add a b = (if unat a + unat b < 2 ^ LENGTH('a) then Some (a + b) else None)"

definition cadd :: "'a::len word \<Rightarrow> 'a word \<Rightarrow> 'a word res" where
  "cadd a b = (case checked_add a b of None \<Rightarrow> Panic Overflow | Some c \<Rightarrow> Ret c)"

definition csub :: "'a::len word \<Rightarrow> 'a word \<Rightarrow> 'a word res" where
  "csub a b = (if b \<le> a then Ret (a - b) else Panic Overflow)"

lemma checked_add_Some_iff:
  "checked_add (a :: 'a::len word) b = Some c \<longleftrightarrow>
     unat a + unat b < 2 ^ LENGTH('a) \<and> c = a + b"
  by (auto simp: checked_add_def)

lemma checked_add_unat: "checked_add a b = Some c \<Longrightarrow> unat c = unat a + unat b"
  by (auto simp: checked_add_Some_iff unat_word_ariths)

lemma cadd_eq_Ret [simp]:
  "cadd (a :: 'a::len word) b = Ret c \<longleftrightarrow> unat a + unat b < 2 ^ LENGTH('a) \<and> c = a + b"
  by (auto simp: cadd_def checked_add_def)

lemma cadd_Ret: "unat a + unat b < 2 ^ LENGTH('a) \<Longrightarrow> cadd (a :: 'a::len word) b = Ret (a + b)"
  by simp

lemma csub_eq_Ret [simp]: "csub a b = Ret c \<longleftrightarrow> b \<le> a \<and> c = a - b"
  by (auto simp: csub_def)

lemma unat_add_small:
  "unat a + unat b < 2 ^ LENGTH('a) \<Longrightarrow> unat (a + b :: 'a::len word) = unat a + unat b"
  by (simp add: unat_word_ariths)

text \<open>A word below a power of two has no higher bit set.\<close>

lemma bit_below: "unat (x :: 'a::len word) < 2 ^ k \<Longrightarrow> bit x i \<Longrightarrow> i < k"
proof -
  assume "unat x < 2 ^ k" "bit x i"
  then have "take_bit k (unat x) = unat x" "bit (unat x) i"
    by (simp_all add: take_bit_nat_eq_self bit_unsigned_iff bit_imp_le_length)
  then show "i < k" by (metis bit_take_bit_iff)
qed

lemma unat_pred: "unat (x :: 'a::len word) = Suc n \<Longrightarrow> 0 < x \<and> unat (x - 1) = n"
proof -
  assume x: "unat x = Suc n"
  then have "x \<noteq> 0" by auto
  with x unat_minus_one [OF this] show ?thesis by (simp add: word_less_nat_alt)
qed

section \<open>Little-endian bytes\<close>

primrec le_bytes :: "nat \<Rightarrow> 'a::len word \<Rightarrow> u8 list" where
  "le_bytes 0 w = []"
| "le_bytes (Suc n) w = ucast w # le_bytes n (drop_bit 8 w)"

primrec le_word :: "u8 list \<Rightarrow> 'a::len word" where
  "le_word [] = 0"
| "le_word (b # bs) = or (ucast b) (push_bit 8 (le_word bs))"

abbreviation le32 :: "u32 \<Rightarrow> u8 list" where
  "le32 \<equiv> le_bytes 4"

lemma length_le_bytes [simp]: "length (le_bytes n w) = n"
  by (induction n arbitrary: w) simp_all

lemma le_word_le_bytes:
  "le_word (le_bytes n w) = take_bit (8 * n) (w :: 'a::len word)"
proof (induction n arbitrary: w)
  case (Suc n)
  show ?case
    by (rule bit_word_eqI)
      (auto simp: Suc bit_simps not_less add.commute dest: bit_imp_le_length)
qed simp

lemma le_word_le32 [simp]: "le_word (le32 w) = w"
  by (simp add: le_word_le_bytes take_bit_word_eq_self)

lemma le_word_le64 [simp]: "le_word (le_bytes 8 w) = (w :: u64)"
  by (simp add: le_word_le_bytes take_bit_word_eq_self)

lemma le_word_le16 [simp]: "le_word (le_bytes 2 w) = (w :: u16)"
  by (simp add: le_word_le_bytes take_bit_word_eq_self)

lemma take_bit_le_word:
  "take_bit (8 * length bs) (le_word bs :: 'a::len word) = le_word bs"
proof (induction bs)
  case (Cons b bs)
  have high: "bit (le_word bs :: 'a word) n \<Longrightarrow> n < 8 * length bs" for n
    using Cons.IH by (metis bit_take_bit_iff)
  show ?case
    by (rule bit_word_eqI) (auto simp: bit_simps dest: bit_imp_le_length high)
qed simp

lemma le_bytes_le_word:
  "8 * length bs \<le> LENGTH('a) \<Longrightarrow> le_bytes (length bs) (le_word bs :: 'a::len word) = bs"
proof (induction bs)
  case (Cons b bs)
  have high: "bit (le_word bs :: 'a word) n \<Longrightarrow> n < 8 * length bs" for n
    by (metis bit_take_bit_iff take_bit_le_word)
  have lo: "ucast (le_word (b # bs) :: 'a word) = b"
    using Cons.prems by (intro bit_word_eqI) (auto simp: bit_simps)
  have hi: "drop_bit 8 (le_word (b # bs) :: 'a word) = le_word bs"
    using Cons.prems
    by (intro bit_word_eqI) (auto simp: bit_simps dest: bit_imp_le_length high)
  show ?case using Cons lo hi by (simp del: le_word.simps)
qed simp

section \<open>Slices of lists\<close>

text \<open>\<open>xs[a..a + n]\<close>, which panics when the range runs past the end.\<close>

definition slice_get :: "'a list \<Rightarrow> nat \<Rightarrow> nat \<Rightarrow> 'a list res" where
  "slice_get xs a n = (if a + n \<le> length xs then Ret (take n (drop a xs)) else Panic OutOfRange)"

definition overwrite :: "nat \<Rightarrow> 'a list \<Rightarrow> 'a list \<Rightarrow> 'a list" where
  "overwrite a ys xs = take a xs @ ys @ drop (a + length ys) xs"

lemma length_overwrite [simp]: "a + length ys \<le> length xs \<Longrightarrow> length (overwrite a ys xs) = length xs"
  by (simp add: overwrite_def)

lemma take_overwrite: "a + length ys \<le> length xs \<Longrightarrow> take a (overwrite a ys xs) = take a xs"
  by (simp add: overwrite_def)

lemma overwrite_append:
  "length pre = a \<Longrightarrow> length ys \<le> length post \<Longrightarrow>
     overwrite a ys (pre @ post) = pre @ ys @ drop (length ys) post"
  by (simp add: overwrite_def)

section \<open>Updating the first match\<close>

primrec update_first :: "('a \<Rightarrow> bool) \<Rightarrow> ('a \<Rightarrow> 'a) \<Rightarrow> 'a list \<Rightarrow> 'a list" where
  "update_first P f [] = []"
| "update_first P f (x # xs) = (if P x then f x # xs else x # update_first P f xs)"

lemma length_update_first [simp]: "length (update_first P f xs) = length xs"
  by (induction xs) simp_all

lemma map_update_first:
  "(\<And>x. P x \<Longrightarrow> g (f x) = g x) \<Longrightarrow> map g (update_first P f xs) = map g xs"
  by (induction xs) simp_all

lemma find_update_first:
  "find P xs = Some x \<Longrightarrow> P (f x) \<Longrightarrow> find P (update_first P f xs) = Some (f x)"
  by (induction xs) (auto split: if_splits)

lemma find_update_first_other:
  "(\<And>x. P x \<Longrightarrow> \<not> Q x \<and> \<not> Q (f x)) \<Longrightarrow> find Q (update_first P f xs) = find Q xs"
  by (induction xs) auto

lemma find_key_Some_iff:
  "distinct (map g xs) \<Longrightarrow> find (\<lambda>x. g x = k) xs = Some x \<longleftrightarrow> x \<in> set xs \<and> g x = k"
  by (induction xs) (auto simp: image_iff)

lemma find_SomeD: "find P xs = Some x \<Longrightarrow> x \<in> set xs \<and> P x"
  by (induction xs) (auto split: if_splits)

lemma set_update_first:
  "y \<in> set (update_first P f xs) \<Longrightarrow> y \<in> set xs \<or> (\<exists>x. find P xs = Some x \<and> y = f x)"
  by (induction xs) (auto split: if_splits)

section \<open>Ordered maps\<close>

text \<open>
  A \<open>BTreeMap\<close> is its list of entries in ascending key order; \<open>get\<close> is
  \<open>map_of\<close>.
\<close>

primrec btree_insert :: "'k::linorder \<Rightarrow> 'v \<Rightarrow> ('k \<times> 'v) list \<Rightarrow> ('k \<times> 'v) list" where
  "btree_insert k v [] = [(k, v)]"
| "btree_insert k v (e # es) =
     (if k < fst e then (k, v) # e # es
      else if k = fst e then (k, v) # es
      else e # btree_insert k v es)"

definition btree_remove :: "'k \<Rightarrow> ('k \<times> 'v) list \<Rightarrow> ('k \<times> 'v) list" where
  "btree_remove k es = filter (\<lambda>e. fst e \<noteq> k) es"

text \<open>The last entry whose key is at most \<open>k\<close>: \<open>range(..=k).next_back()\<close>.\<close>

definition btree_last_le :: "'k::linorder \<Rightarrow> ('k \<times> 'v) list \<Rightarrow> ('k \<times> 'v) option" where
  "btree_last_le k es =
     (case rev (filter (\<lambda>e. fst e \<le> k) es) of [] \<Rightarrow> None | e # _ \<Rightarrow> Some e)"

lemma map_of_btree_insert [simp]: "map_of (btree_insert k v es) = (map_of es)(k \<mapsto> v)"
  by (induction es) (auto simp: fun_eq_iff)

lemma map_of_btree_remove [simp]: "map_of (btree_remove k es) = (map_of es)(k := None)"
  by (induction es) (auto simp: btree_remove_def fun_eq_iff)

lemma set_btree_insert: "e \<in> set (btree_insert k v es) \<Longrightarrow> e = (k, v) \<or> e \<in> set es"
  by (induction es) (auto split: if_splits)

lemma set_btree_remove: "set (btree_remove k es) \<subseteq> set es"
  by (auto simp: btree_remove_def)

lemma sorted_btree_insert:
  "sorted_wrt (<) (map fst es) \<Longrightarrow> sorted_wrt (<) (map fst (btree_insert k v es))"
  by (induction es) (auto dest!: set_btree_insert)

lemma sorted_btree_remove:
  "sorted_wrt (<) (map fst es) \<Longrightarrow> sorted_wrt (<) (map fst (btree_remove k es))"
  by (induction es) (auto simp: btree_remove_def)

lemma btree_last_le_Some:
  assumes "sorted_wrt (<) (map fst es)" "btree_last_le k es = Some e"
  shows "e \<in> set es" "fst e \<le> k" "\<And>e'. e' \<in> set es \<Longrightarrow> fst e' \<le> k \<Longrightarrow> fst e' \<le> fst e"
proof -
  from assms(2) obtain es' where es': "rev (filter (\<lambda>e. fst e \<le> k) es) = e # es'"
    by (auto simp: btree_last_le_def split: list.splits)
  then have f: "filter (\<lambda>e. fst e \<le> k) es = rev es' @ [e]" by (simp add: rev_eq_Cons_iff)
  then have "e \<in> set (filter (\<lambda>e. fst e \<le> k) es)" by simp
  then show "e \<in> set es" "fst e \<le> k" by auto
  have "sorted_wrt (\<lambda>a b. fst a < fst b) (rev es' @ [e])"
    using assms(1) f by (metis sorted_wrt_filter sorted_wrt_map)
  then have le: "fst e' \<le> fst e" if "e' \<in> set (rev es' @ [e])" for e'
    using that by (auto simp: sorted_wrt_append intro: less_imp_le)
  show "fst e' \<le> fst e" if "e' \<in> set es" "fst e' \<le> k" for e'
  proof -
    have "e' \<in> set (filter (\<lambda>e. fst e \<le> k) es)" using that by simp
    then show ?thesis using le unfolding f by blast
  qed
qed

lemma btree_last_le_None: "btree_last_le k es = None \<longleftrightarrow> (\<forall>e \<in> set es. k < fst e)"
proof -
  have "btree_last_le k es = None \<longleftrightarrow> filter (\<lambda>e. fst e \<le> k) es = []"
    by (auto simp: btree_last_le_def split: list.splits)
  then show ?thesis by (auto simp: filter_empty_conv not_le)
qed


lemma set_btree_insert_iff:
  assumes "sorted_wrt (<) (map fst es)"
  shows "(q, w) \<in> set (btree_insert p v es) \<longleftrightarrow> (if q = p then w = v else (q, w) \<in> set es)"
proof -
  have dist: "distinct (map fst es)" "distinct (map fst (btree_insert p v es))"
    using assms sorted_btree_insert [OF assms] by (simp_all add: strict_sorted_iff)
  have "(q, w) \<in> set (btree_insert p v es) \<longleftrightarrow> map_of (btree_insert p v es) q = Some w"
    using map_of_eq_Some_iff [OF dist(2)] by blast
  also have "\<dots> \<longleftrightarrow> (if q = p then w = v else map_of es q = Some w)" by auto
  finally show ?thesis unfolding map_of_eq_Some_iff [OF dist(1)] .
qed

end
