(* ===== verification/IpcRoundTrip.thy ===== *)
theory IpcRoundTrip
  imports Ipc
begin

text \<open>
  Facts about the command buffer of \<open>Ipc\<close>: the header word and its fields, the exact
  bytes a writer leaves in the buffer, and that the readers recover the command a writer
  wrote.  Writers and readers are followed through two predicates, \<open>wrote\<close> (the words
  written so far) and \<open>holds_words\<close> (the words still to be read).
\<close>

section \<open>The header word\<close>

lemma header_from_word:
  assumes "n < 64" "t < 64"
  shows "header_from (header_word c n t) = \<lparr>hd_command = c, hd_normal = n, hd_translate = t\<rparr>"
proof -
  have "unat n < 2 ^ 6" "unat t < 2 ^ 6" using assms by (simp_all add: word_less_nat_alt)
  then have bn: "bit n i \<Longrightarrow> i < 6" and bt: "bit t i \<Longrightarrow> i < 6" for i
    using bit_below by blast+
  have f: "(0xFFFF0000 :: u32) = push_bit 16 (mask 16)" "(0xFC0 :: u32) = push_bit 6 (mask 6)" "(0x3F :: u32) = mask 6"
    by (simp_all add: mask_eq_exp_minus_1 push_bit_eq_mult)
  have x: "hd_command (header_from (header_word c n t)) = c"
    unfolding header_from_def header_word_def f
    by (simp, rule bit_word_eqI) (auto simp: bit_simps dest: bit_imp_le_length bn)
  have y: "hd_normal (header_from (header_word c n t)) = n"
    unfolding header_from_def header_word_def f
    by (simp, rule bit_word_eqI) (auto simp: bit_simps dest: bit_imp_le_length bn bt)
  have "hd_translate (header_from (header_word c n t)) = t"
    unfolding header_from_def header_word_def f
    by (simp, rule bit_word_eqI) (auto simp: bit_simps dest: bit_imp_le_length bn bt)
  with x y show ?thesis by (simp add: ipc_header.equality)
qed

section \<open>What a writer leaves in the buffer\<close>

definition words_bytes :: "u32 list \<Rightarrow> u8 list" where
  "words_bytes ws = concat (map le32 ws)"

lemma words_bytes_simps [simp]:
  "words_bytes [] = []"
  "words_bytes (w # ws) = le32 w @ words_bytes ws"
  "words_bytes (ws @ vs) = words_bytes ws @ words_bytes vs"
  by (simp_all add: words_bytes_def)

lemma length_words_bytes [simp]: "length (words_bytes ws) = 4 * length ws"
  by (induction ws) simp_all

text \<open>The words a translate parameter occupies on the wire.\<close>

primrec param_words :: "ipc_translate \<Rightarrow> u32 list" where
  "param_words (TpHandle m c hs) =
     handle_descriptor m c (length (as_slice hs)) # map handle_raw (as_slice hs)"
| "param_words (TpStaticBuffer i s p) = []"
| "param_words (TpBufferMapping i s p) = []"

primrec handle_param :: "ipc_translate \<Rightarrow> bool" where
  "handle_param (TpHandle m c hs) \<longleftrightarrow> as_slice hs \<noteq> []"
| "handle_param (TpStaticBuffer i s p) \<longleftrightarrow> False"
| "handle_param (TpBufferMapping i s p) \<longleftrightarrow> False"

text \<open>
  The writer \<open>w\<close> with \<open>n\<close> normal parameters and \<open>t\<close> translate words so far has
  written the words \<open>ws\<close> over the front of the buffer \<open>d\<close>.
\<close>

definition wrote :: "ipc_writer \<Rightarrow> u16 \<Rightarrow> nat \<Rightarrow> nat \<Rightarrow> u32 list \<Rightarrow> u8 list \<Rightarrow> bool" where
  "wrote w command n t ws d \<longleftrightarrow>
     wr_command w = command \<and> unat (wr_normal w) = n \<and> unat (wr_translate w) = t \<and>
     wr_pos w = 4 * length ws \<and> wr_data w = words_bytes ws @ drop (4 * length ws) d \<and>
     4 * length ws \<le> length d"

lemma wrote_write:
  assumes "wrote w command n t ws d" "4 * length ws + 4 \<le> length d"
  shows "\<exists>w'. writer_write x w = Ret w' \<and> wrote w' command n t (ws @ [x]) d"
  using assms
  by (auto simp: writer_write_def cursor_write_def wrote_def overwrite_append add.commute)

lemma wrote_new_request:
  "4 \<le> length d \<Longrightarrow> \<exists>w. writer_new_request command d = Ret w \<and> wrote w command 0 0 [0] d"
  using wrote_write [of "\<lparr>wr_command = command, wr_normal = 0, wr_translate = 0,
      wr_data = d, wr_pos = 0\<rparr>" command 0 0 "[]" d 0]
  by (auto simp: writer_new_request_def wrote_def)

lemma wrote_new_response:
  assumes "8 \<le> length d"
  shows "\<exists>w. writer_new_response command result d = Ret w \<and> wrote w command 0 0 [0, result] d"
proof -
  obtain w where w: "writer_new_request command d = Ret w" "wrote w command 0 0 [0] d"
    using wrote_new_request [of d command] assms by auto
  from wrote_write [OF w(2), of result] assms w(1) show ?thesis
    by (auto simp: writer_new_response_def writer_new_request_def)
qed

lemma wrote_normal:
  assumes "wrote w command n 0 ws d" "4 * length ws + 4 \<le> length d" "n < 255"
  shows "\<exists>w'. writer_write_normal x w = Ret w' \<and> wrote w' command (Suc n) 0 (ws @ [x]) d"
proof -
  from assms have "wr_translate w = 0" "unat (wr_normal w) + 1 < 2 ^ 8"
    by (auto simp: wrote_def unat_eq_0)
  moreover from assms this have "wrote (w\<lparr>wr_normal := wr_normal w + 1\<rparr>) command (Suc n) 0 ws d"
    by (auto simp: wrote_def unat_add_small)
  ultimately show ?thesis
    using wrote_write assms(2) by (fastforce simp: writer_write_normal_def)
qed

lemma wrote_normals:
  assumes "wrote w command n 0 ws d" "4 * length ws + 4 * length xs \<le> length d" "n + length xs < 256"
  shows "\<exists>w'. fold_res writer_write_normal xs w = Ret w' \<and>
              wrote w' command (n + length xs) 0 (ws @ xs) d"
  using assms
proof (induction xs arbitrary: w n ws)
  case (Cons x xs)
  then obtain w' where "writer_write_normal x w = Ret w'" "wrote w' command (Suc n) 0 (ws @ [x]) d"
    using wrote_normal [of w command n ws d x] by auto
  with Cons.IH [of w' "Suc n" "ws @ [x]"] Cons.prems show ?case by simp
qed simp

lemma wrote_handles:
  assumes "wrote w command n t ws d" "4 * length ws + 4 * length hs \<le> length d" "t + length hs < 256"
  shows "\<exists>w'. fold_res writer_write_handle hs w = Ret w' \<and>
              wrote w' command n (t + length hs) (ws @ map handle_raw hs) d"
  using assms
proof (induction hs arbitrary: w t ws)
  case (Cons h hs)
  then obtain w' where w': "writer_write (handle_raw h) w = Ret w'" "wrote w' command n t (ws @ [handle_raw h]) d"
    using wrote_write [of w command n t ws d "handle_raw h"] by auto
  define w2 where "w2 = w'\<lparr>wr_translate := wr_translate w' + 1\<rparr>"
  from w' Cons.prems have "unat (wr_translate w') + 1 < 2 ^ 8" by (auto simp: wrote_def)
  with w' have "writer_write_handle h w = Ret w2" "wrote w2 command n (Suc t) (ws @ [handle_raw h]) d"
    by (auto simp: writer_write_handle_def wrote_def w2_def unat_add_small)
  with Cons.IH [of w2 "Suc t" "ws @ [handle_raw h]"] Cons.prems show ?case by simp
qed simp

lemma wrote_translate:
  assumes "wrote w command n t ws d" "handle_param p"
    "4 * length ws + 4 * length (param_words p) \<le> length d" "t + length (param_words p) < 256"
  shows "\<exists>w'. writer_write_translate p w = Ret w' \<and>
              wrote w' command n (t + length (param_words p)) (ws @ param_words p) d"
proof -
  from assms(2) obtain m c hs where p: "p = TpHandle m c hs" and hs: "as_slice hs \<noteq> []"
    by (cases p) auto
  define w1 where "w1 = w\<lparr>wr_translate := wr_translate w + 1\<rparr>"
  have small: "unat (wr_translate w) + 1 < 2 ^ 8" using assms(1,4) p by (auto simp: wrote_def)
  then have "wrote w1 command n (Suc t) ws d"
    using assms(1) by (auto simp: wrote_def w1_def unat_add_small)
  then obtain w2 where w2:
    "writer_write (handle_descriptor m c (length (as_slice hs))) w1 = Ret w2"
    "wrote w2 command n (Suc t) (ws @ [handle_descriptor m c (length (as_slice hs))]) d"
    using wrote_write [of w1 command n "Suc t" ws d] assms(3) p by auto
  from wrote_handles [OF w2(2), of "as_slice hs"] assms(3,4) p
  obtain w3 where "fold_res writer_write_handle (as_slice hs) w2 = Ret w3"
    "wrote w3 command n (t + length (param_words p)) (ws @ param_words p) d"
    by auto
  with w2(1) small hs p show ?thesis
    by (simp add: writer_write_translate_def w1_def)
qed

lemma wrote_translates:
  assumes "wrote w command n t ws d" "list_all handle_param ps"
    "4 * length ws + 4 * length (concat (map param_words ps)) \<le> length d"
    "t + length (concat (map param_words ps)) < 256"
  shows "\<exists>w'. fold_res writer_write_translate ps w = Ret w' \<and>
    wrote w' command n (t + length (concat (map param_words ps)))
      (ws @ concat (map param_words ps)) d"
  using assms
proof (induction ps arbitrary: w t ws)
  case (Cons p ps)
  then obtain w' where "writer_write_translate p w = Ret w'"
    "wrote w' command n (t + length (param_words p)) (ws @ param_words p) d"
    using wrote_translate [of w command n t ws d p] by auto
  with Cons.IH [of w' "t + length (param_words p)" "ws @ param_words p"] Cons.prems
  show ?case by (simp add: add.assoc)
qed simp

lemma wrote_finish:
  assumes "wrote w command n t (x # ws) d"
  shows "writer_finish w =
     Ret (words_bytes (header_word command (of_nat n) (of_nat t) # ws) @ drop (4 * Suc (length ws)) d)"
  using assms
  by (auto simp: writer_finish_def writer_write_def cursor_write_def wrote_def overwrite_def
      simp del: le_bytes.simps)

section \<open>Reading back\<close>

text \<open>The words \<open>ws\<close> stand in the buffer at the cursor, \<open>tail\<close> follows them.\<close>

definition holds_words :: "'z param_cursor_scheme \<Rightarrow> u32 list \<Rightarrow> u8 list \<Rightarrow> bool" where
  "holds_words c ws tail \<longleftrightarrow>
     (\<exists>pre. pc_data c = pre @ words_bytes ws @ tail \<and> pc_pos c = length pre)"

lemma cursor_read_word: "cursor_read (pre @ le32 w @ rest) (length pre) = Ret (w, length pre + 4)"
  by (simp add: cursor_read_def)

lemma holds_words_Cons:
  fixes c c' :: "'z param_cursor_scheme"
  assumes "holds_words c (w # ws) tail"
  shows "cursor_read (pc_data c) (pc_pos c) = Ret (w, pc_pos c + 4)"
    and "pc_data c' = pc_data c \<Longrightarrow> pc_pos c' = pc_pos c + 4 \<Longrightarrow> holds_words c' ws tail"
proof -
  from assms obtain pre where pre: "pc_data c = pre @ le32 w @ words_bytes ws @ tail" "pc_pos c = length pre"
    by (auto simp: holds_words_def)
  then show "cursor_read (pc_data c) (pc_pos c) = Ret (w, pc_pos c + 4)"
    by (simp add: cursor_read_def)
  assume "pc_data c' = pc_data c" "pc_pos c' = pc_pos c + 4"
  with pre have "pc_data c' = (pre @ le32 w) @ words_bytes ws @ tail" "pc_pos c' = length (pre @ le32 w)"
    by simp_all
  then show "holds_words c' ws tail" unfolding holds_words_def by blast
qed

lemma read_normal_word:
  assumes "holds_words c (w # ws) tail" "unat (pc_normal c) = Suc n"
  shows "\<exists>c'. pc_read_normal c = Ret (w, c') \<and> holds_words c' ws tail \<and>
     unat (pc_normal c') = n \<and> pc_translate c' = pc_translate c"
proof -
  from assms(2) have "0 < pc_normal c" "unat (pc_normal c - 1) = n"
    by (simp_all add: unat_pred)
  with holds_words_Cons [OF assms(1)] show ?thesis
    by (simp add: pc_read_normal_def)
qed

lemma read_translate_word:
  assumes "holds_words c (w # ws) tail" "unat (pc_translate c) = Suc n"
  shows "\<exists>c'. pc_read_word c = Ret (w, c') \<and> holds_words c' ws tail \<and>
     unat (pc_translate c') = n \<and> pc_normal c' = pc_normal c"
proof -
  from assms(2) have "0 < pc_translate c" "unat (pc_translate c - 1) = n"
    by (simp_all add: unat_pred)
  with holds_words_Cons [OF assms(1)] show ?thesis
    by (simp add: pc_read_word_def)
qed

text \<open>A handle as the reader gives it back: the pseudo handle of the calling process under the flag
  \<open>calling_process\<close>, whatever word was sent, and otherwise what was sent, a raw 0 being no handle.\<close>

definition received_handle :: "bool \<Rightarrow> handle option \<Rightarrow> handle option" where
  "received_handle calling h = (if calling then handle_from_raw 0xFFFF8001 else handle_from_raw (handle_raw h))"

lemma read_translate_handles:
  assumes "holds_words c (map handle_raw hs @ ws) tail" "unat (pc_translate c) = length hs + n"
  shows "\<exists>c'. pc_read_handles (length hs) calling c = Ret (map (received_handle calling) hs, c') \<and>
     holds_words c' ws tail \<and> unat (pc_translate c') = n \<and> pc_normal c' = pc_normal c"
  using assms
proof (induction hs arbitrary: c)
  case (Cons h hs)
  then obtain c1 where c1: "pc_read_word c = Ret (handle_raw h, c1)"
    "holds_words c1 (map handle_raw hs @ ws) tail"
    "unat (pc_translate c1) = length hs + n" "pc_normal c1 = pc_normal c"
    using read_translate_word [of c "handle_raw h" "map handle_raw hs @ ws" tail "length hs + n"] by auto
  then have "pc_read_handle calling c = Ret (received_handle calling h, c1)"
    by (simp add: pc_read_handle_def received_handle_def)
  with Cons.IH [OF c1(2,3)] c1(4) show ?case by auto
qed simp

lemma handle_descriptor_fields:
  assumes "0 < n" "n \<le> 64"
  shows "handle_descriptor m c n AND 7 = 0"
    and "handle_descriptor m c n AND 16 \<noteq> 0 \<longleftrightarrow> m"
    and "handle_descriptor m c n AND 32 \<noteq> 0 \<longleftrightarrow> c"
    and "drop_bit 26 (handle_descriptor m c n AND 0xFC000000) = of_nat (n - 1)"
proof -
  define k :: u32 where "k = of_nat (n - 1)"
  have "unat k = n - 1" unfolding k_def unat_of_nat using assms by simp
  then have "unat k < 2 ^ 6" using assms by simp
  then have k: "bit k i \<Longrightarrow> i < 6" for i using bit_below by blast
  have f: "(7 :: u32) = mask 3" "(0xFC000000 :: u32) = push_bit 26 (mask 6)"
    by (simp_all add: mask_eq_exp_minus_1 push_bit_eq_mult)
  have b: "bit (16 :: int) i \<longleftrightarrow> i = 4" "bit (32 :: int) i \<longleftrightarrow> i = 5" for i
    using bit_exp_iff [where 'a = int and m = 4 and n = i]
      bit_exp_iff [where 'a = int and m = 5 and n = i] by auto
  have d: "handle_descriptor m c n = (if m then 16 else 0) OR (if c then 32 else 0) OR push_bit 26 k"
    by (simp add: handle_descriptor_def k_def)
  have low_bit: "bit (handle_descriptor m c n) i \<Longrightarrow> 3 < i" for i
    unfolding d by (auto simp: bit_simps b split: if_splits)
  show "handle_descriptor m c n AND 7 = 0"
    unfolding f(1) by (rule bit_word_eqI) (auto simp: bit_and_iff bit_mask_iff dest: low_bit)
  show "drop_bit 26 (handle_descriptor m c n AND 0xFC000000) = of_nat (n - 1)"
    unfolding d f k_def [symmetric]
    by (rule bit_word_eqI) (auto simp: bit_simps b dest: k bit_imp_le_length)
  have "handle_descriptor m c n AND 16 = (if m then 16 else 0)"
    unfolding d f by (rule bit_word_eqI) (auto simp: bit_simps b)
  then show "handle_descriptor m c n AND 16 \<noteq> 0 \<longleftrightarrow> m" by simp
  have "handle_descriptor m c n AND 32 = (if c then 32 else 0)"
    unfolding d f by (rule bit_word_eqI) (auto simp: bit_simps b)
  then show "handle_descriptor m c n AND 32 \<noteq> 0 \<longleftrightarrow> c" by simp
qed

text \<open>
  A parameter that comes back as it was sent: a handle parameter of at most 64 handles,
  written as a list only when there are several (one handle is read back as \<open>HSingle\<close>),
  without the raw word 0 as a handle (\<open>NonZeroU32\<close>), and with the pseudo handle of the
  calling process wherever the \<open>calling_process\<close> flag is set, since the reader puts it
  there.
\<close>

primrec wire_param :: "ipc_translate \<Rightarrow> bool" where
  "wire_param (TpHandle m c hs) \<longleftrightarrow>
     (\<forall>h \<in> set (as_slice hs). h \<noteq> Some 0 \<and> (c \<longrightarrow> h = Some 0xFFFF8001)) \<and>
     (case hs of HSingle h \<Rightarrow> True | HMultiple l \<Rightarrow> 1 < length l \<and> length l \<le> 64)"
| "wire_param (TpStaticBuffer i s p) \<longleftrightarrow> False"
| "wire_param (TpBufferMapping i s p) \<longleftrightarrow> False"

lemma wire_param_handle_param: "wire_param p \<Longrightarrow> handle_param p"
  by (cases p) (auto split: ipc_handles.splits)

text \<open>A handle parameter as the reader gives it back: a single handle is \<open>HSingle\<close>, however it was
  written.\<close>

definition received_handles :: "bool \<Rightarrow> handle option list \<Rightarrow> ipc_handles" where
  "received_handles calling hs =
     (case hs of [h] \<Rightarrow> HSingle (received_handle calling h) | _ \<Rightarrow> HMultiple (map (received_handle calling) hs))"

primrec received :: "ipc_translate \<Rightarrow> ipc_translate" where
  "received (TpHandle m c hs) = TpHandle m c (received_handles c (as_slice hs))"
| "received (TpStaticBuffer i s p) = TpStaticBuffer i s p"
| "received (TpBufferMapping i s p) = TpBufferMapping i s p"

lemma received_wire: "wire_param p \<Longrightarrow> received p = p"
proof (cases p)
  case (TpHandle m c hs)
  assume "wire_param p"
  then have "received_handle c h = h" if "h \<in> set (as_slice hs)" for h
    using that TpHandle by (auto simp: received_handle_def handle_from_raw_def handle_raw_def split: option.split)
  then have "map (received_handle c) (as_slice hs) = as_slice hs" by (simp add: map_idI)
  then show ?thesis
    using TpHandle \<open>wire_param p\<close> by (cases hs) (auto simp: received_handles_def split: list.split)
qed simp_all

lemma received_wires: "list_all wire_param ps \<Longrightarrow> map received ps = ps"
  by (induction ps) (simp_all add: received_wire)

text \<open>What a writer can write and a header can count.\<close>

definition sendable :: "ipc_translate \<Rightarrow> bool" where
  "sendable p \<longleftrightarrow> handle_param p \<and> length (param_words p) \<le> 65"

lemma wire_param_sendable: "wire_param p \<Longrightarrow> sendable p"
  by (cases p) (auto simp: sendable_def split: ipc_handles.splits)

lemma sendable_all:
  "\<lbrakk>list_all handle_param ps; length (concat (map param_words ps)) < 64\<rbrakk> \<Longrightarrow> list_all sendable ps"
  by (induction ps) (auto simp: sendable_def)

lemma read_translate_received:
  assumes "holds_words c (param_words p @ ws) tail" "sendable p"
    "unat (pc_translate c) = length (param_words p) + n" "pc_normal c = 0"
  shows "\<exists>c'. pc_read_translate perm c = Ret (received p, c') \<and> holds_words c' ws tail \<and>
     unat (pc_translate c') = n \<and> pc_normal c' = 0"
proof -
  from assms(2) obtain m cp hs where p: "p = TpHandle m cp hs" by (cases p) (auto simp: sendable_def)
  define n' where "n' = length (as_slice hs)"
  define d where "d = handle_descriptor m cp n'"
  from assms(2) have n': "0 < n'" "n' \<le> 64" unfolding n'_def p by (auto simp: sendable_def)
  note fields = handle_descriptor_fields [OF n', of m cp, folded d_def]
  have "holds_words c (d # map handle_raw (as_slice hs) @ ws) tail"
    using assms(1) by (simp add: p d_def n'_def)
  moreover have "unat (pc_translate c) = Suc (n' + n)"
    using assms(3) by (simp add: p n'_def)
  ultimately obtain c1 where c1: "pc_read_word c = Ret (d, c1)"
    "holds_words c1 (map handle_raw (as_slice hs) @ ws) tail"
    "unat (pc_translate c1) = length (as_slice hs) + n" "pc_normal c1 = 0"
    using read_translate_word [of c d] assms(4) n'_def by metis
  from read_translate_handles [OF c1(2,3), of cp] c1(4) obtain c2 where
    c2: "pc_read_handles n' cp c1 = Ret (map (received_handle cp) (as_slice hs), c2)"
      "holds_words c2 ws tail" "unat (pc_translate c2) = n" "pc_normal c2 = 0"
    by (auto simp: n'_def)
  have "pc_read_handle_param d c1 = Ret (received p, c2)"
  proof (cases "n' = 1")
    case True
    then obtain h where h: "as_slice hs = [h]" by (auto simp: n'_def length_Suc_conv)
    have "pc_read_handle cp c1 = Ret (received_handle cp h, c2)" using c2(1) True h by auto
    then show ?thesis using fields True h by (simp add: pc_read_handle_param_def p received_handles_def)
  next
    case False
    then have l: "1 < n'" using n' by simp
    define k :: u32 where "k = of_nat (n' - 1)"
    have "unat k = n' - 1" unfolding k_def unat_of_nat using n' by simp
    moreover have "unat (k + 1) = n'"
      using calculation n' by (simp add: unat_add_small)
    moreover have "k \<noteq> 0" using calculation(1) l by auto
    moreover have "received_handles cp (as_slice hs) = HMultiple (map (received_handle cp) (as_slice hs))"
      using l by (auto simp: received_handles_def n'_def split: list.split)
    ultimately show ?thesis
      using c2(1) fields
      by (simp add: pc_read_handle_param_def p k_def del: of_nat_diff)
  qed
  with c1(1) c2 fields(1) assms(4) show ?thesis
    by (simp add: pc_read_translate_def)
qed

lemma read_translate_param:
  assumes "holds_words c (param_words p @ ws) tail" "wire_param p"
    "unat (pc_translate c) = length (param_words p) + n" "pc_normal c = 0"
  shows "\<exists>c'. pc_read_translate perm c = Ret (p, c') \<and> holds_words c' ws tail \<and>
     unat (pc_translate c') = n \<and> pc_normal c' = 0"
  using read_translate_received [OF assms(1) wire_param_sendable [OF assms(2)] assms(3,4)]
  by (simp add: received_wire [OF assms(2)])

section \<open>Reading consumes the announced words\<close>

lemma pc_read_word_consumes:
  "pc_read_word c = Ret (w, c') \<Longrightarrow> unat (pc_translate c) = Suc (unat (pc_translate c'))"
  using unat_pred [of "pc_translate c" "unat (pc_translate c) - 1"]
  by (auto simp: pc_read_word_def word_less_nat_alt)

lemma pc_read_handle_consumes:
  "pc_read_handle calling c = Ret (h, c') \<Longrightarrow> unat (pc_translate c') < unat (pc_translate c)"
  using pc_read_word_consumes [of c] by (fastforce simp: pc_read_handle_def)

lemma pc_read_handles_consumes:
  "pc_read_handles n calling c = Ret (hs, c') \<Longrightarrow> unat (pc_translate c') \<le> unat (pc_translate c)"
proof (induction n arbitrary: c hs)
  case (Suc n)
  then obtain h c1 hs1 where "pc_read_handle calling c = Ret (h, c1)" "pc_read_handles n calling c1 = Ret (hs1, c')"
    by auto
  with Suc.IH pc_read_handle_consumes show ?case by (metis less_imp_le order_trans)
qed simp

lemma pc_read_translate_consumes:
  assumes "pc_read_translate perm c = Ret (p, c')"
  shows "unat (pc_translate c') < unat (pc_translate c)"
proof -
  from assms obtain d c1 where c1: "pc_read_word c = Ret (d, c1)"
    by (auto simp: pc_read_translate_def)
  from assms c1 have "unat (pc_translate c') \<le> unat (pc_translate c1)"
    by (auto simp: pc_read_translate_def pc_read_handle_param_def Let_def split: if_splits
        dest!: pc_read_handle_consumes pc_read_handles_consumes pc_read_word_consumes)
  with pc_read_word_consumes [OF c1] show ?thesis by simp
qed

section \<open>Whole commands\<close>

text \<open>
  The two loops every user of the readers and writers runs: over the normal parameters, by
  count, and over the translate parameters, while there are more.
\<close>

primrec read_normals :: "nat \<Rightarrow> ipc_reader \<Rightarrow> (u32 list \<times> ipc_reader) res" where
  "read_normals 0 r = Ret ([], r)"
| "read_normals (Suc n) r =
     and_then (reader_read_normal r) (\<lambda>(w, r).
     and_then (read_normals n r) (\<lambda>(ws, r). Ret (w # ws, r)))"

function read_translates :: "ipc_reader \<Rightarrow> (ipc_translate list \<times> ipc_reader) res" where
  "read_translates r =
     (if reader_has_more r
      then and_then (reader_read_translate r) (\<lambda>(p, r).
           and_then (read_translates r) (\<lambda>(ps, r). Ret (p # ps, r)))
      else Ret ([], r))"
  by pat_completeness auto
termination
  by (relation "measure (\<lambda>r. unat (pc_translate r))")
    (auto simp: reader_read_translate_def dest: pc_read_translate_consumes)

declare read_translates.simps [simp del]

definition write_params :: "u32 list \<Rightarrow> ipc_translate list \<Rightarrow> ipc_writer \<Rightarrow> u8 list res" where
  "write_params ns ps w =
     and_then (fold_res writer_write_normal ns w) (\<lambda>w.
     and_then (fold_res writer_write_translate ps w) writer_finish)"

definition write_request :: "u16 \<Rightarrow> u32 list \<Rightarrow> ipc_translate list \<Rightarrow> u8 list \<Rightarrow> u8 list res" where
  "write_request command ns ps d = and_then (writer_new_request command d) (write_params ns ps)"

definition write_response ::
  "u16 \<Rightarrow> u32 \<Rightarrow> u32 list \<Rightarrow> ipc_translate list \<Rightarrow> u8 list \<Rightarrow> u8 list res" where
  "write_response command result ns ps d =
     and_then (writer_new_response command result d) (write_params ns ps)"

definition read_params :: "ipc_reader \<Rightarrow> (ipc_header \<times> u32 \<times> u32 list \<times> ipc_translate list) res" where
  "read_params r =
     and_then (read_normals (unat (hd_normal (rd_header r))) r) (\<lambda>(ns, r').
     and_then (read_translates r') (\<lambda>(ps, r''). Ret (rd_header r, rd_result r, ns, ps)))"

text \<open>The layout of a finished command: header, normal parameters, translate words, and
  behind them what the buffer held before.\<close>

definition command_words :: "u16 \<Rightarrow> u32 list \<Rightarrow> u32 list \<Rightarrow> ipc_translate list \<Rightarrow> u32 list" where
  "command_words command front ns ps =
     header_word command (of_nat (length ns)) (of_nat (length (concat (map param_words ps))))
       # front @ ns @ concat (map param_words ps)"

lemma write_params_layout:
  assumes w: "wrote w command 0 0 (x # front) d"
    and ps: "list_all handle_param ps"
    and fit: "4 * length (command_words command front ns ps) \<le> length d"
    and "length ns < 256" "length (concat (map param_words ps)) < 256"
  shows "write_params ns ps w =
     Ret (words_bytes (command_words command front ns ps) @
          drop (4 * length (command_words command front ns ps)) d)"
proof -
  from fit have fit': "4 * length (x # front) + 4 * length ns + 4 * length (concat (map param_words ps)) \<le> length d"
    by (simp add: command_words_def)
  obtain w1 where w1: "fold_res writer_write_normal ns w = Ret w1"
    "wrote w1 command (length ns) 0 ((x # front) @ ns) d"
    using wrote_normals [OF w, of ns] fit' assms(4) by auto
  obtain w2 where w2: "fold_res writer_write_translate ps w1 = Ret w2"
    "wrote w2 command (length ns) (length (concat (map param_words ps)))
       (x # front @ ns @ concat (map param_words ps)) d"
    using wrote_translates [OF w1(2) ps] fit' assms(5) by auto
  from w1(1) w2(1) wrote_finish [OF w2(2)] show ?thesis
    by (simp add: write_params_def command_words_def)
qed

lemma read_normals_words:
  assumes "holds_words r (ns @ ws) tail" "unat (pc_normal r) = length ns + n"
  shows "\<exists>r'. read_normals (length ns) r = Ret (ns, r') \<and> holds_words r' ws tail \<and>
     unat (pc_normal r') = n \<and> pc_translate r' = pc_translate r"
  using assms
proof (induction ns arbitrary: r)
  case (Cons x ns)
  then obtain r1 where "pc_read_normal r = Ret (x, r1)" "holds_words r1 (ns @ ws) tail"
    "unat (pc_normal r1) = length ns + n" "pc_translate r1 = pc_translate r"
    using read_normal_word [of r x "ns @ ws" tail "length ns + n"] by auto
  with Cons.IH [of r1] show ?case by (auto simp: reader_read_normal_def)
qed simp

lemma read_translates_words:
  assumes "holds_words r (concat (map param_words ps)) tail" "list_all sendable ps"
    "unat (pc_translate r) = length (concat (map param_words ps))" "pc_normal r = 0"
  shows "\<exists>r'. read_translates r = Ret (map received ps, r')"
  using assms
proof (induction ps arbitrary: r)
  case Nil
  then show ?case by (subst read_translates.simps) (simp add: reader_has_more_def unat_eq_0)
next
  case (Cons p ps)
  have "holds_words r (param_words p @ concat (map param_words ps)) tail" "sendable p"
    "unat (pc_translate r) = length (param_words p) + length (concat (map param_words ps))"
    using Cons.prems by simp_all
  from read_translate_received [OF this Cons.prems(4)]
  obtain r1 where r1: "reader_read_translate r = Ret (received p, r1)"
    "holds_words r1 (concat (map param_words ps)) tail"
    "unat (pc_translate r1) = length (concat (map param_words ps))" "pc_normal r1 = 0"
    unfolding reader_read_translate_def by blast
  moreover have "param_words p \<noteq> []" using Cons.prems(2) by (cases p) (auto simp: sendable_def)
  then have "reader_has_more r" using Cons.prems(3)
    by (auto simp: reader_has_more_def word_less_nat_alt)
  ultimately show ?case using Cons.IH [OF r1(2)] Cons.prems(2)
    by (subst read_translates.simps) auto
qed

lemma read_params_received:
  assumes "holds_words r (ns @ concat (map param_words ps)) tail" "list_all sendable ps"
    "unat (pc_normal r) = length ns" "unat (pc_translate r) = length (concat (map param_words ps))"
    "hd_normal (rd_header r) = pc_normal r"
  shows "read_params r = Ret (rd_header r, rd_result r, ns, map received ps)"
proof -
  obtain r1 where r1: "read_normals (length ns) r = Ret (ns, r1)"
    "holds_words r1 (concat (map param_words ps)) tail" "unat (pc_normal r1) = 0"
    "pc_translate r1 = pc_translate r"
    using read_normals_words [OF assms(1), of 0] assms(3) by auto
  with read_translates_words [of r1 ps tail] assms show ?thesis
    by (auto simp: read_params_def unat_eq_0)
qed

lemma read_params_words:
  assumes "holds_words r (ns @ concat (map param_words ps)) tail" "list_all wire_param ps"
    "unat (pc_normal r) = length ns" "unat (pc_translate r) = length (concat (map param_words ps))"
    "hd_normal (rd_header r) = pc_normal r"
  shows "read_params r = Ret (rd_header r, rd_result r, ns, ps)"
proof -
  have "list_all sendable ps" using assms(2) by (rule list.pred_mono_strong) (rule wire_param_sendable)
  from read_params_received [OF assms(1) this assms(3-5)] show ?thesis by (simp add: received_wires [OF assms(2)])
qed

lemma list_all_wire_handle_param: "list_all wire_param ps \<Longrightarrow> list_all handle_param ps"
  by (induction ps) (auto intro: wire_param_handle_param)

text \<open>Reading a finished command, with the cursor behind the words \<open>front\<close>.\<close>

lemma read_params_command:
  assumes "length ns < 64" "length (concat (map param_words ps)) < 64" "list_all handle_param ps"
    and "pc_data r = words_bytes (command_words command front ns ps) @ tail"
      "pc_pos r = 4 * Suc (length front)"
    and header: "header_from (header_word command (of_nat (length ns))
        (of_nat (length (concat (map param_words ps))))) = rd_header r"
    and "pc_normal r = hd_normal (rd_header r)" "pc_translate r = hd_translate (rd_header r)"
  shows "read_params r =
    Ret (\<lparr>hd_command = command, hd_normal = of_nat (length ns),
          hd_translate = of_nat (length (concat (map param_words ps)))\<rparr>, rd_result r, ns, map received ps)"
proof -
  let ?n = "length ns" and ?t = "length (concat (map param_words ps))"
  have small: "unat (of_nat ?n :: u8) = ?n" "unat (of_nat ?t :: u8) = ?t"
    using assms(1,2) unfolding unat_of_nat by simp_all
  then have "header_from (header_word command (of_nat ?n) (of_nat ?t)) =
      \<lparr>hd_command = command, hd_normal = of_nat ?n, hd_translate = of_nat ?t\<rparr>"
    using assms(1,2) by (intro header_from_word) (simp_all add: word_less_nat_alt)
  with header have h: "rd_header r =
      \<lparr>hd_command = command, hd_normal = of_nat ?n, hd_translate = of_nat ?t\<rparr>" by simp
  have "holds_words r (ns @ concat (map param_words ps)) tail"
    unfolding holds_words_def
    by (rule exI [of _ "words_bytes (header_word command (of_nat ?n) (of_nat ?t) # front)"])
      (use assms(4,5) in \<open>simp add: command_words_def\<close>)
  from read_params_received [OF this sendable_all [OF assms(3,2)]] small h assms(7,8) show ?thesis by simp
qed

text \<open>C18: what \<open>IPCWriter\<close> writes as a request, \<open>IPCReader\<close> reads back: the command id, the normal
  parameters and the handle parameters as \<open>received\<close>, for every list of handle parameters none of
  which is empty whose counts fit the six-bit header fields and whose words fit the buffer.  As
  received, each handle is the handle that was sent, except under \<open>calling_process\<close>, where it is the
  pseudo handle of the calling process, and a list of one handle is a single handle.\<close>

theorem ipc_request_roundtrip:
  assumes "length ns < 64" "length (concat (map param_words ps)) < 64"
    "list_all handle_param ps"
    "4 * (1 + length ns + length (concat (map param_words ps))) \<le> length d"
  shows "\<exists>buf. write_request command ns ps d = Ret buf \<and> length buf = length d \<and>
    and_then (reader_new_request buf) read_params =
      Ret (\<lparr>hd_command = command, hd_normal = of_nat (length ns),
            hd_translate = of_nat (length (concat (map param_words ps)))\<rparr>, 0, ns, map received ps)"
proof -
  let ?ws = "command_words command [] ns ps"
  let ?buf = "words_bytes ?ws @ drop (4 * length ?ws) d"
  let ?h = "header_from (header_word command (of_nat (length ns))
      (of_nat (length (concat (map param_words ps)))))"
  obtain w where w: "writer_new_request command d = Ret w" "wrote w command 0 0 [0] d"
    using wrote_new_request [of d command] assms(4) by auto
  have len: "4 * length ?ws \<le> length d" using assms(4) by (simp add: command_words_def)
  from write_params_layout [OF w(2) assms(3) len] assms(1,2) w(1)
  have "write_request command ns ps d = Ret ?buf"
    by (simp add: write_request_def)
  moreover have "reader_new_request ?buf =
    Ret \<lparr>pc_data = ?buf, pc_pos = 4, pc_normal = hd_normal ?h, pc_translate = hd_translate ?h,
         rd_header = ?h, rd_result = 0\<rparr>" (is "_ = Ret ?r")
    by (simp add: reader_new_request_def cursor_read_def command_words_def Let_def)
  moreover have "read_params ?r =
    Ret (\<lparr>hd_command = command, hd_normal = of_nat (length ns),
          hd_translate = of_nat (length (concat (map param_words ps)))\<rparr>, rd_result ?r, ns, map received ps)"
    by (rule read_params_command [OF assms(1-3), where front = "[]"]) simp_all
  ultimately show ?thesis using len by simp
qed

theorem ipc_request_roundtrip_witness:
  "\<exists>buf. write_request 3 [7, 8] [TpHandle True False (HMultiple [Some 5, None]), TpHandle False True (HSingle None)]
      (replicate 36 0) = Ret buf \<and>
    length buf = length (replicate 36 (0 :: u8)) \<and>
    and_then (reader_new_request buf) read_params =
      Ret (\<lparr>hd_command = 3, hd_normal = of_nat (length [7, 8 :: u32]),
            hd_translate = of_nat (length (concat (map param_words
              [TpHandle True False (HMultiple [Some 5, None]), TpHandle False True (HSingle None)])))\<rparr>, 0, [7, 8],
           map received [TpHandle True False (HMultiple [Some 5, None]), TpHandle False True (HSingle None)])"
  by (rule ipc_request_roundtrip) simp_all

text \<open>C19: the same for a response with its result word: \<open>IPCWriter::new_response\<close>
  followed by \<open>IPCReader::new_response\<close>.\<close>

theorem ipc_response_roundtrip:
  assumes "length ns < 64" "length (concat (map param_words ps)) < 64"
    "list_all handle_param ps"
    "4 * (2 + length ns + length (concat (map param_words ps))) \<le> length d"
  shows "\<exists>buf. write_response command result ns ps d = Ret buf \<and> length buf = length d \<and>
    and_then (reader_new_response buf) read_params =
      Ret (\<lparr>hd_command = command, hd_normal = of_nat (length ns),
            hd_translate = of_nat (length (concat (map param_words ps)))\<rparr>, result, ns, map received ps)"
proof -
  let ?ws = "command_words command [result] ns ps"
  let ?buf = "words_bytes ?ws @ drop (4 * length ?ws) d"
  let ?h = "header_from (header_word command (of_nat (length ns))
      (of_nat (length (concat (map param_words ps)))))"
  obtain w where w: "writer_new_response command result d = Ret w"
      "wrote w command 0 0 [0, result] d"
    using wrote_new_response [of d command result] assms(4) by auto
  have len: "4 * length ?ws \<le> length d" using assms(4) by (simp add: command_words_def)
  from write_params_layout [OF w(2) assms(3) len] assms(1,2) w(1)
  have "write_response command result ns ps d = Ret ?buf"
    by (simp add: write_response_def)
  moreover have "reader_new_response ?buf =
    Ret \<lparr>pc_data = ?buf, pc_pos = 8, pc_normal = hd_normal ?h, pc_translate = hd_translate ?h,
         rd_header = ?h, rd_result = result\<rparr>" (is "_ = Ret ?r")
    by (simp add: reader_new_response_def cursor_read_def command_words_def Let_def)
  moreover have "read_params ?r =
    Ret (\<lparr>hd_command = command, hd_normal = of_nat (length ns),
          hd_translate = of_nat (length (concat (map param_words ps)))\<rparr>, rd_result ?r, ns, map received ps)"
    by (rule read_params_command [OF assms(1-3), where front = "[result]"]) simp_all
  ultimately show ?thesis using len by simp
qed

theorem ipc_response_roundtrip_witness:
  "\<exists>buf. write_response 5 0 [1] [TpHandle True False (HMultiple [Some 9])] (replicate 24 0) = Ret buf \<and>
    length buf = length (replicate 24 (0 :: u8)) \<and>
    and_then (reader_new_response buf) read_params =
      Ret (\<lparr>hd_command = 5, hd_normal = of_nat (length [1 :: u32]),
            hd_translate = of_nat (length (concat (map param_words
              [TpHandle True False (HMultiple [Some 9])])))\<rparr>, 0, [1],
           map received [TpHandle True False (HMultiple [Some 9])])"
  by (rule ipc_response_roundtrip) simp_all

section \<open>Buffer mapping permissions\<close>

lemma three_bits_cases:
  assumes "\<not> (x :: u32) AND 7 \<in> {0, 1, 7}"
  shows "x AND 7 \<in> {2, 3, 4, 5, 6}"
proof -
  have "unat (x AND 7) \<le> 7" using word_and_le1 [of x 7] by (simp add: word_le_nat_alt)
  then have "unat (x AND 7) \<in> set [0..<8]" by simp
  moreover have "x AND 7 = of_nat (unat (x AND 7))" by simp
  ultimately have "x AND 7 \<in> of_nat ` set [0..<8]" by (rule rev_image_eqI)
  with assms show ?thesis by (auto simp: upt_rec)
qed

text \<open>C20: \<open>IPCRequest\<close> and \<open>IPCReader\<close> disagree on the permission of a buffer
  mapping: for every mapping descriptor whose low three bits are not 7 they decode different
  permissions from the same words (the request reader keeps bits 0 and 1, the other one bits
  1 and 2), while size and pointer agree.\<close>

theorem buffer_permission_mismatch:
  assumes "holds_words (r :: ipc_reader) (d # ptr # ws) tail" "unat (pc_translate r) = Suc (Suc n)"
    "pc_normal r = 0" "\<not> d AND 7 \<in> {0, 1, 7}"
    "pc_data q = pc_data r" "pc_pos q = pc_pos r" "pc_normal q = 0" "pc_translate q = pc_translate r"
  shows "\<exists>p p' r' q'.
    reader_read_translate r = Ret (TpBufferMapping p (drop_bit 4 (d AND 0xFFFFFFF0)) ptr, r') \<and>
    request_read_translate q = Ret (TpBufferMapping p' (drop_bit 4 (d AND 0xFFFFFFF0)) ptr, q') \<and>
    p \<noteq> p'"
proof -
  have q: "holds_words q (d # ptr # ws) tail" using assms(1,5,6) by (simp add: holds_words_def)
  obtain r1 r2 where r: "pc_read_word r = Ret (d, r1)" "pc_read_word r1 = Ret (ptr, r2)"
    using read_translate_word [OF assms(1,2)] read_translate_word by blast
  obtain q1 q2 where q': "pc_read_word q = Ret (d, q1)" "pc_read_word q1 = Ret (ptr, q2)"
    using read_translate_word [OF q] read_translate_word assms(2,8) by metis
  from three_bits_cases [OF assms(4)] r q' assms(3,7) show ?thesis
    by (auto simp: reader_read_translate_def request_read_translate_def pc_read_translate_def)
qed

theorem buffer_permission_mismatch_witness:
  "\<exists>p p' r' q'.
    reader_read_translate \<lparr>pc_data = le32 0x1004 @ le32 0x8000, pc_pos = 0, pc_normal = 0,
      pc_translate = 2, rd_header = header_from 2, rd_result = 0\<rparr> =
      Ret (TpBufferMapping p (drop_bit 4 (0x1004 AND 0xFFFFFFF0)) 0x8000, r') \<and>
    request_read_translate \<lparr>pc_data = le32 0x1004 @ le32 0x8000, pc_pos = 0, pc_normal = 0,
      pc_translate = 2, rq_header = header_from 2\<rparr> =
      Ret (TpBufferMapping p' (drop_bit 4 (0x1004 AND 0xFFFFFFF0)) 0x8000, q') \<and>
    p \<noteq> p'"
  by (rule buffer_permission_mismatch [where ws = "[]" and tail = "[]" and n = 0])
    (simp_all add: holds_words_def)

end
