(* ===== verification/PageMemory.thy ===== *)
theory PageMemory
  imports Prelude
begin

text \<open>
  \<open>kernel/src/memory/mod.rs\<close>, \<open>page_slice.rs\<close> and \<open>phys.rs\<close>: the \<open>Memory\<close>
  trait, slices of pages and physical memory.

  A Rust \<open>Memory\<close> is shared through \<open>&self\<close> and written through cells, so the model
  keeps the bytes in a store of their own: a \<open>page_slice\<close> is a reference (where it
  starts in the store, how many pages it spans), and reading and writing take the store and,
  for a write, return the new one.  Aliased slices then see each other's writes, as in the
  code.  The trait is the record \<open>memory_ops\<close> of its three required methods; its
  provided methods (\<open>read_u32\<close> and so on) are functions over that record.

  The locale \<open>byte_memory\<close> states what the users of a \<open>Memory\<close> rely on: reads return
  what was written and are not affected by writes elsewhere.  Page slices satisfy it.
\<close>

section \<open>The Memory trait\<close>

record ('m, 's) memory_ops =
  mo_size :: "'m \<Rightarrow> u32"
  mo_read :: "'m \<Rightarrow> u32 \<Rightarrow> nat \<Rightarrow> 's \<Rightarrow> u8 list res"
  mo_write :: "'m \<Rightarrow> u32 \<Rightarrow> u8 list \<Rightarrow> 's \<Rightarrow> 's res"

definition mem_read_u8 :: "('m, 's) memory_ops \<Rightarrow> 'm \<Rightarrow> u32 \<Rightarrow> 's \<Rightarrow> u8 res" where
  "mem_read_u8 ops m addr st = and_then (mo_read ops m addr 1 st) (\<lambda>bs. Ret (le_word bs))"

definition mem_read_u16 :: "('m, 's) memory_ops \<Rightarrow> 'm \<Rightarrow> u32 \<Rightarrow> 's \<Rightarrow> u16 res" where
  "mem_read_u16 ops m addr st = and_then (mo_read ops m addr 2 st) (\<lambda>bs. Ret (le_word bs))"

definition mem_read_u32 :: "('m, 's) memory_ops \<Rightarrow> 'm \<Rightarrow> u32 \<Rightarrow> 's \<Rightarrow> u32 res" where
  "mem_read_u32 ops m addr st = and_then (mo_read ops m addr 4 st) (\<lambda>bs. Ret (le_word bs))"

definition mem_read_u64 :: "('m, 's) memory_ops \<Rightarrow> 'm \<Rightarrow> u32 \<Rightarrow> 's \<Rightarrow> u64 res" where
  "mem_read_u64 ops m addr st = and_then (mo_read ops m addr 8 st) (\<lambda>bs. Ret (le_word bs))"

definition mem_write_u8 :: "('m, 's) memory_ops \<Rightarrow> 'm \<Rightarrow> u32 \<Rightarrow> u8 \<Rightarrow> 's \<Rightarrow> 's res" where
  "mem_write_u8 ops m addr value st = mo_write ops m addr (le_bytes 1 value) st"

definition mem_write_u16 :: "('m, 's) memory_ops \<Rightarrow> 'm \<Rightarrow> u32 \<Rightarrow> u16 \<Rightarrow> 's \<Rightarrow> 's res" where
  "mem_write_u16 ops m addr value st = mo_write ops m addr (le_bytes 2 value) st"

definition mem_write_u32 :: "('m, 's) memory_ops \<Rightarrow> 'm \<Rightarrow> u32 \<Rightarrow> u32 \<Rightarrow> 's \<Rightarrow> 's res" where
  "mem_write_u32 ops m addr value st = mo_write ops m addr (le_bytes 4 value) st"

definition mem_write_u64 :: "('m, 's) memory_ops \<Rightarrow> 'm \<Rightarrow> u32 \<Rightarrow> u64 \<Rightarrow> 's \<Rightarrow> 's res" where
  "mem_write_u64 ops m addr value st = mo_write ops m addr (le_bytes 8 value) st"

section \<open>Page slices and physical memory\<close>

type_synonym byte_store = "nat \<Rightarrow> u8"

record page_slice =
  ps_base :: nat
  ps_pages :: nat

definition slice_size_in_pages :: "page_slice \<Rightarrow> u32" where
  "slice_size_in_pages s = of_nat (ps_pages s)"

definition slice_read :: "page_slice \<Rightarrow> u32 \<Rightarrow> nat \<Rightarrow> byte_store \<Rightarrow> u8 list res" where
  "slice_read s addr n st =
     (if unat addr + n \<le> ps_pages s * 0x1000
      then Ret (map (\<lambda>i. st (ps_base s + unat addr + i)) [0..<n])
      else Panic OutOfRange)"

definition slice_write :: "page_slice \<Rightarrow> u32 \<Rightarrow> u8 list \<Rightarrow> byte_store \<Rightarrow> byte_store res" where
  "slice_write s addr bytes st =
     (if unat addr + length bytes \<le> ps_pages s * 0x1000
      then let a = ps_base s + unat addr in
           Ret (\<lambda>i. if a \<le> i \<and> i < a + length bytes then bytes ! (i - a) else st i)
      else Panic OutOfRange)"

text \<open>
  \<open>size_in_bytes\<close> calls itself where it means \<open>size_in_pages\<close>: the model's
  recursion is the code's, and \<open>None\<close> is not returning.
\<close>

partial_function (option) slice_size_in_bytes :: "page_slice \<Rightarrow> u32 option" where
  "slice_size_in_bytes s =
     Option.bind (slice_size_in_bytes s) (\<lambda>n. Some (n * 0x1000))"

definition slice_ops :: "(page_slice, byte_store) memory_ops" where
  "slice_ops = \<lparr>mo_size = slice_size_in_pages, mo_read = slice_read, mo_write = slice_write\<rparr>"

text \<open>
  \<open>PhysicalMemory\<close> owns its pages, zeroed by \<open>new\<close>, and delegates to the slice of
  all of them.
\<close>

record physical_memory =
  pm_pages :: nat

definition phys_new :: "u32 \<Rightarrow> physical_memory \<times> byte_store" where
  "phys_new pages = (\<lparr>pm_pages = unat pages\<rparr>, \<lambda>_. 0)"

definition phys_slice :: "physical_memory \<Rightarrow> page_slice" where
  "phys_slice pm = \<lparr>ps_base = 0, ps_pages = pm_pages pm\<rparr>"

definition phys_ops :: "(physical_memory, byte_store) memory_ops" where
  "phys_ops =
     \<lparr>mo_size = (\<lambda>pm. slice_size_in_pages (phys_slice pm)),
      mo_read = (\<lambda>pm. slice_read (phys_slice pm)),
      mo_write = (\<lambda>pm. slice_write (phys_slice pm))\<rparr>"

section \<open>What users of a memory rely on\<close>

locale byte_memory =
  fixes ops :: "('m, 's) memory_ops" and m :: 'm
    and covers :: "nat \<Rightarrow> nat \<Rightarrow> bool"
  assumes read_ok: "covers (unat a) n \<Longrightarrow> \<exists>bs. mo_read ops m a n st = Ret bs \<and> length bs = n"
    and write_ok: "covers (unat a) (length bs) \<Longrightarrow> \<exists>st'. mo_write ops m a bs st = Ret st'"
    and read_written: "\<lbrakk>covers (unat a) (length bs); mo_write ops m a bs st = Ret st'\<rbrakk> \<Longrightarrow>
      mo_read ops m a (length bs) st' = Ret bs"
    and read_frame: "\<lbrakk>covers (unat a) (length bs); mo_write ops m a bs st = Ret st'; covers (unat b) n;
      unat a + length bs \<le> unat b \<or> unat b + n \<le> unat a\<rbrakk> \<Longrightarrow>
      mo_read ops m b n st' = mo_read ops m b n st"
begin

text \<open>The word accessors of the trait give back what they stored, at every width.\<close>

lemma read_u32_written:
  assumes "covers (unat a) 4"
  shows "\<exists>st'. mem_write_u32 ops m a w st = Ret st' \<and> mem_read_u32 ops m a st' = Ret w"
  using assms write_ok [of a "le32 w" st] read_written [of a "le32 w" st]
  by (auto simp: mem_write_u32_def mem_read_u32_def simp del: le_bytes.simps)

lemma read_u16_written:
  assumes "covers (unat a) 2"
  shows "\<exists>st'. mem_write_u16 ops m a w st = Ret st' \<and> mem_read_u16 ops m a st' = Ret w"
  using assms write_ok [of a "le_bytes 2 w" st] read_written [of a "le_bytes 2 w" st]
  by (auto simp: mem_write_u16_def mem_read_u16_def simp del: le_bytes.simps)

lemma read_u64_written:
  assumes "covers (unat a) 8"
  shows "\<exists>st'. mem_write_u64 ops m a w st = Ret st' \<and> mem_read_u64 ops m a st' = Ret w"
  using assms write_ok [of a "le_bytes 8 w" st] read_written [of a "le_bytes 8 w" st]
  by (auto simp: mem_write_u64_def mem_read_u64_def simp del: le_bytes.simps)

lemma read_u32_frame:
  assumes "covers (unat a) 4" "mem_write_u32 ops m a w st = Ret st'" "covers (unat b) 4"
    "unat a + 4 \<le> unat b \<or> unat b + 4 \<le> unat a"
  shows "mem_read_u32 ops m b st' = mem_read_u32 ops m b st"
  using assms read_frame [of a "le32 w" st st' b 4]
  by (simp add: mem_write_u32_def mem_read_u32_def del: le_bytes.simps)

end

definition slice_covers :: "page_slice \<Rightarrow> nat \<Rightarrow> nat \<Rightarrow> bool" where
  "slice_covers s a n \<longleftrightarrow> a + n \<le> ps_pages s * 0x1000"

lemma slice_byte_memory:
  shows "slice_covers s (unat a) n \<Longrightarrow> \<exists>bs. slice_read s a n st = Ret bs \<and> length bs = n"
    and "slice_covers s (unat a) (length bs) \<Longrightarrow> \<exists>st'. slice_write s a bs st = Ret st'"
    and "\<lbrakk>slice_covers s (unat a) (length bs); slice_write s a bs st = Ret st'\<rbrakk> \<Longrightarrow>
      slice_read s a (length bs) st' = Ret bs"
    and "\<lbrakk>slice_covers s (unat a) (length bs); slice_write s a bs st = Ret st';
      slice_covers s (unat b) n; unat a + length bs \<le> unat b \<or> unat b + n \<le> unat a\<rbrakk> \<Longrightarrow>
      slice_read s b n st' = slice_read s b n st"
  by (auto simp: slice_read_def slice_write_def slice_covers_def Let_def
      intro: nth_equalityI split: if_splits)

interpretation slice_memory: byte_memory slice_ops s "slice_covers s" for s
  by unfold_locales (auto simp: slice_ops_def dest: slice_byte_memory)

interpretation phys_memory: byte_memory phys_ops pm "slice_covers (phys_slice pm)" for pm
  by unfold_locales (auto simp: phys_ops_def dest: slice_byte_memory)

section \<open>Properties\<close>

text \<open>a word written to physical memory is read back, and the words that do not
  overlap it are unchanged.\<close>

theorem phys_word_roundtrip:
  assumes "unat a + 4 \<le> pm_pages pm * 0x1000"
  shows "\<exists>st'. mem_write_u32 phys_ops pm a w st = Ret st' \<and>
    mem_read_u32 phys_ops pm a st' = Ret w \<and>
    (\<forall>b. unat b + 4 \<le> pm_pages pm * 0x1000 \<and> (unat a + 4 \<le> unat b \<or> unat b + 4 \<le> unat a) \<longrightarrow>
       mem_read_u32 phys_ops pm b st' = mem_read_u32 phys_ops pm b st)"
proof -
  have cov: "slice_covers (phys_slice pm) k 4 \<longleftrightarrow> k + 4 \<le> pm_pages pm * 0x1000" for k
    by (simp add: slice_covers_def phys_slice_def)
  obtain st' where "mem_write_u32 phys_ops pm a w st = Ret st'"
      "mem_read_u32 phys_ops pm a st' = Ret w"
    using phys_memory.read_u32_written [of pm a] assms cov by blast
  then show ?thesis using phys_memory.read_u32_frame [of pm a] assms cov by blast
qed

theorem phys_word_roundtrip_witness:
  "\<exists>st'. mem_write_u32 phys_ops (fst (phys_new 1)) 0xFFC 0xDEADBEEF (snd (phys_new 1)) = Ret st' \<and>
    mem_read_u32 phys_ops (fst (phys_new 1)) 0xFFC st' = Ret 0xDEADBEEF \<and>
    (\<forall>b. unat b + 4 \<le> pm_pages (fst (phys_new 1)) * 0x1000 \<and>
         (unat (0xFFC :: u32) + 4 \<le> unat b \<or> unat b + 4 \<le> unat (0xFFC :: u32)) \<longrightarrow>
       mem_read_u32 phys_ops (fst (phys_new 1)) b st' =
       mem_read_u32 phys_ops (fst (phys_new 1)) b (snd (phys_new 1)))"
  by (rule phys_word_roundtrip) (simp add: phys_new_def)

text \<open>a read or write that runs past the end of the slice panics, whatever the
  bytes.\<close>

theorem slice_out_of_range_panics:
  assumes "ps_pages s * 0x1000 < unat addr + n" "n = length bytes"
  shows "slice_read s addr n st = Panic OutOfRange \<and> slice_write s addr bytes st = Panic OutOfRange"
  using assms by (simp add: slice_read_def slice_write_def)

theorem slice_out_of_range_panics_witness:
  "slice_read \<lparr>ps_base = 0, ps_pages = 1\<rparr> 0xFFF 2 (\<lambda>_. 0) = Panic OutOfRange \<and>
   slice_write \<lparr>ps_base = 0, ps_pages = 1\<rparr> 0xFFF [1, 2] (\<lambda>_. 0) = Panic OutOfRange"
  by (rule slice_out_of_range_panics) simp_all

text \<open>\<open>PageSlice::size_in_bytes\<close> returns for no slice: its body calls itself
  instead of \<open>size_in_pages\<close>.\<close>

theorem slice_size_in_bytes_never_returns: "slice_size_in_bytes s = None"
proof (rule ccontr)
  assume "slice_size_in_bytes s \<noteq> None"
  then obtain n where n: "slice_size_in_bytes s = Some n" by auto
  show False
    by (rule slice_size_in_bytes.raw_induct [where P = "\<lambda>s n. False", OF _ n])
      (auto simp: bind_eq_Some_conv)
qed

end
