(* ===== verification/VirtMemory.thy ===== *)
theory VirtMemory
  imports PageMemory
begin

text \<open>
  \<open>kernel/src/memory/virt.rs\<close>: the virtual address space as an ordered map from first
  page to page span, and the \<open>Memory\<close> it implements by splitting an access along the
  spans.

  The loops of \<open>read\<close> and \<open>write\<close> keep the address, the offset in the first page
  and the remaining length; the position in the caller's buffer is the bytes already read (or
  still to be written) and is not kept apart.  An iteration that makes no progress
  (\<open>max = 0\<close>, when a span of a multiple of \<open>2^20\<close> pages remains) would repeat
  itself for ever and is \<open>Diverge\<close>.  Buffers are shorter than 4 GiB, as every caller's.
\<close>

datatype 'm page_span_kind = Normal 'm

record ('m, 't) page_span =
  sp_size :: u32
  sp_kind :: "'m page_span_kind"
  sp_tag :: 't

record ('m, 't) virtual_memory =
  vm_pages :: "(u32 \<times> ('m, 't) page_span) list"

definition vm_new :: "('m, 't) virtual_memory" where
  "vm_new = \<lparr>vm_pages = []\<rparr>"

definition vm_lookup ::
  "('m, 't) virtual_memory \<Rightarrow> u32 \<Rightarrow> (('m, 't) page_span \<times> u32) option res" where
  "vm_lookup vm page =
     (case btree_last_le page (vm_pages vm) of
        None \<Rightarrow> Ret None
      | Some (found_page, found_item) \<Rightarrow>
          and_then (cadd found_page (sp_size found_item)) (\<lambda>end.
          Ret (if page < end then Some (found_item, page - found_page) else None)))"

definition vm_map_memory ::
  "('m, 's) memory_ops \<Rightarrow> u32 \<Rightarrow> 'm \<Rightarrow> 't \<Rightarrow> ('m, 't) virtual_memory \<Rightarrow> ('m, 't) virtual_memory" where
  "vm_map_memory ops addr mem tag vm =
     vm\<lparr>vm_pages := btree_insert (drop_bit 12 addr)
         \<lparr>sp_size = mo_size ops mem, sp_kind = Normal mem, sp_tag = tag\<rparr> (vm_pages vm)\<rparr>"

definition vm_size_in_pages :: "('m, 't) virtual_memory \<Rightarrow> u32" where
  "vm_size_in_pages vm = 0"

text \<open>How much of an access at \<open>addr\<close> the span there can serve: the span, the page's
  offset in it, and the byte count.\<close>

definition vm_span_at ::
  "('m, 't) virtual_memory \<Rightarrow> u32 \<Rightarrow> u32 \<Rightarrow> u32 \<Rightarrow> (('m, 't) page_span \<times> u32 \<times> u32) res" where
  "vm_span_at vm addr page_offset rem =
     and_then (vm_lookup vm (drop_bit 12 addr)) (\<lambda>found.
     and_then (expect ''Unmapped memory read'' found) (\<lambda>(item, offset).
     and_then (csub (sp_size item) offset) (\<lambda>item_pages.
     and_then (csub (push_bit 12 item_pages) page_offset) (\<lambda>item_bytes.
     Ret (item, offset, if item_bytes > rem then rem else item_bytes)))))"

lemma vm_span_at_le: "vm_span_at vm addr po rem = Ret (item, offset, mx) \<Longrightarrow> mx \<le> rem"
  by (auto simp: vm_span_at_def not_less split: if_splits)

lemma unat_rem_decreases: "mx \<le> rem \<Longrightarrow> mx \<noteq> 0 \<Longrightarrow> unat (rem - mx) < unat (rem :: u32)"
  using unat_gt_0 [of mx] by (simp add: unat_sub word_le_nat_alt)

function vm_read_loop ::
  "('m, 's) memory_ops \<Rightarrow> ('m, 't) virtual_memory \<Rightarrow> u32 \<Rightarrow> u32 \<Rightarrow> u32 \<Rightarrow> 's \<Rightarrow> u8 list res" where
  "vm_read_loop ops vm addr page_offset rem st =
     (if 0 < rem
      then and_then (vm_span_at vm addr page_offset rem) (\<lambda>(item, offset, max).
           case sp_kind item of Normal backing \<Rightarrow>
             and_then (mo_read ops backing addr (unat max) st) (\<lambda>bytes.
             if max = 0 then Diverge
             else and_then (cadd addr max) (\<lambda>addr'.
                  and_then (vm_read_loop ops vm addr' 0 (rem - max) st) (\<lambda>rest.
                  Ret (bytes @ rest)))))
      else Ret [])"
  by pat_completeness auto
termination
  by (relation "measure (\<lambda>(ops, vm, addr, page_offset, rem, st). unat rem)")
    (auto dest: vm_span_at_le intro: unat_rem_decreases)

function vm_write_loop ::
  "('m, 's) memory_ops \<Rightarrow> ('m, 't) virtual_memory \<Rightarrow> u32 \<Rightarrow> u32 \<Rightarrow> u32 \<Rightarrow> u8 list \<Rightarrow> 's \<Rightarrow> 's res" where
  "vm_write_loop ops vm addr page_offset rem bytes st =
     (if 0 < rem
      then and_then (vm_span_at vm addr page_offset rem) (\<lambda>(item, offset, max).
           case sp_kind item of Normal backing \<Rightarrow>
             and_then (mo_write ops backing (or (push_bit 12 offset) (and addr 0xFFF))
                         (take (unat max) bytes) st) (\<lambda>st'.
             if max = 0 then Diverge
             else and_then (cadd addr max) (\<lambda>addr'.
                  vm_write_loop ops vm addr' 0 (rem - max) (drop (unat max) bytes) st')))
      else Ret st)"
  by pat_completeness auto
termination
  by (relation "measure (\<lambda>(ops, vm, addr, page_offset, rem, bytes, st). unat rem)")
    (auto dest: vm_span_at_le intro: unat_rem_decreases)

declare vm_read_loop.simps [simp del] vm_write_loop.simps [simp del]

definition vm_read ::
  "('m, 's) memory_ops \<Rightarrow> ('m, 't) virtual_memory \<Rightarrow> u32 \<Rightarrow> nat \<Rightarrow> 's \<Rightarrow> u8 list res" where
  "vm_read ops vm addr n st = vm_read_loop ops vm addr (and addr 0xFFF) (of_nat n) st"

definition vm_write ::
  "('m, 's) memory_ops \<Rightarrow> ('m, 't) virtual_memory \<Rightarrow> u32 \<Rightarrow> u8 list \<Rightarrow> 's \<Rightarrow> 's res" where
  "vm_write ops vm addr bytes st =
     vm_write_loop ops vm addr (and addr 0xFFF) (of_nat (length bytes)) bytes st"

definition vm_ops :: "('m, 's) memory_ops \<Rightarrow> (('m, 't) virtual_memory, 's) memory_ops" where
  "vm_ops ops =
     \<lparr>mo_size = vm_size_in_pages, mo_read = vm_read ops, mo_write = vm_write ops\<rparr>"

section \<open>Lookup\<close>

text \<open>
  A well-formed address space: the keys ascend (as in every ordered map), spans do not overlap,
  and each ends inside the 20-bit page space and is smaller than it.
\<close>

definition vm_ok :: "('m, 't) virtual_memory \<Rightarrow> bool" where
  "vm_ok vm \<longleftrightarrow>
     sorted_wrt (<) (map fst (vm_pages vm)) \<and>
     (\<forall>(p, sp) \<in> set (vm_pages vm). unat p + unat (sp_size sp) \<le> 2 ^ 20 \<and> unat (sp_size sp) < 2 ^ 20 \<and>
        (\<forall>(q, _) \<in> set (vm_pages vm). p < q \<longrightarrow> unat p + unat (sp_size sp) \<le> unat q))"

lemma vm_okD:
  assumes "vm_ok vm" "(p, sp) \<in> set (vm_pages vm)"
  shows "unat p + unat (sp_size sp) \<le> 2 ^ 20" "unat (sp_size sp) < 2 ^ 20"
    "\<And>q sq. (q, sq) \<in> set (vm_pages vm) \<Longrightarrow> unat p < unat q \<Longrightarrow> unat p + unat (sp_size sp) \<le> unat q"
  using assms by (fastforce simp: vm_ok_def word_less_nat_alt)+

lemma vm_ok_inj:
  assumes "vm_ok vm" "(p, sp) \<in> set (vm_pages vm)" "(p, sp') \<in> set (vm_pages vm)"
  shows "sp = sp'"
  using assms by (auto simp: vm_ok_def strict_sorted_iff dest: eq_key_imp_eq_value)

lemma cadd_span:
  assumes "unat p + unat s \<le> 2 ^ 20"
  shows "cadd p (s :: u32) = Ret (p + s)" "unat (p + s) = unat p + unat s"
  using assms by (simp_all add: cadd_def checked_add_def unat_add_small)

lemma vm_lookup_total:
  assumes "vm_ok vm"
  shows "\<exists>r. vm_lookup vm page = Ret r"
  using assms btree_last_le_Some(1) [of "vm_pages vm" page]
  by (fastforce simp: vm_lookup_def vm_ok_def cadd_span split: option.splits)

lemma vm_lookup_iff:
  assumes ok: "vm_ok vm"
  shows "vm_lookup vm page = Ret (Some (item, off)) \<longleftrightarrow>
    (\<exists>p. (p, item) \<in> set (vm_pages vm) \<and> unat p \<le> unat page \<and>
       unat page < unat p + unat (sp_size item) \<and> off = page - p)"
    (is "?l \<longleftrightarrow> ?r")
proof
  have sorted: "sorted_wrt (<) (map fst (vm_pages vm))" using ok by (simp add: vm_ok_def)
  {
    assume ?l
    then obtain p where p: "btree_last_le page (vm_pages vm) = Some (p, item)" "off = page - p"
        "page < p + sp_size item" "cadd p (sp_size item) = Ret (p + sp_size item)"
      by (auto simp: vm_lookup_def split: option.splits if_splits)
    have in_p: "(p, item) \<in> set (vm_pages vm)" "p \<le> page"
      using btree_last_le_Some(1,2) [OF sorted p(1)] by auto
    then show ?r
      using p vm_okD(1) [OF ok in_p(1)]
      by (intro exI [of _ p]) (simp add: word_le_nat_alt word_less_nat_alt cadd_span(2))
  next
    assume ?r
    then obtain p where p: "(p, item) \<in> set (vm_pages vm)" "unat p \<le> unat page"
       "unat page < unat p + unat (sp_size item)" "off = page - p" by blast
    obtain q sq where q: "btree_last_le page (vm_pages vm) = Some (q, sq)"
      using p btree_last_le_None [of page "vm_pages vm"]
      by (cases "btree_last_le page (vm_pages vm)") (auto simp: word_less_nat_alt)
    have in_q: "(q, sq) \<in> set (vm_pages vm)" "q \<le> page" "p \<le> q"
      using btree_last_le_Some [OF sorted q] p by (auto simp: word_le_nat_alt)
    have "p = q"
    proof (rule ccontr)
      assume "p \<noteq> q"
      then have "unat p < unat q" using in_q(3) by (metis le_less word_less_nat_alt)
      then show False using vm_okD(3) [OF ok p(1) in_q(1)] in_q(2) p(3) by (simp add: word_le_nat_alt)
    qed
    moreover have "sq = item" using vm_ok_inj [OF ok p(1)] in_q(1) \<open>p = q\<close> by simp
    ultimately show ?l
      using q p vm_okD(1) [OF ok p(1)]
      by (simp add: vm_lookup_def cadd_span word_less_nat_alt)
  }
qed

section \<open>Accesses within spans\<close>

lemma unat_page: "unat (drop_bit 12 (a :: u32)) = unat a div 4096"
  by (simp add: drop_bit_eq_div unat_div_distrib)

lemma page_mask: "and (a :: u32) 0xFFF = take_bit 12 a"
  by (simp add: take_bit_eq_mask mask_eq_exp_minus_1)

lemma unat_page_offset: "unat (and (a :: u32) 0xFFF) = unat a mod 4096"
  by (simp only: page_mask unsigned_take_bit_eq) (simp add: take_bit_eq_mod)

lemma unat_pages_bytes: "unat n < 2 ^ 20 \<Longrightarrow> unat (push_bit 12 (n :: u32)) = unat n * 4096"
  by (simp add: push_bit_eq_mult unat_word_ariths)

lemma span_address:
  assumes "unat off < 2 ^ 20"
  shows "unat (or (push_bit 12 off) (and (a :: u32) 0xFFF)) = unat off * 4096 + unat a mod 4096"
proof -
  have "or (push_bit 12 off) (and a 0xFFF) = push_bit 12 off + and a 0xFFF"
    unfolding page_mask by (rule disjunctive_add_eq_or [symmetric], rule bit_eqI)
      (auto simp: bit_simps)
  moreover have n: "unat (push_bit 12 off) = unat off * 4096"
    using assms by (rule unat_pages_bytes)
  moreover have "unat off * 4096 + unat a mod 4096 < 2 ^ 32"
    using assms mod_less_divisor [of 4096 "unat a"] by simp
  ultimately show ?thesis
    using unat_add_small [of "push_bit 12 off" "and a 0xFFF"] unat_page_offset [of a]
    by (simp del: push_bit_eq_mult)
qed

lemma unat_csub: "b \<le> a \<Longrightarrow> csub a b = Ret (a - b) \<and> unat (a - b) = unat (a :: u32) - unat b"
  by (simp add: csub_def unat_sub)

text \<open>An access that stays inside the span is served by one call on its backing.\<close>

lemma vm_span_at_eq:
  assumes ok: "vm_ok vm" and item: "(p, item) \<in> set (vm_pages vm)"
    and lo: "unat p * 4096 \<le> unat addr" and hi: "unat addr < (unat p + unat (sp_size item)) * 4096"
    and po: "unat po = unat addr mod 4096"
  shows "\<exists>mx. vm_span_at vm addr po rem = Ret (item, drop_bit 12 addr - p, mx) \<and>
    unat mx = min (unat rem) ((unat p + unat (sp_size item)) * 4096 - unat addr)"
proof -
  let ?page = "drop_bit 12 addr"
  let ?off = "?page - p"
  note size = vm_okD(1,2) [OF ok item]
  have pg: "unat p \<le> unat ?page" "unat ?page < unat p + unat (sp_size item)"
    using lo hi by (simp_all only: unat_page less_mult_imp_div_less)
  have look: "vm_lookup vm ?page = Ret (Some (item, ?off))"
    using pg item vm_lookup_iff [OF ok] by blast
  have off: "unat ?off = unat ?page - unat p"
    using pg(1) by (simp add: unat_sub word_le_nat_alt del: unat_page)
  have le1: "?off \<le> sp_size item" using pg off by (simp add: word_le_nat_alt)
  let ?n = "sp_size item - ?off"
  have n: "csub (sp_size item) ?off = Ret ?n" "unat ?n = unat p + unat (sp_size item) - unat ?page"
    using unat_csub [OF le1] off pg by simp_all
  have "unat ?n < 2 ^ 20" using n(2) size(2) pg(1) by simp
  then have bytes: "unat (push_bit 12 ?n) = unat ?n * 4096" by (rule unat_pages_bytes)
  have div: "unat addr = unat ?page * 4096 + unat addr mod 4096" by (simp only: unat_page) simp
  have avail: "unat ?n * 4096 = (unat p + unat (sp_size item)) * 4096 - unat ?page * 4096"
    using n(2) by (simp add: diff_mult_distrib)
  have le2: "po \<le> push_bit 12 ?n"
    using pg n(2) bytes po mod_less_divisor [of 4096 "unat addr"] by (simp only: word_le_nat_alt)
  let ?b = "push_bit 12 ?n - po"
  have b: "csub (push_bit 12 ?n) po = Ret ?b"
      "unat ?b = (unat p + unat (sp_size item)) * 4096 - unat addr"
    using unat_csub [OF le2] bytes avail po div by simp_all
  show ?thesis
    using look n(1) b
    by (auto simp: vm_span_at_def expect_def word_less_nat_alt min_def not_less)
qed

text \<open>The store index behind a byte of the address space, when its backing is a page slice.\<close>

definition vm_byte :: "(page_slice, 't) virtual_memory \<Rightarrow> nat \<Rightarrow> nat option" where
  "vm_byte vm a =
     (case vm_lookup vm (of_nat (a div 4096)) of
        Ret (Some (item, off)) \<Rightarrow>
          (case sp_kind item of Normal s \<Rightarrow> Some (ps_base s + unat off * 4096 + a mod 4096))
      | _ \<Rightarrow> None)"

definition vm_slices :: "(page_slice, 't) virtual_memory \<Rightarrow> bool" where
  "vm_slices vm \<longleftrightarrow>
     (\<forall>(p, sp) \<in> set (vm_pages vm). case sp_kind sp of Normal s \<Rightarrow> ps_pages s = unat (sp_size sp))"

text \<open>Bytes put one by one, the \<open>k\<close>-th at the index \<open>f (a + k)\<close>.\<close>

primrec put_at :: "(nat \<Rightarrow> nat) \<Rightarrow> nat \<Rightarrow> u8 list \<Rightarrow> byte_store \<Rightarrow> byte_store" where
  "put_at f a [] st = st"
| "put_at f a (b # bs) st = put_at f (Suc a) bs (st(f a := b))"

lemma put_at_append: "put_at f a (xs @ ys) st = put_at f (a + length xs) ys (put_at f a xs st)"
  by (induction xs arbitrary: a st) simp_all

lemma put_at_cong:
  "(\<And>k. k < length bs \<Longrightarrow> f (a + k) = g (a' + k)) \<Longrightarrow> put_at f a bs st = put_at g a' bs st"
proof (induction bs arbitrary: a a' st)
  case (Cons b bs)
  have "f a = g a'" using Cons.prems [of 0] by simp
  moreover have "f (Suc a + k) = g (Suc a' + k)" if "k < length bs" for k
    using Cons.prems [of "Suc k"] that by simp
  ultimately show ?case using Cons.IH [of "Suc a" "Suc a'"] by simp
qed simp

lemma put_at_run:
  "put_at (\<lambda>i. i) b bs st = (\<lambda>i. if b \<le> i \<and> i < b + length bs then bs ! (i - b) else st i)"
  by (induction bs arbitrary: b st) (auto simp: fun_eq_iff nth_Cons')

lemma slice_write_bytes:
  "slice_write s a bs st =
     (if slice_covers s (unat a) (length bs)
      then Ret (put_at (\<lambda>i. i) (ps_base s + unat a) bs st) else Panic OutOfRange)"
  by (simp add: slice_write_def slice_covers_def Let_def put_at_run)

lemma unat_of_nat_page: "a < 2 ^ 32 \<Longrightarrow> unat (of_nat (a div 4096) :: u32) = a div 4096"
  by (simp add: unat_of_nat take_bit_nat_eq_self_iff)

lemma vm_byte_span:
  assumes ok: "vm_ok vm" and item: "(p, item) \<in> set (vm_pages vm)" "sp_kind item = Normal s"
    and lo: "unat p * 4096 \<le> a" and hi: "a < (unat p + unat (sp_size item)) * 4096"
  shows "vm_byte vm a = Some (ps_base s + (a - unat p * 4096))"
proof -
  note size = vm_okD(1,2) [OF ok item(1)]
  let ?page = "of_nat (a div 4096) :: u32"
  have "a < 2 ^ 32" using hi size(1) by simp
  then have pg: "unat ?page = a div 4096" by (rule unat_of_nat_page)
  have in_p: "unat p \<le> unat ?page" "unat ?page < unat p + unat (sp_size item)"
    using lo hi by (simp_all only: pg less_mult_imp_div_less)
  then have "vm_lookup vm ?page = Ret (Some (item, ?page - p))"
    using item vm_lookup_iff [OF ok] by blast
  moreover have "unat (?page - p) = a div 4096 - unat p"
    using in_p(1) pg by (simp add: unat_sub word_le_nat_alt)
  moreover have "(a div 4096 - unat p) * 4096 + a mod 4096 = a - unat p * 4096"
    using lo div_mult_mod_eq [of a 4096] by (simp add: diff_mult_distrib)
  ultimately show ?thesis using item(2) by (simp add: vm_byte_def)
qed

lemma vm_byte_SomeD:
  assumes ok: "vm_ok vm" and a: "a < 2 ^ 32" and b: "vm_byte vm a \<noteq> None"
  shows "\<exists>p item s. (p, item) \<in> set (vm_pages vm) \<and> sp_kind item = Normal s \<and>
    unat p * 4096 \<le> a \<and> a < (unat p + unat (sp_size item)) * 4096"
proof -
  obtain item off where l: "vm_lookup vm (of_nat (a div 4096)) = Ret (Some (item, off))"
    using b by (auto simp: vm_byte_def split: res.splits option.splits)
  then obtain p where p: "(p, item) \<in> set (vm_pages vm)" "unat p \<le> a div 4096"
     "a div 4096 < unat p + unat (sp_size item)"
    using vm_lookup_iff [OF ok] unat_of_nat_page [OF a] by auto
  moreover obtain s where "sp_kind item = Normal s" by (cases "sp_kind item")
  moreover have "unat p * 4096 \<le> a" using p(2) by (simp add: less_eq_div_iff_mult_less_eq)
  moreover have "a < (unat p + unat (sp_size item)) * 4096"
    using p(3) by (simp add: div_less_iff_less_mult)
  ultimately show ?thesis by blast
qed

text \<open>The bytes of an access, put one by one where the address space says each belongs.\<close>

definition put_bytes ::
  "(page_slice, 't) virtual_memory \<Rightarrow> nat \<Rightarrow> u8 list \<Rightarrow> byte_store \<Rightarrow> byte_store" where
  "put_bytes vm a bytes st = put_at (\<lambda>i. the (vm_byte vm i)) a bytes st"

lemma slice_write_put_bytes:
  assumes ok: "vm_ok vm" "vm_slices vm"
    and item: "(p, item) \<in> set (vm_pages vm)" "sp_kind item = Normal s"
    and lo: "unat p * 4096 \<le> a" and hi: "a + length bs \<le> (unat p + unat (sp_size item)) * 4096"
    and off: "unat off = a - unat p * 4096"
  shows "slice_write s off bs st = Ret (put_bytes vm a bs st)"
proof -
  have "ps_pages s = unat (sp_size item)"
    using ok(2) item by (fastforce simp: vm_slices_def)
  then have "slice_covers s (unat off) (length bs)"
    using hi lo off by (simp add: slice_covers_def)
  moreover have "the (vm_byte vm (a + k)) = ps_base s + unat off + k" if "k < length bs" for k
    using vm_byte_span [OF ok(1) item, of "a + k"] lo hi off that by simp
  ultimately show ?thesis
    by (auto simp: slice_write_bytes put_bytes_def intro: put_at_cong)
qed

lemma vm_loops_done [simp]:
  "vm_read_loop ops vm addr po 0 st = Ret []" "vm_write_loop ops vm addr po 0 bytes st = Ret st"
  by (subst vm_read_loop.simps, simp) (subst vm_write_loop.simps, simp)

lemma vm_loops_step:
  assumes "0 < rem" "vm_span_at vm addr po rem = Ret (item, off, mx)" "sp_kind item = Normal b"
    "mx \<noteq> 0" "cadd addr mx = Ret addr'"
  shows "vm_read_loop ops vm addr po rem st =
      and_then (mo_read ops b addr (unat mx) st) (\<lambda>bytes.
      and_then (vm_read_loop ops vm addr' 0 (rem - mx) st) (\<lambda>rest. Ret (bytes @ rest)))"
    and "vm_write_loop ops vm addr po rem bytes st =
      and_then (mo_write ops b (or (push_bit 12 off) (and addr 0xFFF)) (take (unat mx) bytes) st)
        (vm_write_loop ops vm addr' 0 (rem - mx) (drop (unat mx) bytes))"
proof -
  show "vm_read_loop ops vm addr po rem st =
      and_then (mo_read ops b addr (unat mx) st) (\<lambda>bytes.
      and_then (vm_read_loop ops vm addr' 0 (rem - mx) st) (\<lambda>rest. Ret (bytes @ rest)))"
    by (subst vm_read_loop.simps) (simp add: assms(1-4) assms(5) del: cadd_eq_Ret)
  show "vm_write_loop ops vm addr po rem bytes st =
      and_then (mo_write ops b (or (push_bit 12 off) (and addr 0xFFF)) (take (unat mx) bytes) st)
        (vm_write_loop ops vm addr' 0 (rem - mx) (drop (unat mx) bytes))"
    by (subst vm_write_loop.simps) (simp add: assms(1-4) assms(5) del: cadd_eq_Ret)
qed

lemma vm_write_loop_bytes:
  assumes ok: "vm_ok vm" "vm_slices vm"
    and rem: "unat rem = length bytes" and last: "unat addr + length bytes < 2 ^ 32"
    and po: "unat po = unat addr mod 4096 \<or> rem = 0"
    and mapped: "\<forall>k < length bytes. vm_byte vm (unat addr + k) \<noteq> None"
  shows "vm_write_loop slice_ops vm addr po rem bytes st = Ret (put_bytes vm (unat addr) bytes st)"
  using rem last po mapped
proof (induction "length bytes" arbitrary: addr po rem bytes st rule: less_induct)
  case less
  show ?case
  proof (cases "rem = 0")
    case True
    then show ?thesis using less.prems by (simp add: vm_write_loop.simps put_bytes_def)
  next
    case False
    then have n: "0 < unat rem" "0 < rem" by (simp_all add: unat_gt_0 word_neq_0_conv)
    then have "vm_byte vm (unat addr) \<noteq> None" using less.prems by force
    then obtain p item s where it: "(p, item) \<in> set (vm_pages vm)" "sp_kind item = Normal s"
        "unat p * 4096 \<le> unat addr" "unat addr < (unat p + unat (sp_size item)) * 4096"
      using vm_byte_SomeD [OF ok(1), of "unat addr"] less.prems by auto
    have "unat po = unat addr mod 4096" using less.prems False by simp
    then obtain mx where mx: "vm_span_at vm addr po rem = Ret (item, drop_bit 12 addr - p, mx)"
        "unat mx = min (unat rem) ((unat p + unat (sp_size item)) * 4096 - unat addr)"
      using vm_span_at_eq [OF ok(1) it(1,3,4), of po rem] by blast
    have mx0: "mx \<noteq> 0" using n it mx(2) by (auto simp: unat_eq_0)
    have mx_le: "unat mx \<le> length bytes" using mx(2) less.prems by simp
    have pg: "unat p \<le> unat (drop_bit 12 addr)" "unat (drop_bit 12 addr) < unat p + unat (sp_size item)"
      using it(3,4) by (simp_all only: unat_page less_mult_imp_div_less)
    let ?off = "drop_bit 12 addr - p"
    have off: "unat ?off = unat addr div 4096 - unat p"
      using pg(1) by (simp only: unat_page unat_sub word_le_nat_alt)
    have "unat ?off < 2 ^ 20" using pg off vm_okD(2) [OF ok(1) it(1)] by (simp only: unat_page)
    then have addr_off: "unat (or (push_bit 12 ?off) (and addr 0xFFF)) = unat addr - unat p * 4096"
      using span_address [of ?off addr] off it(3) div_mult_mod_eq [of "unat addr" 4096]
      by (simp add: diff_mult_distrib)
    let ?now = "take (unat mx) bytes" and ?rest = "drop (unat mx) bytes"
    have wr: "slice_write s (or (push_bit 12 ?off) (and addr 0xFFF)) ?now st =
        Ret (put_bytes vm (unat addr) ?now st)"
      using mx(2) it mx_le by (intro slice_write_put_bytes [OF ok it(1,2,3) _ addr_off]) simp
    have add: "cadd addr mx = Ret (addr + mx)" "unat (addr + mx) = unat addr + unat mx"
      using less.prems(2) mx_le by (simp_all add: unat_add_small)
    have rem': "unat (rem - mx) = length ?rest"
      using mx(2) less.prems(1) by (simp add: unat_sub word_le_nat_alt)
    have "unat (addr + mx) mod 4096 = 0 \<or> rem - mx = 0"
    proof (cases "unat mx = unat rem")
      case False
      then have "unat addr + unat mx = (unat p + unat (sp_size item)) * 4096"
        using mx(2) it(4) by (simp add: min_def split: if_splits)
      then show ?thesis using add(2) by (metis mod_mult_self2_is_0)
    qed (use rem' mx_le less.prems(1) in \<open>simp add: word_unat_eq_iff\<close>)
    then have po': "unat (0::u32) = unat (addr + mx) mod 4096 \<or> rem - mx = 0" by auto
    have mapped': "vm_byte vm (unat (addr + mx) + k) \<noteq> None" if "k < length ?rest" for k
    proof -
      have "unat mx + k < length bytes" using that by simp
      then have "vm_byte vm (unat addr + (unat mx + k)) \<noteq> None" using less.prems(4) by blast
      then show ?thesis by (simp only: add(2) add.assoc not_False_eq_True)
    qed
    have "vm_write_loop slice_ops vm (addr + mx) 0 (rem - mx) ?rest st' =
        Ret (put_bytes vm (unat (addr + mx)) ?rest st')" for st'
    proof (rule less.hyps)
      show "length ?rest < length bytes" using mx0 mx_le unat_gt_0 [of mx] by simp
      show "unat (addr + mx) + length ?rest < 2 ^ 32" using less.prems(2) add(2) mx_le by simp
      show "\<forall>k < length ?rest. vm_byte vm (unat (addr + mx) + k) \<noteq> None"
        using mapped' by blast
    qed (rule rem' po')+
    then show ?thesis
      using put_at_append [of "\<lambda>i. the (vm_byte vm i)" "unat addr" ?now ?rest st] mx_le wr add(2)
      unfolding vm_loops_step(2) [OF n(2) mx(1) it(2) mx0 add(1)]
      by (simp add: slice_ops_def put_bytes_def min_absorb2)
  qed
qed


lemma vm_loops_single:
  assumes ok: "vm_ok vm" and item: "(p, item) \<in> set (vm_pages vm)" "sp_kind item = Normal backing"
    and po: "unat po = unat addr mod 4096"
    and lo: "unat p * 4096 \<le> unat addr" and last: "unat addr + length bytes < 2 ^ 32"
    and hi: "unat addr + length bytes \<le> (unat p + unat (sp_size item)) * 4096"
    and rem: "unat rem = length bytes" "bytes \<noteq> []"
  shows "vm_read_loop ops vm addr po rem st = mo_read ops backing addr (length bytes) st"
    and "vm_write_loop ops vm addr po rem bytes st =
      mo_write ops backing (or (push_bit 12 (drop_bit 12 addr - p)) (and addr 0xFFF)) bytes st"
proof -
  have pos: "0 < rem" using rem by (auto simp: word_less_nat_alt)
  have "unat addr < (unat p + unat (sp_size item)) * 4096" using hi rem(2) by (cases bytes) auto
  then obtain mx where mx: "vm_span_at vm addr po rem = Ret (item, drop_bit 12 addr - p, mx)"
      "unat mx = min (unat rem) ((unat p + unat (sp_size item)) * 4096 - unat addr)"
    using vm_span_at_eq [OF ok item(1) lo _ po, of rem] by blast
  then have mx_rem: "mx = rem" using hi rem(1) by (simp add: word_unat_eq_iff)
  have add: "cadd addr rem = Ret (addr + rem)" using last rem(1) by simp
  have "rem \<noteq> 0" using pos by simp
  note step = vm_loops_step [OF pos mx(1) item(2), unfolded mx_rem, OF this add]
  show "vm_read_loop ops vm addr po rem st = mo_read ops backing addr (length bytes) st"
    by (simp add: step(1) rem(1))
  show "vm_write_loop ops vm addr po rem bytes st =
      mo_write ops backing (or (push_bit 12 (drop_bit 12 addr - p)) (and addr 0xFFF)) bytes st"
    by (simp add: step(2) rem(1) vm_loops_done [abs_def])
qed

section \<open>The address space of the emulator\<close>

text \<open>\<open>main\<close> maps the 128 MiB of FCRAM at \<open>0x20000000\<close> and hands this address space to
  the kernel memory manager.\<close>

definition fcram :: physical_memory where
  "fcram = fst (phys_new (drop_bit 12 0x08000000))"

definition fcram_vm :: "(page_slice, unit) virtual_memory" where
  "fcram_vm = vm_map_memory slice_ops 0x20000000 (phys_slice fcram) () vm_new"

lemma fcram_vm_pages:
  "vm_pages fcram_vm =
     [(0x20000, \<lparr>sp_size = 0x8000, sp_kind = Normal \<lparr>ps_base = 0, ps_pages = 0x8000\<rparr>, sp_tag = ()\<rparr>)]"
  by (simp add: fcram_vm_def fcram_def phys_new_def phys_slice_def vm_map_memory_def vm_new_def
      slice_ops_def slice_size_in_pages_def drop_bit_eq_div)

lemma fcram_vm_ok: "vm_ok fcram_vm" "vm_slices fcram_vm"
  by (simp_all add: vm_ok_def vm_slices_def fcram_vm_pages)

lemma fcram_vm_byte: "0x20000000 \<le> a \<Longrightarrow> a < 0x28000000 \<Longrightarrow> vm_byte fcram_vm a = Some (a - 0x20000000)"
  using vm_byte_span [OF fcram_vm_ok(1), of "0x20000" _ _ a] by (simp add: fcram_vm_pages)

lemma vm_span_access:
  assumes "vm_ok vm" "(p, item) \<in> set (vm_pages vm)" "sp_kind item = Normal backing"
    and "unat p * 4096 \<le> unat addr" "unat addr + length bytes < 2 ^ 32" "bytes \<noteq> []"
    and "unat addr + length bytes \<le> (unat p + unat (sp_size item)) * 4096"
  shows "vm_write ops vm addr bytes st = mo_write ops backing (addr - push_bit 12 p) bytes st \<and>
    vm_read ops vm addr (length bytes) st = mo_read ops backing addr (length bytes) st"
proof -
  have rem: "unat (of_nat (length bytes) :: u32) = length bytes"
    using assms(5) by (simp add: unat_of_nat take_bit_nat_eq_self_iff)
  have page: "unat p \<le> unat addr div 4096" "unat addr div 4096 < unat p + unat (sp_size item)"
    using assms(4,6,7) by (cases bytes, simp_all add: less_eq_div_iff_mult_less_eq div_less_iff_less_mult)+
  have off: "unat (drop_bit 12 addr - p) = unat addr div 4096 - unat p"
    using page(1) by (simp only: unat_page unat_sub word_le_nat_alt)
  have "unat (drop_bit 12 addr - p) < 2 ^ 20"
    using page off vm_okD(2) [OF assms(1,2)] by simp
  then have "unat (or (push_bit 12 (drop_bit 12 addr - p)) (and addr 0xFFF)) = unat addr - unat p * 4096"
    using span_address [of "drop_bit 12 addr - p" addr] off assms(4) div_mult_mod_eq [of "unat addr" 4096]
    by (simp add: diff_mult_distrib)
  moreover have p20: "unat p < 2 ^ 20" using vm_okD(1) [OF assms(1,2)] page by simp
  moreover have "push_bit 12 p \<le> addr"
    using unat_pages_bytes [OF p20] assms(4) by (simp only: word_le_nat_alt)
  ultimately have "or (push_bit 12 (drop_bit 12 addr - p)) (and addr 0xFFF) = addr - push_bit 12 p"
    by (simp only: word_unat_eq_iff unat_sub unat_pages_bytes)
  then show ?thesis
    using vm_loops_single [OF assms(1-3) unat_page_offset assms(4,5,7) rem assms(6), where ops = ops and st = st]
    by (simp add: vm_write_def vm_read_def)
qed

lemma fcram_access:
  assumes "0x20000000 \<le> unat addr" "unat addr + length bytes \<le> 0x28000000" "bytes \<noteq> []"
  shows "(\<exists>st'. vm_write slice_ops fcram_vm addr bytes st = Ret st' \<and>
      (\<forall>k < length bytes. st' (unat addr - 0x20000000 + k) = bytes ! k)) \<and>
    vm_read slice_ops fcram_vm addr (length bytes) st = Panic OutOfRange"
proof -
  have bound: "unat addr + length bytes < 2 ^ 32" using assms(2) by simp
  let ?s = "\<lparr>ps_base = 0, ps_pages = 0x8000\<rparr>"
  have access: "vm_write slice_ops fcram_vm addr bytes st = slice_write ?s (addr - 0x20000000) bytes st \<and>
      vm_read slice_ops fcram_vm addr (length bytes) st = slice_read ?s addr (length bytes) st"
    using vm_span_access [OF fcram_vm_ok(1), of "0x20000" _ ?s addr bytes slice_ops st] assms bound
    by (simp add: fcram_vm_pages) (simp add: slice_ops_def)
  have "unat (addr - 0x20000000) = unat addr - 0x20000000"
    using assms(1) by (simp add: unat_sub word_le_nat_alt)
  then show ?thesis
    using access assms by (cases bytes) (auto simp: slice_write_def slice_read_def Let_def)
qed

section \<open>Properties\<close>

text \<open>A lookup in a well-formed address space never panics and finds the span that holds
  the page, with the page's offset in it.\<close>

theorem vm_lookup_spec:
  assumes "vm_ok vm"
  shows "vm_lookup vm page =
    Ret (case filter (\<lambda>(p, sp). p \<le> page \<and> unat page < unat p + unat (sp_size sp)) (vm_pages vm) of
           [] \<Rightarrow> None | (p, sp) # _ \<Rightarrow> Some (sp, page - p))"
proof -
  let ?hit = "filter (\<lambda>(p, sp). p \<le> page \<and> unat page < unat p + unat (sp_size sp)) (vm_pages vm)"
  obtain r where r: "vm_lookup vm page = Ret r" using vm_lookup_total [OF assms] by blast
  show ?thesis
  proof (cases ?hit)
    case Nil
    then have "vm_lookup vm page \<noteq> Ret (Some (item, off))" for item off
      using vm_lookup_iff [OF assms, of page item off] by (auto simp: filter_empty_conv word_le_nat_alt)
    then show ?thesis using r Nil by (cases r) auto
  next
    case (Cons hd tl)
    obtain p sp where hd: "hd = (p, sp)" by (cases hd)
    then have "(p, sp) \<in> set ?hit" using Cons by simp
    then have "vm_lookup vm page = Ret (Some (sp, page - p))"
      using vm_lookup_iff [OF assms, of page sp "page - p"] by (auto simp: word_le_nat_alt)
    then show ?thesis using Cons hd by simp
  qed
qed

theorem vm_lookup_spec_witness:
  "vm_lookup fcram_vm 0x20005 =
     Ret (Some (\<lparr>sp_size = 0x8000, sp_kind = Normal \<lparr>ps_base = 0, ps_pages = 0x8000\<rparr>, sp_tag = ()\<rparr>, 5))"
  using vm_lookup_spec [OF fcram_vm_ok(1), of "0x20005"] by (simp add: fcram_vm_pages)

text \<open>C24: a write through the address space, however many spans it crosses, puts each of its
  bytes where the address space maps that byte, and nothing else; it panics and loops for no
  mapped range.\<close>

theorem vm_write_refines_bytes:
  assumes "vm_ok vm" "vm_slices vm" "unat addr + length bytes < 2 ^ 32"
    and "\<forall>k < length bytes. vm_byte vm (unat addr + k) \<noteq> None"
  shows "vm_write slice_ops vm addr bytes st =
    Ret (put_at (\<lambda>i. the (vm_byte vm i)) (unat addr) bytes st)"
proof -
  have "unat (of_nat (length bytes) :: u32) = length bytes"
    using assms(3) by (simp add: unat_of_nat take_bit_nat_eq_self_iff)
  then show ?thesis
    using vm_write_loop_bytes [OF assms(1,2) _ assms(3) _ assms(4)] unat_page_offset [of addr]
    by (simp add: vm_write_def put_bytes_def)
qed

theorem vm_write_refines_bytes_witness:
  "vm_write slice_ops fcram_vm 0x20000FFF [1, 2] (\<lambda>_. 0) =
     Ret ((\<lambda>_. 0)(0xFFF := 1, 0x1000 := 2))"
  using vm_write_refines_bytes [OF fcram_vm_ok, of "0x20000FFF" "[1, 2]" "\<lambda>_. 0"]
  by (simp add: fcram_vm_byte)

text \<open>inside one span a write passes the address relative to the span to the span's
  backing, while a read passes the absolute address.\<close>

theorem vm_access_in_span:
  assumes "vm_ok vm" "(p, item) \<in> set (vm_pages vm)" "sp_kind item = Normal backing"
    and "unat p * 4096 \<le> unat addr" "unat addr + length bytes < 2 ^ 32" "bytes \<noteq> []"
    and "unat addr + length bytes \<le> (unat p + unat (sp_size item)) * 4096"
  shows "vm_write ops vm addr bytes st = mo_write ops backing (addr - push_bit 12 p) bytes st \<and>
    vm_read ops vm addr (length bytes) st = mo_read ops backing addr (length bytes) st"
  using assms by (rule vm_span_access)

theorem vm_access_in_span_witness:
  "vm_write slice_ops fcram_vm 0x20000000 [7] (\<lambda>_. 0) =
     slice_write \<lparr>ps_base = 0, ps_pages = 0x8000\<rparr> 0 [7] (\<lambda>_. 0) \<and>
   vm_read slice_ops fcram_vm 0x20000000 1 (\<lambda>_. 0) =
     slice_read \<lparr>ps_base = 0, ps_pages = 0x8000\<rparr> 0x20000000 1 (\<lambda>_. 0)"
  using vm_access_in_span [OF fcram_vm_ok(1), of "0x20000" _ "\<lparr>ps_base = 0, ps_pages = 0x8000\<rparr>"
      "0x20000000" "[7]" slice_ops "\<lambda>_. 0"]
  by (simp add: fcram_vm_pages) (simp add: slice_ops_def)

text \<open>C26: in the emulator's address space every write inside FCRAM succeeds and stores its
  bytes, and every read there panics: the two directions disagree on the address they give
  to the backing.\<close>

theorem fcram_reads_panic:
  assumes "0x20000000 \<le> unat addr" "unat addr + length bytes \<le> 0x28000000" "bytes \<noteq> []"
  shows "(\<exists>st'. vm_write slice_ops fcram_vm addr bytes st = Ret st' \<and>
      (\<forall>k < length bytes. st' (unat addr - 0x20000000 + k) = bytes ! k)) \<and>
    vm_read slice_ops fcram_vm addr (length bytes) st = Panic OutOfRange"
  using assms by (rule fcram_access)

theorem fcram_reads_panic_witness:
  "(\<exists>st'. vm_write slice_ops fcram_vm 0x20000010 [5, 6] (\<lambda>_. 0) = Ret st' \<and>
      (\<forall>k < length [5, 6 :: u8]. st' (unat (0x20000010 :: u32) - 0x20000000 + k) = [5, 6] ! k)) \<and>
   vm_read slice_ops fcram_vm 0x20000010 (length [5, 6 :: u8]) (\<lambda>_. 0) = Panic OutOfRange"
  by (rule fcram_reads_panic) simp_all

text \<open>C25: mapping a range that overlaps no other span keeps the address space well-formed,
  and afterwards the pages of the range are found there while all other lookups are
  unchanged.\<close>

theorem vm_map_memory_correct:
  assumes ok: "vm_ok vm" and page: "p = drop_bit 12 addr"
    and size: "0 < unat (mo_size ops mem)" "unat p + unat (mo_size ops mem) \<le> 2 ^ 20"
      "unat (mo_size ops mem) < 2 ^ 20"
    and free: "\<And>q sp. (q, sp) \<in> set (vm_pages vm) \<Longrightarrow>
      unat q + unat (sp_size sp) \<le> unat p \<or> unat p + unat (mo_size ops mem) \<le> unat q"
  shows "vm_ok (vm_map_memory ops addr mem tag vm) \<and>
    vm_lookup (vm_map_memory ops addr mem tag vm) page' =
      (if p \<le> page' \<and> unat page' < unat p + unat (mo_size ops mem)
       then Ret (Some (\<lparr>sp_size = mo_size ops mem, sp_kind = Normal mem, sp_tag = tag\<rparr>, page' - p))
       else vm_lookup vm page')"
proof -
  let ?vm = "vm_map_memory ops addr mem tag vm"
  let ?item = "\<lparr>sp_size = mo_size ops mem, sp_kind = Normal mem, sp_tag = tag\<rparr>"
  note sorted = ok [unfolded vm_ok_def, THEN conjunct1]
  have pages: "vm_pages ?vm = btree_insert p ?item (vm_pages vm)"
    by (simp add: vm_map_memory_def page)
  note mem_iff = set_btree_insert_iff [OF sorted, of _ _ p ?item, folded pages]
  have ok': "vm_ok ?vm"
    using ok sorted_btree_insert [OF sorted, of p ?item] size free
    unfolding vm_ok_def pages [symmetric]
    by (fastforce simp: mem_iff word_less_nat_alt split: if_splits)
  have hit: "vm_lookup ?vm page' = Ret (Some (it, off)) \<longleftrightarrow>
      vm_lookup vm page' = Ret (Some (it, off))"
    if out: "\<not> (p \<le> page' \<and> unat page' < unat p + unat (mo_size ops mem))" for it off
    using out free [of p] size(1) unfolding vm_lookup_iff [OF ok] vm_lookup_iff [OF ok'] mem_iff
    by (fastforce simp: word_le_nat_alt split: if_splits)
  have "vm_lookup ?vm page' = vm_lookup vm page'"
    if out: "\<not> (p \<le> page' \<and> unat page' < unat p + unat (mo_size ops mem))"
  proof -
    obtain r r' where "vm_lookup ?vm page' = Ret r" "vm_lookup vm page' = Ret r'"
      using vm_lookup_total [OF ok] vm_lookup_total [OF ok'] by blast
    then show ?thesis using hit [OF out] by (cases r; cases r') auto
  qed
  moreover have "vm_lookup ?vm page' = Ret (Some (?item, page' - p))"
    if "p \<le> page' \<and> unat page' < unat p + unat (mo_size ops mem)"
    using that unfolding vm_lookup_iff [OF ok'] mem_iff by (auto simp: word_le_nat_alt)
  ultimately show ?thesis using ok' by simp
qed

theorem vm_map_memory_correct_witness:
  "vm_ok (vm_map_memory slice_ops 0x18000000 \<lparr>ps_base = 0, ps_pages = 6\<rparr> () fcram_vm) \<and>
   vm_lookup (vm_map_memory slice_ops 0x18000000 \<lparr>ps_base = 0, ps_pages = 6\<rparr> () fcram_vm) 0x18005 =
     Ret (Some (\<lparr>sp_size = 6, sp_kind = Normal \<lparr>ps_base = 0, ps_pages = 6\<rparr>, sp_tag = ()\<rparr>, 5))"
  using vm_map_memory_correct [OF fcram_vm_ok(1), of "0x18000" "0x18000000" slice_ops
      "\<lparr>ps_base = 0, ps_pages = 6\<rparr>" "()" "0x18005"]
  by (simp add: fcram_vm_pages slice_ops_def slice_size_in_pages_def drop_bit_eq_div)

text \<open>an access whose first page is mapped by no span panics with the code's message, a
  read and a write alike.\<close>

theorem vm_unmapped_panics:
  assumes "vm_ok vm" "0 < n" "n < 2 ^ 32" "length bytes = n"
    and "\<forall>(p, sp) \<in> set (vm_pages vm).
      unat addr < unat p * 4096 \<or> (unat p + unat (sp_size sp)) * 4096 \<le> unat addr"
  shows "vm_read ops vm addr n st = Panic (Expect ''Unmapped memory read'') \<and>
    vm_write ops vm addr bytes st = Panic (Expect ''Unmapped memory read'')"
proof -
  obtain r where r: "vm_lookup vm (drop_bit 12 addr) = Ret r" using vm_lookup_total [OF assms(1)] by blast
  have "r = None"
  proof (cases r)
    case (Some x)
    then obtain p item where p: "(p, item) \<in> set (vm_pages vm)" "unat p \<le> unat addr div 4096"
        "unat addr div 4096 < unat p + unat (sp_size item)"
      using r vm_lookup_iff [OF assms(1)] by (cases x) (auto simp only: unat_page)
    then have "unat p * 4096 \<le> unat addr" "unat addr < (unat p + unat (sp_size item)) * 4096"
      by (simp_all add: less_eq_div_iff_mult_less_eq div_less_iff_less_mult)
    then show ?thesis using assms(5) p(1) by fastforce
  qed
  moreover have "0 < (of_nat n :: u32)"
    using assms(2,3) by (simp add: word_less_nat_alt unat_of_nat take_bit_nat_eq_self_iff)
  ultimately show ?thesis
    using r assms(4) unfolding vm_read_def vm_write_def
    by (subst vm_read_loop.simps, subst vm_write_loop.simps) (simp add: vm_span_at_def)
qed

theorem vm_unmapped_panics_witness:
  "vm_read slice_ops fcram_vm 0x28000000 4 (\<lambda>_. 0) = Panic (Expect ''Unmapped memory read'') \<and>
   vm_write slice_ops fcram_vm 0x28000000 [1, 2, 3, 4] (\<lambda>_. 0) = Panic (Expect ''Unmapped memory read'')"
  by (rule vm_unmapped_panics [OF fcram_vm_ok(1)]) (simp_all add: fcram_vm_pages)

end
