(* ===== verification/Kmm.thy ===== *)
theory Kmm
  imports VirtMemory
begin

text \<open>
  \<open>kernel/src/memory/kmm.rs\<close>: the kernel memory manager, a free list per region kept in the
  managed memory itself: each free block starts with a 12-byte header holding its size in
  pages and the addresses of the next and the previous free block.

  A region is locked for the whole of each operation, so an operation is one step from the
  region and the memory to the new ones.  The list in memory may be cyclic as far as the code
  knows, so the two loops over it are partial functions and not returning is \<open>None\<close>, which
  the operations turn into \<open>Diverge\<close>.
\<close>

section \<open>Block pointers and headers\<close>

type_synonym block_ptr = u32

definition block_from_ptr :: "u32 \<Rightarrow> block_ptr option" where
  "block_from_ptr ptr =
     (if and ptr 0xFFF \<noteq> 0 then None
      else if and ptr (not 0xFFF) = 0 then None
      else Some (drop_bit 12 ptr))"

definition block_offset :: "block_ptr \<Rightarrow> u32 \<Rightarrow> block_ptr option" where
  "block_offset p pages =
     (case checked_add p pages of
        None \<Rightarrow> None
      | Some new_ptr \<Rightarrow> if and new_ptr 0x000FFFFF \<noteq> new_ptr then None else Some new_ptr)"

text \<open>\<open>FromUnsafeData for Option<MemoryBlockHeaderPtr>\<close>: the outer option is whether the
  data is valid.\<close>

definition from_unsafe_data :: "u32 \<Rightarrow> block_ptr option option" where
  "from_unsafe_data ptr =
     (if and ptr 0xFFF \<noteq> 0 then None
      else if and ptr (not 0xFFF) = 0 then Some None
      else Some (Some (drop_bit 12 ptr)))"

definition into_unsafe :: "block_ptr option \<Rightarrow> u32" where
  "into_unsafe p = (case p of None \<Rightarrow> 0 | Some p \<Rightarrow> push_bit 12 p)"

definition assert_safe :: "u32 \<Rightarrow> block_ptr option res" where
  "assert_safe data = expect ''Unsafe data detected'' (from_unsafe_data data)"

record block_header =
  bh_size :: u32
  bh_next :: u32
  bh_prev :: u32

definition block_read ::
  "('m, 's) memory_ops \<Rightarrow> 'm \<Rightarrow> block_ptr \<Rightarrow> 's \<Rightarrow> block_header res" where
  "block_read ops m p st =
     and_then (mo_read ops m (push_bit 12 p) (3 * 4) st) (\<lambda>data.
     Ret \<lparr>bh_size = le_word (take 4 data), bh_next = le_word (take 4 (drop 4 data)),
          bh_prev = le_word (take 4 (drop 8 data))\<rparr>)"

definition block_write ::
  "('m, 's) memory_ops \<Rightarrow> 'm \<Rightarrow> block_ptr \<Rightarrow> block_header \<Rightarrow> 's \<Rightarrow> 's res" where
  "block_write ops m p header st =
     mo_write ops m (push_bit 12 p)
       (le32 (bh_size header) @ le32 (bh_next header) @ le32 (bh_prev header)) st"

section \<open>Regions\<close>

record region_desc =
  rg_first :: "block_ptr option"
  rg_last :: "block_ptr option"
  rg_start :: u32
  rg_size :: u32

datatype memory_region = App | System | Base

record kmm =
  region_app :: region_desc
  region_system :: region_desc
  region_base :: region_desc

definition region_default :: region_desc where
  "region_default = \<lparr>rg_first = None, rg_last = None, rg_start = 0, rg_size = 0\<rparr>"

definition kmm_new :: kmm where
  "kmm_new = \<lparr>region_app = region_default, region_system = region_default,
     region_base = region_default\<rparr>"

fun select_region :: "kmm \<Rightarrow> memory_region \<Rightarrow> region_desc" where
  "select_region k App = region_app k"
| "select_region k System = region_system k"
| "select_region k Base = region_base k"

fun set_region :: "memory_region \<Rightarrow> region_desc \<Rightarrow> kmm \<Rightarrow> kmm" where
  "set_region App d k = k\<lparr>region_app := d\<rparr>"
| "set_region System d k = k\<lparr>region_system := d\<rparr>"
| "set_region Base d k = k\<lparr>region_base := d\<rparr>"

lemma select_set_region [simp]:
  "select_region (set_region r d k) r' = (if r = r' then d else select_region k r')"
  by (cases r; cases r') simp_all

definition init_region ::
  "('m, 's) memory_ops \<Rightarrow> 'm \<Rightarrow> memory_region \<Rightarrow> u32 \<Rightarrow> u32 \<Rightarrow> kmm \<Rightarrow> 's \<Rightarrow> (kmm \<times> 's) res" where
  "init_region ops m r addr pages k st =
     and_then (expect ''Invalid pointer passed into init_region'' (block_from_ptr addr)) (\<lambda>ptr.
     let region = (select_region k r)\<lparr>rg_start := addr, rg_size := pages,
           rg_first := Some ptr, rg_last := Some ptr\<rparr> in
     and_then (block_write ops m ptr
         \<lparr>bh_size = pages, bh_next = into_unsafe None, bh_prev = into_unsafe None\<rparr> st) (\<lambda>st'.
     Ret (set_region r region k, st')))"

section \<open>Allocation\<close>

text \<open>Taking \<open>pages\<close> pages from the front of a free block: the header of the remainder is
  written, and the ends of the region move if they were this block.\<close>

definition take_block ::
  "('m, 's) memory_ops \<Rightarrow> 'm \<Rightarrow> u32 \<Rightarrow> block_ptr \<Rightarrow> block_header \<Rightarrow> region_desc \<Rightarrow> 's \<Rightarrow>
     (u32 option \<times> region_desc \<times> 's) res" where
  "take_block ops m pages ptr block region st =
     (let rem = bh_size block - pages in
      and_then
        (if rem > 0
         then and_then (expect ''Bad free page length'' (block_offset ptr pages)) (\<lambda>new_ptr.
              and_then (block_write ops m new_ptr
                  \<lparr>bh_size = rem, bh_next = bh_next block, bh_prev = bh_prev block\<rparr> st) (\<lambda>st'.
              Ret (Some new_ptr, st')))
         else Ret (None, st)) (\<lambda>(new_block_ptr, st').
      let region' = (if rg_first region = Some ptr then region\<lparr>rg_first := new_block_ptr\<rparr> else region);
          region'' = (if rg_last region' = Some ptr then region'\<lparr>rg_last := new_block_ptr\<rparr> else region') in
      Ret (Some ptr, region'', st')))"

partial_function (option) alloc_loop ::
  "('m, 's) memory_ops \<Rightarrow> 'm \<Rightarrow> u32 \<Rightarrow> region_desc \<Rightarrow> 's \<Rightarrow> block_ptr option \<Rightarrow>
     (u32 option \<times> region_desc \<times> 's) res option" where
  "alloc_loop ops m pages region st ptr =
     (case ptr of
        None \<Rightarrow> Some (Ret (None, region, st))
      | Some p \<Rightarrow>
          (case block_read ops m p st of
             Ret block \<Rightarrow>
               if bh_size block \<ge> pages then Some (take_block ops m pages p block region st)
               else (case assert_safe (bh_next block) of
                       Ret next \<Rightarrow> alloc_loop ops m pages region st next
                     | Panic e \<Rightarrow> Some (Panic e)
                     | Diverge \<Rightarrow> None)
           | Panic e \<Rightarrow> Some (Panic e)
           | Diverge \<Rightarrow> None))"

definition returns :: "'a res option \<Rightarrow> 'a res" where
  "returns r = (case r of None \<Rightarrow> Diverge | Some x \<Rightarrow> x)"

definition allocate_linear ::
  "('m, 's) memory_ops \<Rightarrow> 'm \<Rightarrow> memory_region \<Rightarrow> u32 \<Rightarrow> kmm \<Rightarrow> 's \<Rightarrow> (u32 option \<times> kmm \<times> 's) res" where
  "allocate_linear ops m r pages k st =
     and_then (returns (alloc_loop ops m pages (select_region k r) st (rg_first (select_region k r))))
       (\<lambda>(result, region, st'). Ret (result, set_region r region k, st'))"

section \<open>Freeing\<close>

datatype insertion_point = First | Between block_ptr "block_ptr option"

definition insertion_at :: "block_ptr option \<Rightarrow> block_ptr option \<Rightarrow> insertion_point" where
  "insertion_at prev next = (case prev of Some q \<Rightarrow> Between q next | None \<Rightarrow> First)"

partial_function (option) insertion_loop ::
  "('m, 's) memory_ops \<Rightarrow> 'm \<Rightarrow> block_ptr \<Rightarrow> 's \<Rightarrow> block_ptr option \<Rightarrow> block_ptr option \<Rightarrow>
     insertion_point res option" where
  "insertion_loop ops m addr st prev ptr =
     (case ptr of
        None \<Rightarrow> Some (Ret (insertion_at prev None))
      | Some p \<Rightarrow>
          if p > addr then Some (Ret (insertion_at prev (Some p)))
          else (case block_read ops m p st of
                  Ret block \<Rightarrow>
                    (case assert_safe (bh_next block) of
                       Ret next \<Rightarrow> insertion_loop ops m addr st (Some p) next
                     | Panic e \<Rightarrow> Some (Panic e)
                     | Diverge \<Rightarrow> None)
                | Panic e \<Rightarrow> Some (Panic e)
                | Diverge \<Rightarrow> None))"

definition find_insertion_point ::
  "('m, 's) memory_ops \<Rightarrow> 'm \<Rightarrow> region_desc \<Rightarrow> block_ptr \<Rightarrow> 's \<Rightarrow> insertion_point res" where
  "find_insertion_point ops m region addr st =
     returns (insertion_loop ops m addr st None (rg_first region))"

text \<open>\<open>merge_right\<close> returns whether it merged and what it left in \<open>cur\<close>.\<close>

definition merge_right ::
  "('m, 's) memory_ops \<Rightarrow> 'm \<Rightarrow> block_ptr \<Rightarrow> block_header \<Rightarrow> region_desc \<Rightarrow> 's \<Rightarrow>
     (bool \<times> block_header \<times> region_desc \<times> 's) res" where
  "merge_right ops m ptr cur region st =
     and_then (assert_safe (bh_next cur)) (\<lambda>cur_next.
     case (block_offset ptr (bh_size cur), cur_next) of
       (Some end, Some next_ptr) \<Rightarrow>
         if next_ptr = end
         then and_then (block_read ops m next_ptr st) (\<lambda>next.
              and_then (cadd (bh_size cur) (bh_size next)) (\<lambda>size.
              let cur' = cur\<lparr>bh_size := size, bh_next := bh_next next\<rparr> in
              and_then (assert_safe (bh_next cur')) (\<lambda>next_next.
              case next_next of
                Some nn_ptr \<Rightarrow>
                  and_then (block_read ops m nn_ptr st) (\<lambda>nn.
                  and_then (block_write ops m nn_ptr (nn\<lparr>bh_prev := into_unsafe (Some ptr)\<rparr>) st) (\<lambda>st'.
                  Ret (True, cur', region, st')))
              | None \<Rightarrow> Ret (True, cur', region\<lparr>rg_last := Some ptr\<rparr>, st))))
         else Ret (False, cur, region, st)
     | _ \<Rightarrow> Ret (False, cur, region, st))"

text \<open>Reading a block, merging it with its right neighbour, and writing it back if it did.\<close>

definition merge_block ::
  "('m, 's) memory_ops \<Rightarrow> 'm \<Rightarrow> block_ptr \<Rightarrow> region_desc \<Rightarrow> 's \<Rightarrow> (block_header \<times> region_desc \<times> 's) res" where
  "merge_block ops m ptr region st =
     and_then (block_read ops m ptr st) (\<lambda>cur.
     and_then (merge_right ops m ptr cur region st) (\<lambda>(merged, cur', region', st').
     if merged
     then and_then (block_write ops m ptr cur' st') (\<lambda>st''. Ret (cur', region', st''))
     else Ret (cur', region', st')))"

definition coalesce ::
  "('m, 's) memory_ops \<Rightarrow> 'm \<Rightarrow> block_ptr \<Rightarrow> region_desc \<Rightarrow> 's \<Rightarrow> (region_desc \<times> 's) res" where
  "coalesce ops m ptr region st =
     and_then (merge_block ops m ptr region st) (\<lambda>(cur, region', st').
     and_then (assert_safe (bh_prev cur)) (\<lambda>cur_prev.
     case cur_prev of
       Some prev_ptr \<Rightarrow>
         and_then (merge_block ops m prev_ptr region' st') (\<lambda>(_, region'', st'').
         Ret (region'', st''))
     | None \<Rightarrow> Ret (region', st')))"

text \<open>Linking the block in at its insertion point: the header it gets, the region and the
  memory with its neighbours' headers updated.\<close>

definition link_block ::
  "('m, 's) memory_ops \<Rightarrow> 'm \<Rightarrow> block_ptr \<Rightarrow> u32 \<Rightarrow> insertion_point \<Rightarrow> region_desc \<Rightarrow> 's \<Rightarrow>
     (block_header \<times> region_desc \<times> 's) res" where
  "link_block ops m ptr pages point region st =
     (let block = \<lparr>bh_size = pages, bh_next = into_unsafe None, bh_prev = into_unsafe None\<rparr> in
      case point of
        First \<Rightarrow>
          let region' = region\<lparr>rg_first := Some ptr\<rparr> in
          Ret (block\<lparr>bh_next := into_unsafe (rg_first region)\<rparr>,
               if rg_last region' = None then region'\<lparr>rg_last := Some ptr\<rparr> else region', st)
      | Between prev next \<Rightarrow>
          let block' = block\<lparr>bh_prev := into_unsafe (Some prev)\<rparr> in
          and_then (block_read ops m prev st) (\<lambda>prev_block.
          and_then (block_write ops m prev (prev_block\<lparr>bh_next := into_unsafe (Some ptr)\<rparr>) st) (\<lambda>st'.
          case next of
            Some nx \<Rightarrow>
              and_then (block_read ops m nx st') (\<lambda>next_block.
              and_then (block_write ops m nx (next_block\<lparr>bh_prev := into_unsafe (Some ptr)\<rparr>) st') (\<lambda>st''.
              Ret (block'\<lparr>bh_next := into_unsafe (Some nx)\<rparr>, region, st'')))
          | None \<Rightarrow> Ret (block', region\<lparr>rg_last := Some ptr\<rparr>, st'))))"

definition free ::
  "('m, 's) memory_ops \<Rightarrow> 'm \<Rightarrow> memory_region \<Rightarrow> u32 \<Rightarrow> u32 \<Rightarrow> kmm \<Rightarrow> 's \<Rightarrow> (kmm \<times> 's) res" where
  "free ops m r addr pages k st =
     and_then (expect ''Invalid pointer given to free'' (block_from_ptr addr)) (\<lambda>ptr.
     and_then (find_insertion_point ops m (select_region k r) ptr st) (\<lambda>point.
     and_then (link_block ops m ptr pages point (select_region k r) st) (\<lambda>(block, region, st').
     and_then (block_write ops m ptr block st') (\<lambda>st''.
     and_then (coalesce ops m ptr region st'') (\<lambda>(region', st''').
     Ret (set_region r region' k, st'''))))))"

section \<open>Pointers and headers in memory\<close>

definition valid_block :: "block_ptr \<Rightarrow> bool" where
  "valid_block p \<longleftrightarrow> 0 < unat p \<and> unat p < 2 ^ 20"

lemma page_aligned: "and (push_bit 12 (p :: u32)) 0xFFF = 0"
proof -
  have "take_bit 12 (push_bit 12 p) = 0" by (simp add: take_bit_push_bit)
  then show ?thesis by (simp only: page_mask)
qed

lemma page_number:
  assumes "unat (p :: u32) < 2 ^ 20"
  shows "drop_bit 12 (push_bit 12 p) = p"
proof -
  have "unat (drop_bit 12 (push_bit 12 p)) = unat p"
    by (simp only: unat_page unat_pages_bytes [OF assms])
  then show ?thesis by (simp add: word_unat_eq_iff)
qed

lemma and_not_page: "and (x :: u32) (not 0xFFF) = push_bit 12 (drop_bit 12 x)"
proof -
  have "not 0xFFF = (not (mask 12) :: u32)" by (simp add: mask_eq_exp_minus_1)
  moreover have "and x (not (mask 12)) = push_bit 12 (drop_bit 12 x)"
    by (rule bit_eqI) (auto simp: bit_simps)
  ultimately show ?thesis by (simp only:)
qed

lemma from_unsafe_data_eq:
  "from_unsafe_data w =
     (if take_bit 12 w \<noteq> 0 then None
      else if push_bit 12 (drop_bit 12 w) = 0 then Some None
      else Some (Some (drop_bit 12 w)))"
  by (simp only: from_unsafe_data_def and_not_page page_mask)

lemma from_into_unsafe [simp]:
  "from_unsafe_data (into_unsafe None) = Some None"
  "valid_block p \<Longrightarrow> from_unsafe_data (into_unsafe (Some p)) = Some (Some p)"
proof -
  show "from_unsafe_data (into_unsafe None) = Some None"
    by (simp add: from_unsafe_data_def into_unsafe_def)
  assume p: "valid_block p"
  then have "push_bit 12 p \<noteq> 0"
    using unat_pages_bytes [of p] by (auto simp: valid_block_def)
  then show "from_unsafe_data (into_unsafe (Some p)) = Some (Some p)"
    using p page_number [of p] page_aligned [of p]
    by (simp only: from_unsafe_data_eq into_unsafe_def valid_block_def page_mask option.case) simp
qed

lemma from_unsafe_valid:
  assumes "from_unsafe_data w = Some (Some p)" shows "valid_block p" "into_unsafe (Some p) = w"
proof -
  have w: "take_bit 12 w = 0" "push_bit 12 (drop_bit 12 w) \<noteq> 0" "p = drop_bit 12 w"
    using assms by (auto simp: from_unsafe_data_eq split: if_splits)
  have "unat w < 2 ^ 32" using unsigned_less [of w] by simp
  then have "unat p < 2 ^ 20" by (simp only: w(3) unat_page) simp
  moreover have "p \<noteq> 0" using w by auto
  ultimately show "valid_block p" by (simp add: valid_block_def unat_gt_0)
  show "into_unsafe (Some p) = w"
    using bits_ident [of 12 w] w by (simp add: into_unsafe_def)
qed

lemma block_from_ptr_iff:
  "block_from_ptr addr = Some p \<longleftrightarrow> from_unsafe_data addr = Some (Some p)"
  by (auto simp: block_from_ptr_def from_unsafe_data_def)

lemma block_from_ptr_page [simp]: "valid_block p \<Longrightarrow> block_from_ptr (push_bit 12 p) = Some p"
  using from_into_unsafe(2) [of p] by (simp add: block_from_ptr_iff into_unsafe_def)

lemma block_offset_eq:
  assumes "valid_block p"
  shows "block_offset p n =
    (if unat p + unat n < 2 ^ 20 then Some (p + n) else None)"
proof -
  have mask: "and x 0x000FFFFF = x \<longleftrightarrow> unat x < 2 ^ 20" for x :: u32
  proof -
    have "and x 0x000FFFFF = take_bit 20 x" by (simp add: take_bit_eq_mask mask_eq_exp_minus_1)
    moreover have "take_bit 20 x = x \<longleftrightarrow> take_bit 20 (unat x) = unat x"
      by (simp only: word_unat_eq_iff unsigned_take_bit_eq)
    ultimately show ?thesis by (simp only: take_bit_nat_eq_self_iff)
  qed
  show ?thesis
  proof (cases "unat p + unat n < 2 ^ 32")
    case True
    then have "unat (p + n) = unat p + unat n" by (simp add: unat_add_small)
    then show ?thesis using True by (simp add: block_offset_def checked_add_def mask)
  next
    case False
    then show ?thesis by (simp add: block_offset_def checked_add_def)
  qed
qed


section \<open>Free lists in memory\<close>

text \<open>A block is its first page and its size; the links of a free list are the chain of
  next pointers from \<open>ptr\<close> to \<open>z\<close>.\<close>

type_synonym block = "block_ptr \<times> u32"

fun links :: "(block_ptr \<Rightarrow> block_header res) \<Rightarrow> block_ptr option \<Rightarrow> block list \<Rightarrow> block_ptr option \<Rightarrow> bool" where
  "links hs ptr [] z \<longleftrightarrow> ptr = z"
| "links hs ptr ((p, n) # bs) z \<longleftrightarrow>
     ptr = Some p \<and>
     (case hs p of
        Ret h \<Rightarrow> bh_size h = n \<and>
          (case from_unsafe_data (bh_next h) of None \<Rightarrow> False | Some next \<Rightarrow> links hs next bs z)
      | _ \<Rightarrow> False)"

abbreviation block_end :: "block \<Rightarrow> nat" where
  "block_end b \<equiv> unat (fst b) + unat (snd b)"

definition block_ok :: "block \<Rightarrow> bool" where
  "block_ok b \<longleftrightarrow> valid_block (fst b) \<and> 0 < unat (snd b) \<and> block_end b \<le> 2 ^ 20"

definition sorted_blocks :: "block list \<Rightarrow> bool" where
  "sorted_blocks bs \<longleftrightarrow>
     list_all block_ok bs \<and> sorted_wrt (\<lambda>b c. block_end b \<le> unat (fst c)) bs"

text \<open>Coalesced: no two blocks touch.\<close>

definition coalesced :: "block list \<Rightarrow> bool" where
  "coalesced bs \<longleftrightarrow>
     list_all block_ok bs \<and> sorted_wrt (\<lambda>b c. block_end b < unat (fst c)) bs"

definition block_pages :: "block \<Rightarrow> nat set" where
  "block_pages b = {unat (fst b)..<block_end b}"

definition pages_of :: "block list \<Rightarrow> nat set" where
  "pages_of bs = \<Union> (set (map block_pages bs))"

lemma coalesced_sorted: "coalesced bs \<Longrightarrow> sorted_blocks bs"
  by (auto simp: coalesced_def sorted_blocks_def elim: sorted_wrt_mono_rel [rotated])

lemma links_append:
  "links hs a (xs @ ys) c \<longleftrightarrow> (\<exists>b. links hs a xs b \<and> links hs b ys c)"
  by (induction hs a xs c rule: links.induct)
    (auto split: res.splits option.splits)

lemma links_cong:
  "(\<And>p n. (p, n) \<in> set bs \<Longrightarrow> hs p = hs' p) \<Longrightarrow> links hs a bs c = links hs' a bs c"
proof (induction hs a bs c rule: links.induct)
  case (2 hs ptr p n bs z)
  have "hs p = hs' p" using "2.prems" by auto
  moreover have "links hs nx bs z = links hs' nx bs z"
    if "hs p = Ret h" "from_unsafe_data (bh_next h) = Some nx" for h nx
    using "2.IH" [OF that] "2.prems" by (auto simp: that)
  ultimately show ?case by (auto split: res.splits option.splits)
qed simp

lemma links_Cons_iff:
  "links hs ptr ((p, n) # bs) z \<longleftrightarrow>
     ptr = Some p \<and> (\<exists>h nx. hs p = Ret h \<and> bh_size h = n \<and>
        from_unsafe_data (bh_next h) = Some nx \<and> links hs nx bs z)"
  by (auto split: res.splits option.splits)

lemma links_None: "links hs None bs None \<longleftrightarrow> bs = []"
  by (cases bs) auto

text \<open>A page whose header lies in the memory.\<close>

definition header_fits :: "(nat \<Rightarrow> nat \<Rightarrow> bool) \<Rightarrow> block_ptr \<Rightarrow> bool" where
  "header_fits covers p \<longleftrightarrow> unat p < 2 ^ 20 \<and> covers (unat p * 4096) 12"

lemma header_address: "header_fits covers p \<Longrightarrow> covers (unat (push_bit 12 p)) 12"
  by (simp only: header_fits_def unat_pages_bytes)

lemma header_addresses_apart:
  assumes "header_fits covers p" "header_fits covers q" "p \<noteq> q"
  shows "unat (push_bit 12 p) + 12 \<le> unat (push_bit 12 q) \<or> unat (push_bit 12 q) + 12 \<le> unat (push_bit 12 p)"
proof -
  have "unat p < unat q \<or> unat q < unat p" using assms(3) by (metis linorder_neqE_nat word_unat_eq_iff)
  then show ?thesis
    using assms(1,2) by (simp only: header_fits_def unat_pages_bytes) arith
qed

context byte_memory begin

lemma header_readable:
  assumes "header_fits covers p"
  shows "\<exists>h. block_read ops m p st = Ret h"
  using read_ok [OF header_address [OF assms], of st] by (auto simp: block_read_def)

text \<open>A header written to its page is read back, and no other header changes.\<close>

lemma header_written:
  assumes fits: "header_fits covers p"
  shows "\<exists>st'. block_write ops m p h st = Ret st' \<and> block_read ops m p st' = Ret h \<and>
    (\<forall>q. q \<noteq> p \<and> header_fits covers q \<longrightarrow> block_read ops m q st' = block_read ops m q st)"
proof -
  let ?data = "le32 (bh_size h) @ le32 (bh_next h) @ le32 (bh_prev h)"
  have len: "length ?data = 12" by (simp only: length_append length_le_bytes)
  have cov: "covers (unat (push_bit 12 p)) (length ?data)"
    unfolding len by (rule header_address [OF fits])
  obtain st' where w: "mo_write ops m (push_bit 12 p) ?data st = Ret st'"
    using write_ok [OF cov] by blast
  have fields: "take 4 ?data = le32 (bh_size h)" "take 4 (drop 4 ?data) = le32 (bh_next h)"
      "take 4 (drop 8 ?data) = le32 (bh_prev h)"
    by (simp_all only: take_append drop_append length_le_bytes) simp_all
  have "mo_read ops m (push_bit 12 p) (length ?data) st' = Ret ?data"
    by (rule read_written [OF cov w])
  then have r: "block_read ops m p st' = Ret h"
    unfolding len by (simp only: block_read_def fields le_word_le32 and_then.simps mult_numeral_1) simp
  have "block_read ops m q st' = block_read ops m q st" if q: "q \<noteq> p" "header_fits covers q" for q
  proof -
    have "mo_read ops m (push_bit 12 q) 12 st' = mo_read ops m (push_bit 12 q) 12 st"
      by (rule read_frame [OF cov w header_address [OF q(2)]])
        (use header_addresses_apart [OF fits q(2)] q(1) len in \<open>simp only: simp_thms\<close>)
    then show ?thesis by (simp add: block_read_def)
  qed
  then show ?thesis using w r by (auto simp: block_write_def)
qed

end

lemma links_keep:
  assumes "links hs a bs z"
    and "\<And>p n h. (p, n) \<in> set bs \<Longrightarrow> hs p = Ret h \<Longrightarrow>
      \<exists>h'. hs' p = Ret h' \<and> bh_size h' = bh_size h \<and> bh_next h' = bh_next h"
  shows "links hs' a bs z"
  using assms
proof (induction bs arbitrary: a)
  case (Cons b bs)
  obtain p n where b: "b = (p, n)" by (cases b)
  obtain h nx where h: "a = Some p" "hs p = Ret h" "bh_size h = n"
      "from_unsafe_data (bh_next h) = Some nx" "links hs nx bs z"
    using Cons.prems(1) unfolding b links_Cons_iff by blast
  obtain h' where h': "hs' p = Ret h'" "bh_size h' = bh_size h" "bh_next h' = bh_next h"
    using Cons.prems(2) h(2) b by force
  have "links hs' nx bs z" using Cons.prems(2) by (intro Cons.IH [OF h(5)]) (blast intro: list.set_intros(2))
  then show ?case unfolding b links_Cons_iff using h h' by simp
qed simp

lemma sorted_blocks_Cons:
  "sorted_blocks (b # bs) \<longleftrightarrow>
     block_ok b \<and> sorted_blocks bs \<and> (\<forall>c \<in> set bs. block_end b \<le> unat (fst c))"
  by (auto simp: sorted_blocks_def)

lemma sorted_blocks_fresh:
  "sorted_blocks (b # bs) \<Longrightarrow> fst b \<notin> fst ` set bs"
  by (fastforce simp: sorted_blocks_Cons block_ok_def)

text \<open>A block and the list after it, merged with the next block if they touch.\<close>

definition join_block :: "block \<Rightarrow> block list \<Rightarrow> block list" where
  "join_block b cs =
     (case cs of
        [] \<Rightarrow> [b]
      | c # cs' \<Rightarrow> if block_end b = unat (fst c) then (fst b, snd b + snd c) # cs' else b # cs)"

lemma safe_links:
  assumes "links hs ptr bs z" "from_unsafe_data w = Some ptr"
  shows "assert_safe w = Ret ptr"
  using assms by (simp add: assert_safe_def)

lemma touching_iff:
  assumes "block_ok (p, n)" "unat p + unat n \<le> unat q" "valid_block q"
  shows "block_offset p n = Some (p + n)" "q = p + n \<longleftrightarrow> unat p + unat n = unat q"
proof -
  have lt: "unat p + unat n < 2 ^ 20" using assms by (simp add: valid_block_def)
  then show "block_offset p n = Some (p + n)"
    using assms(1) by (simp add: block_offset_eq block_ok_def)
  show "q = p + n \<longleftrightarrow> unat p + unat n = unat q"
    using lt by (auto simp: word_unat_eq_iff unat_add_small)
qed

context byte_memory begin

lemma merge_block_links:
  assumes fits: "\<forall>b \<in> set ((p, n) # ys). header_fits covers (fst b)"
    and l: "links (\<lambda>q. block_read ops m q st) (Some p) ((p, n) # ys) None"
    and ok: "sorted_blocks ((p, n) # ys)"
    and cur: "block_read ops m p st = Ret cur"
    and z: "rg_last region = Some (fst (last ((p, n) # ys)))"
  shows "\<exists>cur' region' st'. merge_block ops m p region st = Ret (cur', region', st') \<and>
    bh_prev cur' = bh_prev cur \<and> rg_first region' = rg_first region \<and>
    rg_last region' = Some (fst (last (join_block (p, n) ys))) \<and>
    links (\<lambda>q. block_read ops m q st') (Some p) (join_block (p, n) ys) None \<and>
    (\<forall>q. q \<notin> fst ` set ((p, n) # ys) \<and> header_fits covers q \<longrightarrow>
       block_read ops m q st' = block_read ops m q st)"
proof -
  obtain nx where nx: "bh_size cur = n" "from_unsafe_data (bh_next cur) = Some nx"
      "links (\<lambda>q. block_read ops m q st) nx ys None"
    using l cur unfolding links_Cons_iff by auto
  have safe: "assert_safe (bh_next cur) = Ret nx" by (rule safe_links [OF nx(3,2)])
  show ?thesis
  proof (cases ys)
    case Nil
    then have "nx = None" using nx(3) by simp
    then have "merge_right ops m p cur region st = Ret (False, cur, region, st)"
      by (simp add: merge_right_def safe split: option.splits)
    then show ?thesis using cur l z Nil by (simp add: merge_block_def join_block_def)
  next
    case (Cons c zs)
    obtain q k where c: "c = (q, k)" by (cases c)
    note ok' = ok [unfolded Cons c sorted_blocks_Cons]
    have pq: "block_ok (p, n)" "unat p + unat n \<le> unat q" "valid_block q" "block_ok (q, k)"
      using ok' by (simp_all add: block_ok_def)
    obtain h2 nx2 where h2: "nx = Some q" "block_read ops m q st = Ret h2" "bh_size h2 = k"
        "from_unsafe_data (bh_next h2) = Some nx2" "links (\<lambda>q. block_read ops m q st) nx2 zs None"
      using nx(3) unfolding Cons c links_Cons_iff by blast
    show ?thesis
    proof (cases "unat p + unat n = unat q")
      case False
      then have "merge_right ops m p cur region st = Ret (False, cur, region, st)"
        using touching_iff [OF pq(1-3)] by (simp add: merge_right_def safe h2(1) nx(1))
      then show ?thesis
        using cur l z False by (simp add: merge_block_def join_block_def Cons c)
    next
      case True
      let ?cur = "cur\<lparr>bh_size := n + k, bh_next := bh_next h2\<rparr>"
      have size: "cadd n k = Ret (n + k)" using pq True by (simp add: block_ok_def)
      have off: "block_offset p n = Some q" using touching_iff [OF pq(1-3)] True by simp
      have safe2: "assert_safe (bh_next h2) = Ret nx2" by (rule safe_links [OF h2(5,4)])
      have join: "join_block (p, n) ys = (p, n + k) # zs" using True by (simp add: join_block_def Cons c)
      have fresh: "p \<noteq> q" "p \<notin> fst ` set zs" "q \<notin> fst ` set zs"
        using sorted_blocks_fresh [OF ok] sorted_blocks_fresh [of c zs] ok' by (auto simp: Cons c sorted_blocks_Cons)
      obtain region1 st1 where mr: "merge_right ops m p cur region st = Ret (True, ?cur, region1, st1)"
          "rg_first region1 = rg_first region" "rg_last region1 = Some (fst (last ((p, n + k) # zs)))"
          "links (\<lambda>q. block_read ops m q st1) nx2 zs None"
          "\<forall>x. x \<notin> fst ` set zs \<and> header_fits covers x \<longrightarrow>
             block_read ops m x st1 = block_read ops m x st"
      proof (cases zs)
        case Nil
        then have "nx2 = None" using h2(5) by simp
        then have "merge_right ops m p cur region st = Ret (True, ?cur, region\<lparr>rg_last := Some p\<rparr>, st)"
          by (simp add: merge_right_def safe h2(1,2,3) nx(1) safe2 off size Let_def)
        then show ?thesis using that h2(5) Nil by simp
      next
        case (Cons d ws)
        obtain r j where d: "d = (r, j)" by (cases d)
        obtain nn where nn: "nx2 = Some r" "block_read ops m r st = Ret nn"
          using h2(5) unfolding Cons d links_Cons_iff by blast
        have fr: "header_fits covers r" using fits by (simp add: \<open>ys = c # zs\<close> Cons d)
        obtain st1 where st1: "block_write ops m r (nn\<lparr>bh_prev := into_unsafe (Some p)\<rparr>) st = Ret st1"
            "block_read ops m r st1 = Ret (nn\<lparr>bh_prev := into_unsafe (Some p)\<rparr>)"
            "\<And>x. x \<noteq> r \<Longrightarrow> header_fits covers x \<Longrightarrow> block_read ops m x st1 = block_read ops m x st"
          using header_written [OF fr] by blast
        have "merge_right ops m p cur region st = Ret (True, ?cur, region, st1)"
          by (simp add: merge_right_def safe h2(1,2,3) nx(1) safe2 off size nn st1(1) Let_def)
        moreover have "links (\<lambda>q. block_read ops m q st1) nx2 zs None"
        proof (rule links_keep [OF h2(5)])
          fix x i h assume x: "(x, i) \<in> set zs" "block_read ops m x st = Ret h"
          have "header_fits covers x" using fits x(1) by (force simp: \<open>ys = c # zs\<close>)
          then show "\<exists>h'. block_read ops m x st1 = Ret h' \<and> bh_size h' = bh_size h \<and> bh_next h' = bh_next h"
            using st1(2,3) x(2) nn(2) by (cases "x = r") auto
        qed
        ultimately show ?thesis using that st1(3) z by (simp add: \<open>ys = c # zs\<close> Cons d image_iff)
      qed
      have fp: "header_fits covers p" using fits by simp
      obtain st2 where st2: "block_write ops m p ?cur st1 = Ret st2" "block_read ops m p st2 = Ret ?cur"
          "\<And>x. x \<noteq> p \<Longrightarrow> header_fits covers x \<Longrightarrow> block_read ops m x st2 = block_read ops m x st1"
        using header_written [OF fp] by blast
      have "links (\<lambda>q. block_read ops m q st2) nx2 zs None"
      proof (rule links_keep [OF mr(4)])
        fix x i h assume x: "(x, i) \<in> set zs" "block_read ops m x st1 = Ret h"
        have "header_fits covers x" using fits x(1) by (force simp: Cons)
        moreover have "x \<noteq> p" using fresh(2) x(1) by force
        ultimately show "\<exists>h'. block_read ops m x st2 = Ret h' \<and> bh_size h' = bh_size h \<and> bh_next h' = bh_next h"
          using st2(3) x(2) by auto
      qed
      then have "links (\<lambda>q. block_read ops m q st2) (Some p) (join_block (p, n) ys) None"
        unfolding join links_Cons_iff using st2(2) h2(4) by simp
      moreover have "merge_block ops m p region st = Ret (?cur, region1, st2)"
        using cur mr(1) st2(1) by (simp add: merge_block_def)
      ultimately show ?thesis
        using mr(2,3,5) st2(3) unfolding join by (intro exI [of _ ?cur] exI [of _ region1] exI [of _ st2]) (auto simp: Cons)
    qed
  qed
qed

end

section \<open>Freeing: the abstract list operation\<close>

text \<open>What \<open>free\<close> is to do to the list of blocks: put the block at its place and merge it
  with the neighbours it touches.\<close>

primrec free_insert :: "block \<Rightarrow> block list \<Rightarrow> block list" where
  "free_insert b [] = [b]"
| "free_insert b (c # cs) =
     (if fst b < fst c then join_block b (c # cs) else join_block c (free_insert b cs))"

definition apart :: "block \<Rightarrow> block \<Rightarrow> bool" where
  "apart b c \<longleftrightarrow> block_end b \<le> unat (fst c) \<or> block_end c \<le> unat (fst b)"

lemma coalesced_Cons:
  "coalesced (b # bs) \<longleftrightarrow>
     block_ok b \<and> coalesced bs \<and> (\<forall>c \<in> set bs. block_end b < unat (fst c))"
  by (auto simp: coalesced_def)

lemma join_end:
  assumes "block_ok b" "block_ok c" "block_end b = unat (fst c)"
  shows "block_ok (fst b, snd b + snd c)" "block_end (fst b, snd b + snd c) = block_end c"
proof -
  have "unat (snd b + snd c) = unat (snd b) + unat (snd c)"
    using assms by (intro unat_add_small) (simp add: block_ok_def)
  then show "block_ok (fst b, snd b + snd c)" "block_end (fst b, snd b + snd c) = block_end c"
    using assms by (simp_all add: block_ok_def)
qed

lemma pages_of_Cons: "pages_of (b # bs) = block_pages b \<union> pages_of bs"
  by (simp add: pages_of_def)

lemma join_block_correct:
  assumes "block_ok b" "coalesced cs" "\<forall>c \<in> set cs. block_end b \<le> unat (fst c)"
  shows "coalesced (join_block b cs)" "pages_of (join_block b cs) = block_pages b \<union> pages_of cs"
    "\<forall>c \<in> set (join_block b cs). unat (fst b) \<le> unat (fst c)"
proof -
  have "coalesced (join_block b cs) \<and> pages_of (join_block b cs) = block_pages b \<union> pages_of cs \<and>
    (\<forall>c \<in> set (join_block b cs). unat (fst b) \<le> unat (fst c))"
  proof (cases cs)
    case Nil
    then show ?thesis using assms by (simp add: join_block_def coalesced_def pages_of_Cons)
  next
    case (Cons c cs')
    note cs = assms(2) [unfolded Cons coalesced_Cons]
    have lt: "block_end b < unat (fst d)" if "d \<in> set cs'" for d
      using assms(3) Cons cs that by fastforce
    show ?thesis
    proof (cases "block_end b = unat (fst c)")
      case True
      note j = join_end [OF assms(1) _ True]
      have "block_pages (fst b, snd b + snd c) = block_pages b \<union> block_pages c"
        using j(2) cs True by (auto simp: block_pages_def)
      then show ?thesis
        using j cs True lt Cons
        by (auto simp: join_block_def coalesced_Cons pages_of_Cons dest!: lt)
    next
      case False
      then have "block_end b < unat (fst c)" using assms(3) Cons by simp
      then show ?thesis
        using False assms(1,2) lt Cons by (auto simp: join_block_def coalesced_Cons pages_of_Cons dest!: lt)
    qed
  qed
  then show "coalesced (join_block b cs)" "pages_of (join_block b cs) = block_pages b \<union> pages_of cs"
    "\<forall>c \<in> set (join_block b cs). unat (fst b) \<le> unat (fst c)" by blast+
qed

lemma free_insert_correct:
  assumes "block_ok b" "coalesced cs" "\<forall>c \<in> set cs. apart b c"
  shows "coalesced (free_insert b cs) \<and> pages_of (free_insert b cs) = block_pages b \<union> pages_of cs \<and>
    (\<forall>c \<in> set (free_insert b cs). \<exists>d \<in> set (b # cs). unat (fst d) \<le> unat (fst c))"
  using assms
proof (induction cs)
  case Nil
  then show ?case by (simp add: coalesced_Cons coalesced_def pages_of_Cons)
next
  case (Cons c cs)
  note cs = Cons.prems(2) [unfolded coalesced_Cons]
  show ?case
  proof (cases "fst b < fst c")
    case True
    have "\<forall>d \<in> set (c # cs). block_end b \<le> unat (fst d)"
      using True Cons.prems cs by (fastforce simp: apart_def word_less_nat_alt block_ok_def)
    then show ?thesis
      using True join_block_correct [OF Cons.prems(1,2)] by fastforce
  next
    case False
    have IH: "coalesced (free_insert b cs)" "pages_of (free_insert b cs) = block_pages b \<union> pages_of cs"
        "\<forall>c \<in> set (free_insert b cs). \<exists>d \<in> set (b # cs). unat (fst d) \<le> unat (fst c)"
      using Cons.IH Cons.prems cs by simp_all
    have "block_end c \<le> unat (fst b)"
      using False Cons.prems(1,3) by (simp add: apart_def word_less_nat_alt block_ok_def)
    then have "\<forall>d \<in> set (free_insert b cs). block_end c \<le> unat (fst d)"
      using IH(3) cs by fastforce
    then show ?thesis
      using False IH join_block_correct [OF _ IH(1), of c] cs by (fastforce simp: pages_of_Cons)
  qed
qed

lemma hd_join_block: "fst (List.hd (join_block b cs)) = fst b"
  by (simp add: join_block_def split: list.splits)

lemma free_insert_split:
  assumes "coalesced (xs @ ys)" "\<forall>c \<in> set xs. fst c < fst b" "ys = [] \<or> fst b < fst (List.hd ys)"
    "\<forall>c \<in> set (xs @ ys). apart b c" "block_ok b"
  shows "free_insert b (xs @ ys) =
    (if xs = [] then join_block b ys
     else butlast xs @ join_block (last xs) (join_block b ys))"
  using assms
proof (induction xs)
  case Nil
  then show ?case by (cases ys) (auto simp: join_block_def)
next
  case (Cons x xs)
  have IH: "free_insert b (xs @ ys) =
    (if xs = [] then join_block b ys else butlast xs @ join_block (last xs) (join_block b ys))"
    using Cons by (simp add: coalesced_Cons)
  have "\<not> fst b < fst x" using Cons.prems(2) by auto
  moreover have "join_block x (free_insert b (xs @ ys)) = x # free_insert b (xs @ ys)" if "xs \<noteq> []"
  proof -
    from \<open>xs \<noteq> []\<close> obtain d ds where xs: "xs = d # ds" by (cases xs) auto
    have "fst (List.hd (free_insert b (xs @ ys))) = fst d"
      using IH by (simp add: xs hd_append hd_join_block)
    moreover have "block_end x < unat (fst d)"
      using Cons.prems(1) by (simp add: coalesced_Cons xs)
    moreover have "free_insert b (xs @ ys) \<noteq> []" using IH that by (simp add: join_block_def split: list.splits)
    ultimately show ?thesis by (cases "free_insert b (xs @ ys)") (simp_all add: join_block_def)
  qed
  ultimately show ?case using IH by auto
qed

section \<open>Freeing in memory\<close>

text \<open>A region's free list in memory is exactly \<open>bs\<close>.\<close>

definition free_list ::
  "(block_ptr \<Rightarrow> block_header res) \<Rightarrow> region_desc \<Rightarrow> block list \<Rightarrow> bool" where
  "free_list hs region bs \<longleftrightarrow>
     links hs (rg_first region) bs None \<and>
     rg_last region = (if bs = [] then None else Some (fst (last bs)))"

lemma links_first:
  "links hs ptr bs None \<Longrightarrow> ptr = (if bs = [] then None else Some (fst (List.hd bs)))"
  by (cases bs) auto

context byte_memory begin

lemma insertion_loop_links:
  assumes "links (\<lambda>q. block_read ops m q st) ptr (xs @ ys) None"
    "\<forall>c \<in> set xs. fst c < addr" "ys = [] \<or> addr < fst (List.hd ys)"
  shows "insertion_loop ops m addr st prev ptr =
    Some (Ret (insertion_at (if xs = [] then prev else Some (fst (last xs)))
                 (if ys = [] then None else Some (fst (List.hd ys)))))"
  using assms
proof (induction xs arbitrary: ptr prev)
  case Nil
  then show ?case
    by (cases ys) (auto simp: insertion_loop.simps [of ops m addr st prev])
next
  case (Cons x xs)
  obtain p n where x: "x = (p, n)" by (cases x)
  obtain h nx where h: "ptr = Some p" "block_read ops m p st = Ret h"
      "from_unsafe_data (bh_next h) = Some nx" "links (\<lambda>q. block_read ops m q st) nx (xs @ ys) None"
    using Cons.prems(1) unfolding x append_Cons links_Cons_iff by blast
  have "\<not> p > addr" using Cons.prems(2) x by auto
  moreover have "assert_safe (bh_next h) = Ret nx" by (rule safe_links [OF h(4,3)])
  ultimately have "insertion_loop ops m addr st prev ptr = insertion_loop ops m addr st (Some p) nx"
    using h(1,2) by (subst insertion_loop.simps) simp
  then show ?case using Cons.IH [OF h(4), of "Some p"] Cons.prems(2,3) by (simp add: x)
qed

lemma links_unchanged:
  assumes "links (\<lambda>q. block_read ops m q st) a bs z"
    and "\<And>b. b \<in> set bs \<Longrightarrow> block_read ops m (fst b) st' = block_read ops m (fst b) st"
  shows "links (\<lambda>q. block_read ops m q st') a bs z"
  using assms(1) by (rule links_keep) (use assms(2) in force)

text \<open>Setting the \<open>prev\<close> of a block in the list leaves the list as it is.\<close>

lemma links_set_prev:
  assumes "links (\<lambda>q. block_read ops m q st) a bs z" "block_read ops m r st = Ret h"
    and "block_read ops m r st' = Ret (h\<lparr>bh_prev := w\<rparr>)"
    and "\<And>b. b \<in> set bs \<Longrightarrow> fst b \<noteq> r \<Longrightarrow> block_read ops m (fst b) st' = block_read ops m (fst b) st"
  shows "links (\<lambda>q. block_read ops m q st') a bs z"
  using assms(1)
proof (rule links_keep)
  fix p n g assume "(p, n) \<in> set bs" "block_read ops m p st = Ret g"
  then show "\<exists>h'. block_read ops m p st' = Ret h' \<and> bh_size h' = bh_size g \<and> bh_next h' = bh_next g"
    using assms(2-4) by (cases "p = r") force+
qed

text \<open>Linking in before the first block, and after \<open>(q, k)\<close>.\<close>

lemma link_first:
  assumes fits: "header_fits covers p" and p: "p \<notin> fst ` set ys" "valid_block p"
    and fits_ys: "\<forall>b \<in> set ys. header_fits covers (fst b) \<and> block_ok b"
    and fl: "free_list (\<lambda>q. block_read ops m q st) region ys"
  shows "\<exists>header region' st1. link_block ops m p n First region st = Ret (header, region', st) \<and>
    block_write ops m p header st = Ret st1 \<and> block_read ops m p st1 = Ret header \<and>
    bh_prev header = into_unsafe None \<and>
    free_list (\<lambda>q. block_read ops m q st1) region' ((p, n) # ys) \<and>
    (\<forall>q. q \<noteq> p \<and> header_fits covers q \<longrightarrow> block_read ops m q st1 = block_read ops m q st)"
proof -
  let ?h = "\<lparr>bh_size = n, bh_next = into_unsafe (rg_first region), bh_prev = into_unsafe None\<rparr>"
  let ?region = "if rg_last region = None then region\<lparr>rg_first := Some p, rg_last := Some p\<rparr>
    else region\<lparr>rg_first := Some p\<rparr>"
  note l = fl [unfolded free_list_def]
  obtain st1 where st1: "block_write ops m p ?h st = Ret st1" "block_read ops m p st1 = Ret ?h"
      "\<And>q. q \<noteq> p \<Longrightarrow> header_fits covers q \<Longrightarrow> block_read ops m q st1 = block_read ops m q st"
    using header_written [OF fits] by blast
  have first: "rg_first region = (if ys = [] then None else Some (fst (List.hd ys)))"
    using l links_first by blast
  have "ys \<noteq> [] \<Longrightarrow> valid_block (fst (List.hd ys))" using fits_ys by (simp add: block_ok_def)
  then have "from_unsafe_data (into_unsafe (rg_first region)) = Some (rg_first region)"
    using first by (cases ys) simp_all
  moreover have "links (\<lambda>q. block_read ops m q st1) (rg_first region) ys None"
  proof (rule links_unchanged [OF l [THEN conjunct1]])
    fix b assume "b \<in> set ys"
    then show "block_read ops m (fst b) st1 = block_read ops m (fst b) st"
      using p(1) fits_ys by (intro st1(3)) auto
  qed
  ultimately have "links (\<lambda>q. block_read ops m q st1) (Some p) ((p, n) # ys) None"
    unfolding links_Cons_iff using st1(2) by simp
  then have "free_list (\<lambda>q. block_read ops m q st1) ?region ((p, n) # ys)"
    using l by (simp add: free_list_def)
  moreover have "link_block ops m p n First region st = Ret (?h, ?region, st)"
    by (simp add: link_block_def Let_def)
  ultimately show ?thesis using st1 by (intro exI [of _ ?h] exI [of _ ?region] exI [of _ st1]) simp
qed

lemma link_between:
  assumes fits: "header_fits covers p" and p: "p \<notin> fst ` set (ws @ (q, k) # ys)" "valid_block p"
    and fits_bs: "\<forall>b \<in> set (ws @ (q, k) # ys). header_fits covers (fst b) \<and> block_ok b"
    and dist: "distinct (map fst (ws @ (q, k) # ys))"
    and fl: "free_list (\<lambda>q. block_read ops m q st) region (ws @ (q, k) # ys)"
  shows "\<exists>header region' st1 st2.
    link_block ops m p n (Between q (if ys = [] then None else Some (fst (List.hd ys)))) region st =
      Ret (header, region', st1) \<and>
    block_write ops m p header st1 = Ret st2 \<and> block_read ops m p st2 = Ret header \<and>
    bh_prev header = into_unsafe (Some q) \<and>
    free_list (\<lambda>q. block_read ops m q st2) region' (ws @ (q, k) # (p, n) # ys) \<and>
    (\<forall>x. x \<notin> fst ` set (ws @ (q, k) # (p, n) # ys) \<and> header_fits covers x \<longrightarrow>
       block_read ops m x st2 = block_read ops m x st)"
proof -
  note l = fl [unfolded free_list_def]
  obtain h nx where h: "links (\<lambda>q. block_read ops m q st) (rg_first region) ws (Some q)"
      "block_read ops m q st = Ret h" "bh_size h = k" "from_unsafe_data (bh_next h) = Some nx"
      "links (\<lambda>q. block_read ops m q st) nx ys None"
    using l unfolding links_append links_Cons_iff by auto
  have nx: "nx = (if ys = [] then None else Some (fst (List.hd ys)))" using links_first [OF h(5)] .
  have q_new: "q \<noteq> p" "q \<notin> fst ` set ws" "q \<notin> fst ` set ys" using p(1) dist by auto
  have fits_q: "header_fits covers q" using fits_bs by simp
  obtain stA where stA: "block_write ops m q (h\<lparr>bh_next := into_unsafe (Some p)\<rparr>) st = Ret stA"
      "block_read ops m q stA = Ret (h\<lparr>bh_next := into_unsafe (Some p)\<rparr>)"
      "\<And>x. x \<noteq> q \<Longrightarrow> header_fits covers x \<Longrightarrow> block_read ops m x stA = block_read ops m x st"
    using header_written [OF fits_q] by blast
  have lA: "links (\<lambda>q. block_read ops m q stA) nx ys None"
  proof (rule links_unchanged [OF h(5)])
    fix b assume "b \<in> set ys"
    then show "block_read ops m (fst b) stA = block_read ops m (fst b) st"
      using q_new fits_bs by (intro stA(3)) auto
  qed
  let ?h = "\<lparr>bh_size = n, bh_next = into_unsafe nx, bh_prev = into_unsafe (Some q)\<rparr>"
  obtain region' stB where B: "link_block ops m p n (Between q nx) region st = Ret (?h, region', stB)"
      "rg_first region' = rg_first region"
      "rg_last region' = Some (fst (last ((p, n) # ys)))"
      "links (\<lambda>q. block_read ops m q stB) nx ys None"
      "\<And>x. x \<notin> fst ` set ys \<Longrightarrow> header_fits covers x \<Longrightarrow> block_read ops m x stB = block_read ops m x stA"
  proof (cases ys)
    case Nil
    then have "link_block ops m p n (Between q nx) region st =
        Ret (?h, region\<lparr>rg_last := Some p\<rparr>, stA)"
      using nx by (simp add: link_block_def Let_def h(2) stA(1))
    then show ?thesis using that lA Nil by simp
  next
    case (Cons d zs)
    obtain r j where d: "d = (r, j)" by (cases d)
    obtain nn where nn: "nx = Some r" "block_read ops m r stA = Ret nn"
      using lA unfolding Cons d links_Cons_iff by blast
    have fits_r: "header_fits covers r" using fits_bs by (simp add: Cons d)
    obtain stB where stB: "block_write ops m r (nn\<lparr>bh_prev := into_unsafe (Some p)\<rparr>) stA = Ret stB"
        "block_read ops m r stB = Ret (nn\<lparr>bh_prev := into_unsafe (Some p)\<rparr>)"
        "\<And>x. x \<noteq> r \<Longrightarrow> header_fits covers x \<Longrightarrow> block_read ops m x stB = block_read ops m x stA"
      using header_written [OF fits_r] by blast
    have "links (\<lambda>q. block_read ops m q stB) nx ys None"
      using fits_bs by (intro links_set_prev [OF lA nn(2) stB(2)] stB(3)) auto
    moreover have "link_block ops m p n (Between q nx) region st = Ret (?h, region, stB)"
      by (simp add: link_block_def Let_def h(2) stA(1) nn stB(1))
    ultimately show ?thesis using that l stB(3) by (simp add: Cons d)
  qed
  obtain st2 where st2: "block_write ops m p ?h stB = Ret st2" "block_read ops m p st2 = Ret ?h"
      "\<And>x. x \<noteq> p \<Longrightarrow> header_fits covers x \<Longrightarrow> block_read ops m x st2 = block_read ops m x stB"
    using header_written [OF fits] by blast
  have same: "block_read ops m x st2 = block_read ops m x st"
    if "x \<noteq> p" "x \<noteq> q" "x \<notin> fst ` set ys" "header_fits covers x" for x
    using that st2(3) B(5) stA(3) by simp
  have "links (\<lambda>q. block_read ops m q st2) (rg_first region) ws (Some q)"
  proof (rule links_unchanged [OF h(1)])
    fix b assume "b \<in> set ws"
    then show "block_read ops m (fst b) st2 = block_read ops m (fst b) st"
      using p(1) q_new fits_bs dist by (intro same) auto
  qed
  moreover have "links (\<lambda>q. block_read ops m q st2) nx ys None"
  proof (rule links_unchanged [OF B(4)])
    fix b assume "b \<in> set ys"
    then show "block_read ops m (fst b) st2 = block_read ops m (fst b) stB"
      using p(1) fits_bs by (intro st2(3)) auto
  qed
  moreover have "from_unsafe_data (into_unsafe nx) = Some nx"
    using nx fits_bs by (cases ys) (auto simp: block_ok_def)
  moreover have "block_read ops m q st2 = Ret (h\<lparr>bh_next := into_unsafe (Some p)\<rparr>)"
    using st2(3) B(5) stA(2) q_new fits_q by simp
  ultimately have "links (\<lambda>q. block_read ops m q st2) (rg_first region) (ws @ (q, k) # (p, n) # ys) None"
    unfolding links_append links_Cons_iff using st2(2) h(3) p(2) by auto
  then have "free_list (\<lambda>q. block_read ops m q st2) region' (ws @ (q, k) # (p, n) # ys)"
    using B(2,3) by (simp add: free_list_def)
  then show ?thesis
    using B(1) st2 same unfolding nx [symmetric]
    by (intro exI [of _ ?h] exI [of _ region'] exI [of _ stB] exI [of _ st2]) auto
qed

end

lemma split_around:
  assumes "coalesced bs" "block_ok b" "\<forall>c \<in> set bs. apart b c"
  shows "\<exists>xs ys. bs = xs @ ys \<and> (\<forall>c \<in> set xs. fst c < fst b) \<and> (\<forall>c \<in> set ys. fst b < fst c)"
proof -
  let ?low = "\<lambda>c. fst c < fst b"
  have ne: "fst c \<noteq> fst b" if "c \<in> set bs" for c
    using assms that by (fastforce simp: coalesced_def list_all_iff apart_def block_ok_def)
  have "\<forall>c \<in> set (dropWhile ?low bs). fst b < fst c"
  proof (cases "dropWhile ?low bs")
    case (Cons d ds)
    have "d \<in> set bs" using Cons by (metis list.set_intros(1) set_dropWhileD)
    then have d: "fst b < fst d" using hd_dropWhile [of ?low bs] Cons ne by fastforce
    have "coalesced (takeWhile ?low bs @ d # ds)" using assms(1) Cons by (metis takeWhile_dropWhile_id)
    then have "\<forall>c \<in> set ds. unat (fst d) < unat (fst c)"
      by (auto simp: coalesced_def sorted_wrt_append)
    then show ?thesis using d Cons by (auto simp: word_less_nat_alt)
  next
    case Nil
    show ?thesis unfolding Nil by simp
  qed
  then show ?thesis
    by (intro exI [of _ "takeWhile ?low bs"] exI [of _ "dropWhile ?low bs"]) (auto dest: set_takeWhileD)
qed

lemma coalesced_distinct: "coalesced bs \<Longrightarrow> distinct (map fst bs)"
  by (induction bs) (auto simp: coalesced_Cons block_ok_def)

lemma sorted_blocks_insert:
  assumes "coalesced (xs @ ys)" "block_ok b" "\<forall>c \<in> set (xs @ ys). apart b c"
    "\<forall>c \<in> set xs. fst c < fst b" "\<forall>c \<in> set ys. fst b < fst c"
  shows "sorted_blocks (xs @ b # ys)"
proof -
  have "block_end c \<le> unat (fst b)" if "c \<in> set xs" for c
  proof -
    have "apart b c" "fst c < fst b" "0 < unat (snd b)" using assms that by (simp_all add: block_ok_def)
    then show ?thesis by (auto simp: apart_def word_less_nat_alt)
  qed
  moreover have "block_end b \<le> unat (fst c)" if "c \<in> set ys" for c
  proof -
    have "apart b c" "fst b < fst c" "block_ok c"
      using assms that by (simp_all add: coalesced_def list_all_iff)
    then show ?thesis by (auto simp: apart_def word_less_nat_alt block_ok_def)
  qed
  moreover have "sorted_blocks (xs @ ys)" using assms(1) by (rule coalesced_sorted)
  ultimately show ?thesis
    using assms(2) by (simp add: sorted_blocks_def sorted_wrt_append list_all_iff)
qed

lemma sorted_blocks_append_right: "sorted_blocks (xs @ ys) \<Longrightarrow> sorted_blocks ys"
  by (simp add: sorted_blocks_def sorted_wrt_append)

lemma sorted_join:
  assumes "sorted_blocks (b # c # cs)"
  shows "sorted_blocks (b # join_block c cs)"
proof (cases cs)
  case (Cons d ds)
  have "block_end c = unat (fst d) \<Longrightarrow>
      block_ok (fst c, snd c + snd d) \<and> block_end (fst c, snd c + snd d) = block_end d"
    using join_end [of c d] assms unfolding Cons sorted_blocks_Cons by simp
  then show ?thesis
    using assms unfolding Cons join_block_def sorted_blocks_Cons
    by (auto simp: sorted_blocks_Cons)
qed (use assms in \<open>simp add: join_block_def\<close>)

lemma fst_join_block: "fst ` set (join_block b cs) \<subseteq> insert (fst b) (fst ` set cs)"
  by (auto simp: join_block_def split: list.splits)

context byte_memory begin

lemma coalesce_alone:
  assumes fits: "\<forall>b \<in> set ((p, n) # ys). header_fits covers (fst b)"
    and fl: "free_list (\<lambda>q. block_read ops m q st) region ((p, n) # ys)"
    and ok: "sorted_blocks ((p, n) # ys)"
    and cur: "block_read ops m p st = Ret cur" "bh_prev cur = into_unsafe None"
  shows "\<exists>region' st'. coalesce ops m p region st = Ret (region', st') \<and>
    free_list (\<lambda>q. block_read ops m q st') region' (join_block (p, n) ys) \<and>
    (\<forall>q. q \<notin> fst ` set ((p, n) # ys) \<and> header_fits covers q \<longrightarrow>
       block_read ops m q st' = block_read ops m q st)"
proof -
  have l: "links (\<lambda>q. block_read ops m q st) (Some p) ((p, n) # ys) None" "rg_first region = Some p"
      "rg_last region = Some (fst (last ((p, n) # ys)))"
    using fl unfolding free_list_def links_Cons_iff by auto
  obtain cur' region' st' where s: "merge_block ops m p region st = Ret (cur', region', st')"
    "bh_prev cur' = bh_prev cur" "rg_first region' = rg_first region"
    "rg_last region' = Some (fst (last (join_block (p, n) ys)))"
    "links (\<lambda>q. block_read ops m q st') (Some p) (join_block (p, n) ys) None"
    "\<forall>q. q \<notin> fst ` set ((p, n) # ys) \<and> header_fits covers q \<longrightarrow>
       block_read ops m q st' = block_read ops m q st"
    using merge_block_links [OF fits l(1) ok cur(1) l(3)] by blast
  have "coalesce ops m p region st = Ret (region', st')"
    using s(1,2) cur(2) by (simp add: coalesce_def assert_safe_def)
  moreover have "join_block (p, n) ys \<noteq> []" by (simp add: join_block_def split: list.splits)
  ultimately show ?thesis using s(3-6) l(2) by (simp add: free_list_def)
qed

lemma coalesce_after:
  assumes fits: "\<forall>b \<in> set (ws @ (q, k) # (p, n) # ys). header_fits covers (fst b)"
    and fl: "free_list (\<lambda>q. block_read ops m q st) region (ws @ (q, k) # (p, n) # ys)"
    and ok: "sorted_blocks (ws @ (q, k) # (p, n) # ys)"
    and dist: "distinct (map fst (ws @ (q, k) # (p, n) # ys))"
    and cur: "block_read ops m p st = Ret cur" "bh_prev cur = into_unsafe (Some q)" "valid_block q"
  shows "\<exists>region' st'. coalesce ops m p region st = Ret (region', st') \<and>
    free_list (\<lambda>q. block_read ops m q st') region' (ws @ join_block (q, k) (join_block (p, n) ys)) \<and>
    (\<forall>x. x \<notin> fst ` set (ws @ (q, k) # (p, n) # ys) \<and> header_fits covers x \<longrightarrow>
       block_read ops m x st' = block_read ops m x st)"
proof -
  obtain z where z: "links (\<lambda>q. block_read ops m q st) (rg_first region) ws z"
      "links (\<lambda>q. block_read ops m q st) z ((q, k) # (p, n) # ys) None"
    using fl unfolding free_list_def links_append by blast
  obtain h nx where h: "z = Some q" "block_read ops m q st = Ret h" "bh_size h = k"
      "from_unsafe_data (bh_next h) = Some nx" "links (\<lambda>q. block_read ops m q st) nx ((p, n) # ys) None"
    using z(2) unfolding links_Cons_iff [of _ _ q] by blast
  have "nx = Some p" using links_first [OF h(5)] by simp
  then have l: "links (\<lambda>q. block_read ops m q st) (rg_first region) ws (Some q)"
      "block_read ops m q st = Ret h" "bh_size h = k" "from_unsafe_data (bh_next h) = Some (Some p)"
      "links (\<lambda>q. block_read ops m q st) (Some p) ((p, n) # ys) None"
      "rg_last region = Some (fst (last ((p, n) # ys)))"
    using fl z(1) h by (simp_all add: free_list_def del: links.simps)
  have ok1: "sorted_blocks ((q, k) # (p, n) # ys)" using ok by (rule sorted_blocks_append_right)
  then have ok2: "sorted_blocks ((p, n) # ys)" by (simp add: sorted_blocks_Cons)
  have fits1: "\<forall>b \<in> set ((p, n) # ys). header_fits covers (fst b)" using fits by simp
  obtain cur' region1 st1 where s: "merge_block ops m p region st = Ret (cur', region1, st1)"
    "bh_prev cur' = bh_prev cur" "rg_first region1 = rg_first region"
    "rg_last region1 = Some (fst (last (join_block (p, n) ys)))"
    "links (\<lambda>q. block_read ops m q st1) (Some p) (join_block (p, n) ys) None"
    "\<And>x. x \<notin> fst ` set ((p, n) # ys) \<Longrightarrow> header_fits covers x \<Longrightarrow>
       block_read ops m x st1 = block_read ops m x st"
    using merge_block_links [OF fits1 l(5) ok2 cur(1) l(6)] by blast
  have q_same: "block_read ops m q st1 = Ret h"
    using s(6) [of q] l(2) fits dist by simp
  have l1: "links (\<lambda>q. block_read ops m q st1) (Some q) ((q, k) # join_block (p, n) ys) None"
    unfolding links_Cons_iff using q_same l(3,4) s(5) by simp
  have fits2: "\<forall>b \<in> set ((q, k) # join_block (p, n) ys). header_fits covers (fst b)"
  proof
    fix b assume "b \<in> set ((q, k) # join_block (p, n) ys)"
    then have "fst b \<in> fst ` set ((q, k) # (p, n) # ys)" using fst_join_block [of "(p, n)" ys] by auto
    then obtain c where "c \<in> set ((q, k) # (p, n) # ys)" "fst b = fst c" by (elim imageE)
    then show "header_fits covers (fst b)" using fits by auto
  qed
  have ne: "join_block b cs \<noteq> []" for b cs by (simp add: join_block_def split: list.splits)
  have last1: "rg_last region1 = Some (fst (last ((q, k) # join_block (p, n) ys)))" using s(4) ne by simp
  obtain cur2 region2 st2 where t: "merge_block ops m q region1 st1 = Ret (cur2, region2, st2)"
    "rg_first region2 = rg_first region1"
    "rg_last region2 = Some (fst (last (join_block (q, k) (join_block (p, n) ys))))"
    "links (\<lambda>q. block_read ops m q st2) (Some q) (join_block (q, k) (join_block (p, n) ys)) None"
    "\<And>x. x \<notin> fst ` set ((q, k) # join_block (p, n) ys) \<Longrightarrow> header_fits covers x \<Longrightarrow>
       block_read ops m x st2 = block_read ops m x st1"
    using merge_block_links [OF fits2 l1 sorted_join [OF ok1] q_same last1] by blast
  have same: "block_read ops m x st2 = block_read ops m x st"
    if "x \<notin> fst ` set ((q, k) # (p, n) # ys)" "header_fits covers x" for x
  proof -
    have "x \<notin> fst ` set ((q, k) # join_block (p, n) ys)"
      using that(1) fst_join_block [of "(p, n)" ys] by auto
    then show ?thesis using t(5) s(6) that by simp
  qed
  have "links (\<lambda>q. block_read ops m q st2) (rg_first region) ws (Some q)"
  proof (rule links_unchanged [OF l(1)])
    fix b assume "b \<in> set ws"
    then show "block_read ops m (fst b) st2 = block_read ops m (fst b) st"
      using dist fits by (intro same) auto
  qed
  then have "free_list (\<lambda>q. block_read ops m q st2) region2 (ws @ join_block (q, k) (join_block (p, n) ys))"
    using t(2-4) s(3) ne unfolding free_list_def links_append by auto
  moreover have "coalesce ops m p region st = Ret (region2, st2)"
    using s(1,2) cur(2,3) t(1) by (simp add: coalesce_def assert_safe_def)
  ultimately show ?thesis using same by (intro exI [of _ region2] exI [of _ st2]) auto
qed

text \<open>\<open>free\<close> implements \<open>free_insert\<close>.\<close>

lemma free_refines:
  assumes fl: "free_list (\<lambda>q. block_read ops m q st) (select_region k r) bs" and c: "coalesced bs"
    and b: "block_ok (p, n)" "\<forall>c \<in> set bs. apart (p, n) c"
    and fits: "header_fits covers p" "\<forall>c \<in> set bs. header_fits covers (fst c)"
  shows "\<exists>k' st'. free ops m r (push_bit 12 p) n k st = Ret (k', st') \<and>
    free_list (\<lambda>q. block_read ops m q st') (select_region k' r) (free_insert (p, n) bs) \<and>
    (\<forall>r'. r' \<noteq> r \<longrightarrow> select_region k' r' = select_region k r') \<and>
    (\<forall>q. q \<noteq> p \<and> q \<notin> fst ` set bs \<and> header_fits covers q \<longrightarrow>
       block_read ops m q st' = block_read ops m q st)"
proof -
  let ?region = "select_region k r"
  obtain xs ys where bs: "bs = xs @ ys" "\<forall>c \<in> set xs. fst c < p" "\<forall>c \<in> set ys. p < fst c"
    using split_around [OF c b] by auto
  have vp: "valid_block p" using b(1) by (simp add: block_ok_def)
  have fresh: "p \<notin> fst ` set bs" using bs by auto
  have hd_ys: "ys = [] \<or> p < fst (List.hd ys)" using bs(3) by (cases ys) auto
  have ok_bs: "\<forall>b \<in> set bs. header_fits covers (fst b) \<and> block_ok b"
    using fits(2) c by (auto simp: coalesced_def list_all_iff)
  let ?point = "insertion_at (if xs = [] then None else Some (fst (last xs)))
    (if ys = [] then None else Some (fst (List.hd ys)))"
  have point: "find_insertion_point ops m ?region p st = Ret ?point"
    using insertion_loop_links [of st "rg_first ?region" xs ys p] fl bs(1,2) hd_ys
    by (simp add: find_insertion_point_def returns_def free_list_def)
  have sorted: "sorted_blocks (xs @ (p, n) # ys)"
    using sorted_blocks_insert [of xs ys "(p, n)"] c b bs by simp
  have fits': "\<forall>b \<in> set (xs @ (p, n) # ys). header_fits covers (fst b)"
    using fits bs(1) by auto
  have insert: "free_insert (p, n) bs =
      (if xs = [] then join_block (p, n) ys else butlast xs @ join_block (last xs) (join_block (p, n) ys))"
    using free_insert_split [of xs ys "(p, n)"] c b bs hd_ys by simp
  have "\<exists>header region' region'' st1 st2 st3. link_block ops m p n ?point ?region st = Ret (header, region', st1) \<and>
      block_write ops m p header st1 = Ret st2 \<and> coalesce ops m p region' st2 = Ret (region'', st3) \<and>
      free_list (\<lambda>q. block_read ops m q st3) region'' (free_insert (p, n) bs) \<and>
      (\<forall>q. q \<noteq> p \<and> q \<notin> fst ` set bs \<and> header_fits covers q \<longrightarrow>
         block_read ops m q st3 = block_read ops m q st)"
  proof (cases xs rule: rev_cases)
    case Nil
    have "\<exists>header region' st1. link_block ops m p n First ?region st = Ret (header, region', st) \<and>
      block_write ops m p header st = Ret st1 \<and> block_read ops m p st1 = Ret header \<and>
      bh_prev header = into_unsafe None \<and>
      free_list (\<lambda>q. block_read ops m q st1) region' ((p, n) # ys) \<and>
      (\<forall>q. q \<noteq> p \<and> header_fits covers q \<longrightarrow> block_read ops m q st1 = block_read ops m q st)"
      using fresh ok_bs fl bs(1) Nil by (intro link_first [OF fits(1) _ vp]) simp_all
    then obtain header region' st1 where L: "link_block ops m p n First ?region st = Ret (header, region', st)"
      "block_write ops m p header st = Ret st1" "block_read ops m p st1 = Ret header"
      "bh_prev header = into_unsafe None"
      "free_list (\<lambda>q. block_read ops m q st1) region' ((p, n) # ys)"
      "\<forall>q. q \<noteq> p \<and> header_fits covers q \<longrightarrow> block_read ops m q st1 = block_read ops m q st" by blast
    then show ?thesis
      using coalesce_alone [OF _ L(5) _ L(3,4)] fits' sorted insert bs(1) Nil
      by (force simp: insertion_at_def)
  next
    case (snoc ws qk)
    obtain q j where qk: "qk = (q, j)" by (cases qk)
    have bs': "bs = ws @ (q, j) # ys" using bs(1) snoc qk by simp
    have "distinct (map fst bs)" using c by (rule coalesced_distinct)
    then have dist: "distinct (map fst (ws @ (q, j) # ys))" using bs' by simp
    obtain header region' st1 st2 where L:
      "link_block ops m p n (Between q (if ys = [] then None else Some (fst (List.hd ys)))) ?region st =
        Ret (header, region', st1)"
      "block_write ops m p header st1 = Ret st2" "block_read ops m p st2 = Ret header"
      "bh_prev header = into_unsafe (Some q)"
      "free_list (\<lambda>q. block_read ops m q st2) region' (ws @ (q, j) # (p, n) # ys)"
      "\<forall>x. x \<notin> fst ` set (ws @ (q, j) # (p, n) # ys) \<and> header_fits covers x \<longrightarrow>
         block_read ops m x st2 = block_read ops m x st"
      using link_between [OF fits(1) fresh [unfolded bs'] vp ok_bs [unfolded bs'] dist fl [unfolded bs'], of n]
      by blast
    have "valid_block q" using ok_bs bs' by (simp add: block_ok_def)
    moreover have "distinct (map fst (ws @ (q, j) # (p, n) # ys))" using dist fresh bs' by auto
    ultimately show ?thesis
      using coalesce_after [OF _ L(5) _ _ L(3,4)] fits' sorted insert bs' L(1,2,6) snoc qk
      by (force simp: insertion_at_def)
  qed
  then show ?thesis
    using block_from_ptr_page [OF vp] point by (auto simp: free_def)
qed

end

section \<open>Allocating in memory\<close>

lemma block_page_inside:
  assumes "block_ok (p, n)" "pages \<le> n"
  shows "unat (p + pages) = unat p + unat pages" "unat p + unat pages \<le> unat p + unat n"
  using assms by (simp_all add: block_ok_def word_le_nat_alt unat_add_small)

context byte_memory begin

lemma alloc_loop_links:
  assumes "links (\<lambda>q. block_read ops m q st) ptr (xs @ ys) None" "\<forall>c \<in> set xs. snd c < pages"
    and "ys = [] \<or> pages \<le> snd (List.hd ys)"
  shows "alloc_loop ops m pages region st ptr =
    (case ys of [] \<Rightarrow> Some (Ret (None, region, st))
     | c # _ \<Rightarrow> (case block_read ops m (fst c) st of
                  Ret h \<Rightarrow> Some (take_block ops m pages (fst c) h region st) | _ \<Rightarrow> undefined))"
  using assms
proof (induction xs arbitrary: ptr)
  case Nil
  show ?case
  proof (cases ys)
    case Nil
    then show ?thesis using \<open>links _ ptr ([] @ ys) None\<close> by (subst alloc_loop.simps) simp
  next
    case (Cons c cs)
    obtain p n where c: "c = (p, n)" by (cases c)
    obtain h where "ptr = Some p" "block_read ops m p st = Ret h" "bh_size h = n"
      using Nil.prems(1) unfolding Cons c append_Nil links_Cons_iff by blast
    then show ?thesis using Nil.prems(3) by (subst alloc_loop.simps) (simp add: Cons c)
  qed
next
  case (Cons x xs)
  obtain p n where x: "x = (p, n)" by (cases x)
  obtain h nx where h: "ptr = Some p" "block_read ops m p st = Ret h" "bh_size h = n"
      "from_unsafe_data (bh_next h) = Some nx" "links (\<lambda>q. block_read ops m q st) nx (xs @ ys) None"
    using Cons.prems(1) unfolding x append_Cons links_Cons_iff by blast
  have "\<not> pages \<le> n" using Cons.prems(2) x by auto
  moreover have "assert_safe (bh_next h) = Ret nx" by (rule safe_links [OF h(5,4)])
  ultimately have "alloc_loop ops m pages region st ptr = alloc_loop ops m pages region st nx"
    using h(1,2,3) by (subst alloc_loop.simps) simp
  then show ?case using Cons.IH [OF h(5)] Cons.prems(2,3) by simp
qed

text \<open>Splitting a block writes the remainder's header into the block and touches no other.\<close>

lemma take_block_split:
  assumes ok: "block_ok (p, n)" and le: "pages < n" and h: "bh_size h = n"
    and fits: "header_fits covers (p + pages)"
  shows "\<exists>st'. take_block ops m pages p h region st =
      Ret (Some p,
        region\<lparr>rg_first := (if rg_first region = Some p then Some (p + pages) else rg_first region),
               rg_last := (if rg_last region = Some p then Some (p + pages) else rg_last region)\<rparr>, st') \<and>
    block_read ops m (p + pages) st' = Ret (h\<lparr>bh_size := n - pages\<rparr>) \<and>
    (\<forall>q. q \<noteq> p + pages \<and> header_fits covers q \<longrightarrow> block_read ops m q st' = block_read ops m q st)"
proof -
  have lt: "unat p + unat pages < 2 ^ 20" and vp: "valid_block p"
    using ok le by (simp_all add: block_ok_def word_less_nat_alt)
  have off: "block_offset p pages = Some (p + pages)" using vp lt by (simp add: block_offset_eq)
  have rem: "0 < n - pages" using le by (simp add: word_less_nat_alt unat_sub word_le_nat_alt)
  let ?h = "\<lparr>bh_size = n - pages, bh_next = bh_next h, bh_prev = bh_prev h\<rparr>"
  obtain st' where st': "block_write ops m (p + pages) ?h st = Ret st'" "block_read ops m (p + pages) st' = Ret ?h"
      "\<forall>q. q \<noteq> p + pages \<and> header_fits covers q \<longrightarrow> block_read ops m q st' = block_read ops m q st"
    using header_written [OF fits] by blast
  have "?h = h\<lparr>bh_size := n - pages\<rparr>" by simp
  moreover have "take_block ops m pages p h region st =
      Ret (Some p,
        region\<lparr>rg_first := (if rg_first region = Some p then Some (p + pages) else rg_first region),
               rg_last := (if rg_last region = Some p then Some (p + pages) else rg_last region)\<rparr>, st')"
    using rem off st'(1) by (simp add: take_block_def Let_def h)
  ultimately show ?thesis using st'(2,3) by (metis (no_types, lifting))
qed

lemma take_block_whole:
  assumes "bh_size h = n"
  shows "take_block ops m n p h region st =
      Ret (Some p,
        region\<lparr>rg_first := (if rg_first region = Some p then None else rg_first region),
               rg_last := (if rg_last region = Some p then None else rg_last region)\<rparr>, st)"
  by (simp add: take_block_def assms Let_def)

text \<open>Allocating from the first block moves it past the allocated pages.\<close>

lemma allocate_head:
  assumes fl: "free_list (\<lambda>q. block_read ops m q st) (select_region k r) ((p, n) # bs)"
    and ok: "coalesced ((p, n) # bs)" and le: "0 < pages" "pages < n"
    and fits: "header_fits covers (p + pages)" "\<forall>c \<in> set bs. header_fits covers (fst c)"
  shows "\<exists>k' st'. allocate_linear ops m r pages k st = Ret (Some p, k', st') \<and>
    free_list (\<lambda>q. block_read ops m q st') (select_region k' r) ((p + pages, n - pages) # bs) \<and>
    (\<forall>r'. r' \<noteq> r \<longrightarrow> select_region k' r' = select_region k r')"
proof -
  let ?region = "select_region k r"
  obtain h nx where h: "rg_first ?region = Some p" "block_read ops m p st = Ret h" "bh_size h = n"
      "from_unsafe_data (bh_next h) = Some nx" "links (\<lambda>q. block_read ops m q st) nx bs None"
    using fl unfolding free_list_def links_Cons_iff by blast
  note okp = ok [unfolded coalesced_Cons]
  have bok: "block_ok (p, n)" using okp by simp
  have loop: "alloc_loop ops m pages ?region st (rg_first ?region) =
      Some (take_block ops m pages p h ?region st)"
    using alloc_loop_links [of st "rg_first ?region" "[]" "(p, n) # bs" pages ?region] fl le(2) h(2)
    by (simp add: free_list_def del: links.simps)
  obtain st' where t: "take_block ops m pages p h ?region st =
      Ret (Some p,
        ?region\<lparr>rg_first := (if rg_first ?region = Some p then Some (p + pages) else rg_first ?region),
               rg_last := (if rg_last ?region = Some p then Some (p + pages) else rg_last ?region)\<rparr>, st')"
      "block_read ops m (p + pages) st' = Ret (h\<lparr>bh_size := n - pages\<rparr>)"
      "\<And>q. q \<noteq> p + pages \<Longrightarrow> header_fits covers q \<Longrightarrow> block_read ops m q st' = block_read ops m q st"
    using take_block_split [OF bok le(2) h(3) fits(1)] by blast
  note inside = block_page_inside [OF bok, of pages]
  have "links (\<lambda>q. block_read ops m q st') nx bs None"
  proof (rule links_unchanged [OF h(5)])
    fix b assume b: "b \<in> set bs"
    then have "unat (p + pages) < unat (fst b)" using okp inside le(2) by fastforce
    then show "block_read ops m (fst b) st' = block_read ops m (fst b) st"
      using b fits(2) by (intro t(3)) auto
  qed
  then have l: "links (\<lambda>q. block_read ops m q st') (Some (p + pages)) ((p + pages, n - pages) # bs) None"
    unfolding links_Cons_iff using t(2) h(4) by simp
  have last: "rg_last ?region = Some (fst (last ((p, n) # bs)))" using fl by (simp add: free_list_def)
  have "bs \<noteq> [] \<Longrightarrow> rg_last ?region \<noteq> Some p"
    using okp last bok by (fastforce dest: last_in_set simp: block_ok_def)
  then show ?thesis
    using loop t(1) l last h(1)
    by (cases "bs = []") (auto simp: allocate_linear_def returns_def free_list_def simp del: links.simps)
qed

end

context byte_memory begin

text \<open>Allocating from a later block leaves that block in the list, at its full size.\<close>

lemma allocate_inner:
  assumes l: "links (\<lambda>q. block_read ops m q st) (rg_first (select_region k r)) (xs @ (p, n) # ys) None"
    and ok: "coalesced (xs @ (p, n) # ys)" and small: "xs \<noteq> []" "\<forall>c \<in> set xs. snd c < pages"
    and le: "0 < pages" "pages \<le> n"
    and fits: "pages < n \<Longrightarrow> header_fits covers (p + pages)"
      "\<forall>c \<in> set (xs @ (p, n) # ys). header_fits covers (fst c)"
  shows "\<exists>k' st'. allocate_linear ops m r pages k st = Ret (Some p, k', st') \<and>
    links (\<lambda>q. block_read ops m q st') (rg_first (select_region k' r)) (xs @ (p, n) # ys) None"
proof -
  let ?region = "select_region k r"
  obtain x xs' where xs: "xs = x # xs'" using small(1) by (cases xs) auto
  obtain z h where h: "block_read ops m p st = Ret h" "bh_size h = n"
    using l unfolding links_append links_Cons_iff by blast
  have bok: "block_ok (p, n)" using ok by (simp add: coalesced_def)
  have first: "rg_first ?region = Some (fst x)" using links_first [OF l] by (simp add: xs)
  have "block_end x < unat p" "block_ok x" using ok by (simp_all add: xs coalesced_def)
  then have not_first: "rg_first ?region \<noteq> Some p" using first by (auto simp: block_ok_def)
  have loop: "alloc_loop ops m pages ?region st (rg_first ?region) =
      Some (take_block ops m pages p h ?region st)"
    using alloc_loop_links [OF l small(2), of ?region] le(2) h(1) by simp
  show ?thesis
  proof (cases "pages = n")
    case True
    then have "take_block ops m pages p h ?region st =
      Ret (Some p, ?region\<lparr>rg_last := (if rg_last ?region = Some p then None else rg_last ?region)\<rparr>, st)"
      using take_block_whole [OF h(2)] not_first by (simp add: h(2))
    then show ?thesis using loop l by (simp add: allocate_linear_def returns_def)
  next
    case False
    then have lt: "pages < n" using le(2) by simp
    obtain st' where t: "take_block ops m pages p h ?region st =
      Ret (Some p,
        ?region\<lparr>rg_first := (if rg_first ?region = Some p then Some (p + pages) else rg_first ?region),
               rg_last := (if rg_last ?region = Some p then Some (p + pages) else rg_last ?region)\<rparr>, st')"
      "\<And>q. q \<noteq> p + pages \<Longrightarrow> header_fits covers q \<Longrightarrow> block_read ops m q st' = block_read ops m q st"
      using take_block_split [OF bok lt h(2) fits(1) [OF lt]] by blast
    note inside = block_page_inside [OF bok le(2)]
    have "links (\<lambda>q. block_read ops m q st') (rg_first ?region) (xs @ (p, n) # ys) None"
    proof (rule links_unchanged [OF l])
      fix b assume b: "b \<in> set (xs @ (p, n) # ys)"
      have pos: "0 < unat pages" "unat pages < unat n" using le(1) lt by (simp_all add: word_less_nat_alt)
      have "block_end b < unat p \<or> fst b = p \<or> block_end (p, n) < unat (fst b)"
        using b ok by (auto simp: coalesced_def sorted_wrt_append)
      then have "unat (fst b) \<noteq> unat (p + pages)" using inside pos by auto
      then show "block_read ops m (fst b) st' = block_read ops m (fst b) st"
        using b fits(2) by (intro t(2)) auto
    qed
    then show ?thesis using loop t(1) not_first by (simp add: allocate_linear_def returns_def)
  qed
qed

lemma allocate_none:
  assumes "links (\<lambda>q. block_read ops m q st) (rg_first (select_region k r)) bs None"
    and "\<forall>c \<in> set bs. snd c < pages"
  shows "allocate_linear ops m r pages k st = Ret (None, set_region r (select_region k r) k, st)"
  using alloc_loop_links [of st "rg_first (select_region k r)" bs "[]" pages "select_region k r"] assms
  by (simp add: allocate_linear_def returns_def)

lemma init_region_list:
  assumes "valid_block p" "header_fits covers p"
  shows "\<exists>k' st'. init_region ops m r (push_bit 12 p) n k st = Ret (k', st') \<and>
    free_list (\<lambda>q. block_read ops m q st') (select_region k' r) [(p, n)] \<and>
    (\<forall>r'. r' \<noteq> r \<longrightarrow> select_region k' r' = select_region k r')"
  using header_written [OF assms(2), of "\<lparr>bh_size = n, bh_next = into_unsafe None, bh_prev = into_unsafe None\<rparr>" st]
  using block_from_ptr_page [OF assms(1)]
  by (auto simp: init_region_def Let_def free_list_def)

end

lemma set_select_region [simp]: "set_region r (select_region k r) k = k"
  by (cases r) simp_all

section \<open>Properties\<close>

abbreviation phys_headers :: "physical_memory \<Rightarrow> byte_store \<Rightarrow> block_ptr \<Rightarrow> block_header res" where
  "phys_headers pm st \<equiv> (\<lambda>q. block_read phys_ops pm q st)"

lemma phys_header_fits:
  "unat p < 2 ^ 20 \<Longrightarrow> unat p < pm_pages pm \<Longrightarrow> header_fits (slice_covers (phys_slice pm)) p"
  by (simp add: header_fits_def slice_covers_def phys_slice_def)

definition blocks_in :: "physical_memory \<Rightarrow> block list \<Rightarrow> bool" where
  "blocks_in pm bs \<longleftrightarrow> (\<forall>c \<in> set bs. block_end c \<le> pm_pages pm)"

lemma blocks_in_fits:
  assumes "blocks_in pm bs" "list_all block_ok bs"
  shows "\<forall>c \<in> set bs. header_fits (slice_covers (phys_slice pm)) (fst c)"
  using assms by (fastforce simp: blocks_in_def list_all_iff block_ok_def valid_block_def intro: phys_header_fits)

lemma allocate_first:
  assumes "free_list (phys_headers pm st) (select_region k r) ((p, n) # bs)" "coalesced ((p, n) # bs)"
    and "0 < pages" "pages < n" "blocks_in pm ((p, n) # bs)"
  shows "\<exists>k' st'. allocate_linear phys_ops pm r pages k st = Ret (Some p, k', st') \<and>
    free_list (phys_headers pm st') (select_region k' r) ((p + pages, n - pages) # bs) \<and>
    coalesced ((p + pages, n - pages) # bs) \<and>
    pages_of ((p + pages, n - pages) # bs) = pages_of ((p, n) # bs) - block_pages (p, pages)"
proof -
  have bok: "block_ok (p, n)" and rest: "\<forall>c \<in> set bs. block_end (p, n) < unat (fst c)" "coalesced bs"
    using assms(2) by (simp_all add: coalesced_Cons)
  note inside = block_page_inside [OF bok, of pages]
  have sizes: "unat pages < unat n" "0 < unat pages" "unat (n - pages) = unat n - unat pages"
    using assms(3,4) by (simp_all add: word_less_nat_alt unat_sub word_le_nat_alt)
  have page: "unat (p + pages) = unat p + unat pages" using inside assms(4) by simp
  have fits: "header_fits (slice_covers (phys_slice pm)) (p + pages)"
    using page sizes bok assms(5) by (intro phys_header_fits) (simp_all add: block_ok_def blocks_in_def)
  have "\<forall>c \<in> set bs. header_fits (slice_covers (phys_slice pm)) (fst c)"
    using assms(2,5) by (intro blocks_in_fits) (simp_all add: coalesced_def blocks_in_def)
  then have alloc: "\<exists>k' st'. allocate_linear phys_ops pm r pages k st = Ret (Some p, k', st') \<and>
    free_list (phys_headers pm st') (select_region k' r) ((p + pages, n - pages) # bs)"
    using phys_memory.allocate_head [OF assms(1-4) fits] by blast
  have "coalesced ((p + pages, n - pages) # bs)"
    using bok rest page sizes by (auto simp: coalesced_Cons block_ok_def valid_block_def)
  moreover have "pages_of bs \<inter> {unat p..<unat p + unat n} = {}"
    using rest(1) by (fastforce simp: pages_of_def block_pages_def)
  then have "pages_of ((p + pages, n - pages) # bs) = pages_of ((p, n) # bs) - block_pages (p, pages)"
    using page sizes by (auto simp: pages_of_Cons block_pages_def)
  ultimately show ?thesis using alloc by blast
qed

text \<open>C21: \<open>free\<close> of a block that overlaps no free block makes the region's list the old one
  with the block put in order and merged with every neighbour it touches: it stays sorted and
  coalesced, it holds exactly the old free pages and the freed ones, and the other regions are
  untouched.\<close>

theorem kmm_free_correct:
  assumes "free_list (phys_headers pm st) (select_region k r) bs" "coalesced bs"
    and "block_ok (p, n)" "\<forall>c \<in> set bs. apart (p, n) c" "blocks_in pm ((p, n) # bs)"
  shows "\<exists>k' st' bs'. free phys_ops pm r (push_bit 12 p) n k st = Ret (k', st') \<and>
    free_list (phys_headers pm st') (select_region k' r) bs' \<and> coalesced bs' \<and>
    pages_of bs' = block_pages (p, n) \<union> pages_of bs \<and>
    (\<forall>r'. r' \<noteq> r \<longrightarrow> select_region k' r' = select_region k r')"
proof -
  have "list_all block_ok ((p, n) # bs)" using assms(2,3) by (simp add: coalesced_def)
  then have "\<forall>c \<in> set ((p, n) # bs). header_fits (slice_covers (phys_slice pm)) (fst c)"
    using blocks_in_fits [OF assms(5)] by blast
  then show ?thesis
    using phys_memory.free_refines [OF assms(1-4)] free_insert_correct [OF assms(3,2,4)]
    by (metis fst_conv list.set_intros)
qed

text \<open>A four-page memory whose pages 1 and 3 are free.\<close>

definition sample_memory :: physical_memory where
  "sample_memory = \<lparr>pm_pages = 4\<rparr>"

definition sample_store :: byte_store where
  "sample_store = (\<lambda>_. 0)(0x1000 := 1, 0x1005 := 0x30, 0x3000 := 1, 0x3009 := 0x10)"

definition sample_kmm :: kmm where
  "sample_kmm = kmm_new\<lparr>region_app :=
     \<lparr>rg_first = Some 1, rg_last = Some 3, rg_start = 0x1000, rg_size = 3\<rparr>\<rparr>"

lemma sample_headers:
  "block_read phys_ops sample_memory 1 sample_store = Ret \<lparr>bh_size = 1, bh_next = 0x3000, bh_prev = 0\<rparr>"
  "block_read phys_ops sample_memory 3 sample_store = Ret \<lparr>bh_size = 1, bh_next = 0, bh_prev = 0x1000\<rparr>"
  by (simp_all add: block_read_def phys_ops_def slice_read_def phys_slice_def sample_memory_def
      sample_store_def upt_rec)

lemma sample_free_list:
  "free_list (phys_headers sample_memory sample_store) (select_region sample_kmm App) [(1, 1), (3, 1)]"
  "coalesced [(1, 1), (3, 1)]"
  by (simp_all add: free_list_def sample_kmm_def sample_headers from_unsafe_data_def drop_bit_eq_div
      coalesced_def block_ok_def valid_block_def)

lemma sample_init:
  "\<exists>k0 st0. init_region phys_ops sample_memory App (push_bit 12 1) 3 kmm_new sample_store = Ret (k0, st0) \<and>
     free_list (phys_headers sample_memory st0) (select_region k0 App) [(1, 3)]"
proof -
  have "header_fits (slice_covers (phys_slice sample_memory)) 1"
    by (rule phys_header_fits) (simp_all add: sample_memory_def)
  then show ?thesis
    using phys_memory.init_region_list [of 1 sample_memory App 3 kmm_new sample_store]
    by (auto simp: valid_block_def)
qed

theorem kmm_free_correct_witness:
  "\<exists>k' st' bs'. free phys_ops sample_memory App (push_bit 12 2) 1 sample_kmm sample_store = Ret (k', st') \<and>
    free_list (phys_headers sample_memory st') (select_region k' App) bs' \<and> coalesced bs' \<and>
    pages_of bs' = block_pages (2, 1) \<union> pages_of [(1, 1), (3, 1)] \<and>
    (\<forall>r'. r' \<noteq> App \<longrightarrow> select_region k' r' = select_region sample_kmm r')"
  by (rule kmm_free_correct [OF sample_free_list])
    (simp_all add: block_ok_def valid_block_def apart_def blocks_in_def sample_memory_def)

text \<open>Allocating from the first block of the list returns its first page, and the pages
  that stay free are exactly the others.\<close>

theorem kmm_allocate_first:
  assumes "free_list (phys_headers pm st) (select_region k r) ((p, n) # bs)" "coalesced ((p, n) # bs)"
    and "0 < pages" "pages < n" "blocks_in pm ((p, n) # bs)"
  shows "\<exists>k' st'. allocate_linear phys_ops pm r pages k st = Ret (Some p, k', st') \<and>
    free_list (phys_headers pm st') (select_region k' r) ((p + pages, n - pages) # bs) \<and>
    coalesced ((p + pages, n - pages) # bs) \<and>
    pages_of ((p + pages, n - pages) # bs) = pages_of ((p, n) # bs) - block_pages (p, pages)"
  using assms by (rule allocate_first)

theorem kmm_allocate_first_witness:
  "\<exists>k0 st0. init_region phys_ops sample_memory App (push_bit 12 1) 3 kmm_new sample_store = Ret (k0, st0) \<and>
     (\<exists>k' st'. allocate_linear phys_ops sample_memory App 2 k0 st0 = Ret (Some 1, k', st') \<and>
       free_list (phys_headers sample_memory st') (select_region k' App) ((1 + 2, 3 - 2) # []) \<and>
       coalesced ((1 + 2, 3 - 2) # []) \<and>
       pages_of ((1 + 2, 3 - 2) # []) = pages_of ((1, 3) # []) - block_pages (1, 2))"
proof -
  obtain k0 st0 where i: "init_region phys_ops sample_memory App (push_bit 12 1) 3 kmm_new sample_store = Ret (k0, st0)"
      "free_list (phys_headers sample_memory st0) (select_region k0 App) [(1, 3)]"
    using sample_init by blast
  show ?thesis
    using i(1) kmm_allocate_first [OF i(2), of 2]
    by (simp add: coalesced_def block_ok_def valid_block_def blocks_in_def sample_memory_def)
qed

lemma set_set_region [simp]: "set_region r d (set_region r d' k) = set_region r d k"
  by (cases r) simp_all

text \<open>C23: a block allocated from anywhere but the head of the list is not taken out of it:
  the next allocation of the same size returns the same block again.\<close>

theorem kmm_reissues_block:
  assumes "free_list (phys_headers pm st) (select_region k r) (xs @ (p, n) # ys)"
    and "coalesced (xs @ (p, n) # ys)" "blocks_in pm (xs @ (p, n) # ys)"
    and "xs \<noteq> []" "\<forall>c \<in> set xs. snd c < pages" "0 < pages" "pages \<le> n"
  shows "\<exists>k' st' k'' st''. allocate_linear phys_ops pm r pages k st = Ret (Some p, k', st') \<and>
    allocate_linear phys_ops pm r pages k' st' = Ret (Some p, k'', st'')"
proof -
  let ?bs = "xs @ (p, n) # ys"
  have ok: "list_all block_ok ?bs" and bok: "block_ok (p, n)" using assms(2) by (simp_all add: coalesced_def)
  have fits: "\<forall>c \<in> set ?bs. header_fits (slice_covers (phys_slice pm)) (fst c)"
    by (rule blocks_in_fits [OF assms(3) ok])
  have inner: "pages < n \<Longrightarrow> header_fits (slice_covers (phys_slice pm)) (p + pages)"
    using block_page_inside [OF bok assms(7)] bok assms(3)
    by (intro phys_header_fits) (simp_all add: block_ok_def blocks_in_def word_less_nat_alt)
  have l: "links (phys_headers pm st) (rg_first (select_region k r)) ?bs None"
    using assms(1) by (simp add: free_list_def)
  obtain k' st' where 1: "allocate_linear phys_ops pm r pages k st = Ret (Some p, k', st')"
      "links (phys_headers pm st') (rg_first (select_region k' r)) ?bs None"
    using phys_memory.allocate_inner [OF l assms(2,4-7) inner fits] by blast
  show ?thesis
    using 1(1) phys_memory.allocate_inner [OF 1(2) assms(2,4-7) inner fits] by blast
qed

definition sample_two_kmm :: kmm where
  "sample_two_kmm = sample_kmm\<lparr>region_app := (region_app sample_kmm)\<lparr>rg_first := Some 1, rg_last := Some 3\<rparr>\<rparr>"

definition sample_two_store :: byte_store where
  "sample_two_store = (\<lambda>_. 0)(0x1000 := 1, 0x1005 := 0x30, 0x3000 := 2, 0x3009 := 0x10)"

theorem kmm_reissues_block_witness:
  "\<exists>k' st' k'' st''.
    allocate_linear phys_ops \<lparr>pm_pages = 5\<rparr> App 2 sample_two_kmm sample_two_store = Ret (Some 3, k', st') \<and>
    allocate_linear phys_ops \<lparr>pm_pages = 5\<rparr> App 2 k' st' = Ret (Some 3, k'', st'')"
proof (rule kmm_reissues_block [where xs = "[(1, 1)]" and n = 2 and ys = "[]"])
  have "block_read phys_ops \<lparr>pm_pages = 5\<rparr> 1 sample_two_store =
      Ret \<lparr>bh_size = 1, bh_next = 0x3000, bh_prev = 0\<rparr>"
    "block_read phys_ops \<lparr>pm_pages = 5\<rparr> 3 sample_two_store =
      Ret \<lparr>bh_size = 2, bh_next = 0, bh_prev = 0x1000\<rparr>"
    by (simp_all add: block_read_def phys_ops_def slice_read_def phys_slice_def sample_two_store_def upt_rec)
  then show "free_list (phys_headers \<lparr>pm_pages = 5\<rparr> sample_two_store) (select_region sample_two_kmm App)
      ([(1, 1)] @ (3, 2) # [])"
    by (simp add: free_list_def sample_two_kmm_def sample_kmm_def from_unsafe_data_def drop_bit_eq_div)
qed (simp_all add: coalesced_def block_ok_def valid_block_def blocks_in_def)

text \<open>Taking the whole of the first block empties the list of the region.\<close>

lemma allocate_whole:
  assumes "free_list (phys_headers pm st) (select_region k r) ((p, n) # bs)"
  shows "allocate_linear phys_ops pm r n k st =
    Ret (Some p, set_region r ((select_region k r)\<lparr>rg_first := None,
      rg_last := (if rg_last (select_region k r) = Some p then None else rg_last (select_region k r))\<rparr>) k, st)"
proof -
  let ?region = "select_region k r"
  obtain h where h: "rg_first ?region = Some p" "block_read phys_ops pm p st = Ret h" "bh_size h = n"
    using assms unfolding free_list_def links_Cons_iff by blast
  have l: "links (phys_headers pm st) (rg_first ?region) ([] @ (p, n) # bs) None"
    using assms by (simp add: free_list_def del: links.simps)
  have "alloc_loop phys_ops pm n ?region st (rg_first ?region) = Some (take_block phys_ops pm n p h ?region st)"
    using phys_memory.alloc_loop_links [OF l, of n ?region] h(2) by simp
  then show ?thesis
    using phys_memory.take_block_whole [OF h(3), of pm p ?region st] h(1)
    by (simp add: allocate_linear_def returns_def)
qed

text \<open>A block freed into a region that has no first block is its only one; \<open>last\<close> is set if there was
  none.\<close>

lemma free_into_empty:
  assumes "rg_first (select_region k r) = None" "valid_block p" "unat p < pm_pages pm"
  shows "\<exists>k' st'. free phys_ops pm r (push_bit 12 p) n k st = Ret (k', st') \<and>
    links (phys_headers pm st') (rg_first (select_region k' r)) [(p, n)] None \<and>
    rg_last (select_region k' r) =
      (if rg_last (select_region k r) = None then Some p else rg_last (select_region k r))"
proof -
  let ?h = "\<lparr>bh_size = n, bh_next = into_unsafe None, bh_prev = into_unsafe None\<rparr>"
  let ?region = "(select_region k r)\<lparr>rg_first := Some p, rg_last :=
    (if rg_last (select_region k r) = None then Some p else rg_last (select_region k r))\<rparr>"
  have "header_fits (slice_covers (phys_slice pm)) p"
    using assms(2,3) by (intro phys_header_fits) (simp_all add: valid_block_def)
  then obtain st' where w: "block_write phys_ops pm p ?h st = Ret st'" "block_read phys_ops pm p st' = Ret ?h"
    using phys_memory.header_written by blast
  have point: "find_insertion_point phys_ops pm (select_region k r) p st = Ret First"
    by (simp add: find_insertion_point_def returns_def assms(1) insertion_loop.simps insertion_at_def)
  have link: "link_block phys_ops pm p n First (select_region k r) st = Ret (?h, ?region, st)"
    using assms(1) by (cases "select_region k r") (simp add: link_block_def Let_def)
  have "merge_right phys_ops pm p ?h ?region st' = Ret (False, ?h, ?region, st')"
    by (simp add: merge_right_def assert_safe_def split: option.split)
  then have "coalesce phys_ops pm p ?region st' = Ret (?region, st')"
    using w(2) by (simp add: coalesce_def merge_block_def assert_safe_def)
  then have "free phys_ops pm r (push_bit 12 p) n k st = Ret (set_region r ?region k, st')"
    using block_from_ptr_page [OF assms(2)] point link w(1) by (simp add: free_def)
  then show ?thesis using w(2) by (intro exI conjI) (assumption, simp_all)
qed

text \<open>an allocation that takes the whole of the first block empties the region: the
  blocks behind it are lost and every later allocation fails, however much was free.\<close>

theorem kmm_exact_fit_loses_rest:
  assumes "free_list (phys_headers pm st) (select_region k r) ((p, n) # bs)"
  shows "\<exists>k'. allocate_linear phys_ops pm r n k st = Ret (Some p, k', st) \<and>
    (\<forall>pages. allocate_linear phys_ops pm r pages k' st = Ret (None, k', st))"
proof -
  let ?region = "select_region k r"
  let ?region' = "?region\<lparr>rg_first := None, rg_last := (if rg_last ?region = Some p then None else rg_last ?region)\<rparr>"
  have "allocate_linear phys_ops pm r pages (set_region r ?region' k) st =
      Ret (None, set_region r ?region' k, st)" for pages
    using phys_memory.allocate_none [of pm st "set_region r ?region' k" r "[]" pages]
    by simp
  then show ?thesis using allocate_whole [OF assms] by blast
qed

theorem kmm_exact_fit_loses_rest_witness:
  "\<exists>k'. allocate_linear phys_ops sample_memory App 1 sample_kmm sample_store =
      Ret (Some 1, k', sample_store) \<and>
    (\<forall>pages. allocate_linear phys_ops sample_memory App pages k' sample_store = Ret (None, k', sample_store))"
  by (rule kmm_exact_fit_loses_rest [OF sample_free_list(1)])

text \<open>allocation hands out a page number while \<open>free\<close> takes an address: giving the
  allocated value back panics, but for every 4096th page.\<close>

theorem kmm_free_rejects_allocated:
  assumes "free_list (phys_headers pm st) (select_region k r) ((p, n) # bs)" "coalesced ((p, n) # bs)"
    and "0 < pages" "pages < n" "blocks_in pm ((p, n) # bs)" "unat p mod 4096 \<noteq> 0"
  shows "\<exists>k' st'. allocate_linear phys_ops pm r pages k st = Ret (Some p, k', st') \<and>
    free phys_ops pm r p pages k' st' = Panic (Expect ''Invalid pointer given to free'')"
proof -
  have "take_bit 12 p \<noteq> 0"
  proof
    assume "take_bit 12 p = 0"
    then have "unat (and p 0xFFF) = 0" by (simp only: page_mask unsigned_0)
    then show False using assms(6) by (simp only: unat_page_offset)
  qed
  then have "from_unsafe_data p = None" by (simp add: from_unsafe_data_eq)
  then have "block_from_ptr p = None" using block_from_ptr_iff [of p] by (cases "block_from_ptr p") auto
  then have "free phys_ops pm r p pages k' st' = Panic (Expect ''Invalid pointer given to free'')" for k' st'
    by (simp add: free_def)
  then show ?thesis using allocate_first [OF assms(1-5)] by blast
qed

theorem kmm_free_rejects_allocated_witness:
  "\<exists>k0 st0. init_region phys_ops sample_memory App (push_bit 12 1) 3 kmm_new sample_store = Ret (k0, st0) \<and>
     (\<exists>k' st'. allocate_linear phys_ops sample_memory App 2 k0 st0 = Ret (Some 1, k', st') \<and>
       free phys_ops sample_memory App 1 2 k' st' = Panic (Expect ''Invalid pointer given to free''))"
proof -
  obtain k0 st0 where i: "init_region phys_ops sample_memory App (push_bit 12 1) 3 kmm_new sample_store = Ret (k0, st0)"
      "free_list (phys_headers sample_memory st0) (select_region k0 App) [(1, 3)]"
    using sample_init by blast
  show ?thesis
    using i(1) kmm_free_rejects_allocated [OF i(2), of 2]
    by (simp add: coalesced_def block_ok_def valid_block_def blocks_in_def sample_memory_def)
qed

text \<open>In the address space that \<open>main\<close> builds, initialising a region succeeds and every
  allocation from it panics, because the header is read at its absolute address.\<close>

theorem kmm_on_fcram_panics:
  assumes "0x20000 \<le> unat p" "unat p < 0x28000"
  shows "\<exists>k' st'. init_region (vm_ops slice_ops) fcram_vm r (push_bit 12 p) n k st = Ret (k', st') \<and>
    (\<forall>pages. allocate_linear (vm_ops slice_ops) fcram_vm r pages k' st' = Panic OutOfRange)"
proof -
  let ?header = "\<lparr>bh_size = n, bh_next = into_unsafe None, bh_prev = into_unsafe None\<rparr>"
  let ?data = "le32 (bh_size ?header) @ le32 (bh_next ?header) @ le32 (bh_prev ?header)"
  have vp: "valid_block p" using assms by (simp add: valid_block_def)
  have addr: "unat (push_bit 12 p) = unat p * 4096"
    using assms by (intro unat_pages_bytes) simp
  have range: "0x20000000 \<le> unat (push_bit 12 p)" "unat (push_bit 12 p) + 12 \<le> 0x28000000"
    using assms unfolding addr by simp_all
  have len: "length ?data = 12" by (simp only: length_append length_le_bytes)
  have ne: "?data \<noteq> []" using len by (metis list.size(3) zero_neq_numeral)
  obtain st' where w: "vm_write slice_ops fcram_vm (push_bit 12 p) ?data st = Ret st'"
    using fcram_access [OF range(1) _ ne] range(2) unfolding len by blast
  have r: "vm_read slice_ops fcram_vm (push_bit 12 p) 12 st' = Panic OutOfRange"
    using fcram_access [OF range(1) _ ne] range(2) unfolding len by blast
  let ?k = "set_region r ((select_region k r)\<lparr>rg_start := push_bit 12 p, rg_size := n,
    rg_first := Some p, rg_last := Some p\<rparr>) k"
  have "init_region (vm_ops slice_ops) fcram_vm r (push_bit 12 p) n k st = Ret (?k, st')"
    using w block_from_ptr_page [OF vp]
    by (simp add: init_region_def block_write_def vm_ops_def Let_def del: le_bytes.simps)
  moreover have "block_read (vm_ops slice_ops) fcram_vm p st' = Panic OutOfRange"
    using r by (simp add: block_read_def vm_ops_def)
  then have "allocate_linear (vm_ops slice_ops) fcram_vm r pages ?k st' = Panic OutOfRange" for pages
    by (simp add: allocate_linear_def returns_def alloc_loop.simps [of _ _ _ _ _ "Some p"])
  ultimately show ?thesis by blast
qed

theorem kmm_on_fcram_panics_witness:
  "\<exists>k' st'. init_region (vm_ops slice_ops) fcram_vm App (push_bit 12 0x20000) 0x4000 kmm_new (\<lambda>_. 0) =
      Ret (k', st') \<and>
    (\<forall>pages. allocate_linear (vm_ops slice_ops) fcram_vm App pages k' st' = Panic OutOfRange)"
  by (rule kmm_on_fcram_panics) simp_all

text \<open>Allocating a part of the first block and freeing it.\<close>

lemma allocate_part_free:
  assumes "free_list (phys_headers pm st) (select_region k r) ((p, n) # bs)" "coalesced ((p, n) # bs)"
    and "0 < pages" "pages < n" "blocks_in pm ((p, n) # bs)"
  shows "\<exists>k' st' k'' st''. allocate_linear phys_ops pm r pages k st = Ret (Some p, k', st') \<and>
    free phys_ops pm r (push_bit 12 p) pages k' st' = Ret (k'', st'') \<and>
    free_list (phys_headers pm st'') (select_region k'' r) ((p, n) # bs)"
proof -
  obtain k' st' where a: "allocate_linear phys_ops pm r pages k st = Ret (Some p, k', st')"
      "free_list (phys_headers pm st') (select_region k' r) ((p + pages, n - pages) # bs)"
      "coalesced ((p + pages, n - pages) # bs)"
    using allocate_first [OF assms] by blast
  have bok: "block_ok (p, n)" and rest: "\<forall>c \<in> set bs. block_end (p, n) < unat (fst c)"
    using assms(2) by (simp_all add: coalesced_Cons)
  have sizes: "unat pages < unat n" "0 < unat pages" "unat (n - pages) = unat n - unat pages"
    using assms(3,4) by (simp_all add: word_less_nat_alt unat_sub word_le_nat_alt)
  have page: "unat (p + pages) = unat p + unat pages"
    using block_page_inside [OF bok, of pages] assms(4) by simp
  have ok: "block_ok (p, pages)" using bok sizes by (simp add: block_ok_def)
  have apart: "\<forall>c \<in> set ((p + pages, n - pages) # bs). apart (p, pages) c"
    using rest sizes page by (auto simp: apart_def)
  have in_pm: "blocks_in pm ((p, pages) # (p + pages, n - pages) # bs)"
    using assms(5) sizes page by (simp add: blocks_in_def)
  have fits: "\<forall>c \<in> set ((p, pages) # (p + pages, n - pages) # bs).
      header_fits (slice_covers (phys_slice pm)) (fst c)"
    using ok a(3) by (intro blocks_in_fits [OF in_pm]) (simp add: coalesced_def)
  have "p < p + pages" using page sizes by (simp add: word_less_nat_alt)
  then have "free_insert (p, pages) ((p + pages, n - pages) # bs) = (p, n) # bs"
    using page by (simp add: join_block_def)
  then show ?thesis
    using a(1) phys_memory.free_refines [OF a(2,3) ok apart] fits by auto
qed

text \<open>C22: allocating from the first block and freeing the pages, at their address, gives back the
  very list of blocks there was before, if the block was larger than the allocation.  If it was
  taken whole, the freed block comes back alone: the blocks behind it are lost, although the
  region's \<open>last\<close> still points to the last of them.\<close>

theorem kmm_allocate_free_roundtrip:
  assumes "free_list (phys_headers pm st) (select_region k r) ((p, n) # bs)" "coalesced ((p, n) # bs)"
    and "0 < pages" "pages \<le> n" "blocks_in pm ((p, n) # bs)"
  shows "\<exists>k' st' k'' st''. allocate_linear phys_ops pm r pages k st = Ret (Some p, k', st') \<and>
    free phys_ops pm r (push_bit 12 p) pages k' st' = Ret (k'', st'') \<and>
    links (phys_headers pm st'') (rg_first (select_region k'' r)) (if pages < n then (p, n) # bs else [(p, n)]) None \<and>
    rg_last (select_region k'' r) = Some (fst (last ((p, n) # bs)))"
proof (cases "pages < n")
  case True
  then show ?thesis using allocate_part_free [OF assms(1-3) True assms(5)] by (simp add: free_list_def)
next
  case False
  then have pages: "pages = n" using assms(4) by simp
  let ?region = "select_region k r"
  let ?k' = "set_region r (?region\<lparr>rg_first := None, rg_last := (if rg_last ?region = Some p then None else rg_last ?region)\<rparr>) k"
  have alloc: "allocate_linear phys_ops pm r pages k st = Ret (Some p, ?k', st)"
    unfolding pages by (rule allocate_whole [OF assms(1)])
  have p: "valid_block p" "unat p < pm_pages pm" "0 < unat n"
    using assms(2,3,5) pages by (auto simp: coalesced_Cons block_ok_def blocks_in_def word_less_nat_alt)
  obtain k'' st'' where f: "free phys_ops pm r (push_bit 12 p) n ?k' st = Ret (k'', st'')"
      "links (phys_headers pm st'') (rg_first (select_region k'' r)) [(p, n)] None"
      "rg_last (select_region k'' r) =
        (if rg_last (select_region ?k' r) = None then Some p else rg_last (select_region ?k' r))"
    using free_into_empty [of ?k' r p pm n st] p by auto
  have last: "rg_last ?region = Some (fst (last ((p, n) # bs)))" using assms(1) by (simp add: free_list_def)
  have "rg_last (select_region k'' r) = Some (fst (last ((p, n) # bs)))" unfolding f(3) using last by simp
  then show ?thesis using alloc f(1,2) pages by (intro exI conjI) (assumption | simp)+
qed

theorem kmm_allocate_free_roundtrip_witness:
  "\<exists>k0 st0. init_region phys_ops sample_memory App (push_bit 12 1) 3 kmm_new sample_store = Ret (k0, st0) \<and>
     (\<exists>k' st' k'' st''. allocate_linear phys_ops sample_memory App 2 k0 st0 = Ret (Some 1, k', st') \<and>
       free phys_ops sample_memory App (push_bit 12 1) 2 k' st' = Ret (k'', st'') \<and>
       links (phys_headers sample_memory st'') (rg_first (select_region k'' App)) [(1, 3)] None \<and>
       rg_last (select_region k'' App) = Some 1)"
proof -
  obtain k0 st0 where i: "init_region phys_ops sample_memory App (push_bit 12 1) 3 kmm_new sample_store = Ret (k0, st0)"
      "free_list (phys_headers sample_memory st0) (select_region k0 App) [(1, 3)]"
    using sample_init by blast
  have "\<exists>k' st' k'' st''. allocate_linear phys_ops sample_memory App 2 k0 st0 = Ret (Some 1, k', st') \<and>
      free phys_ops sample_memory App (push_bit 12 1) 2 k' st' = Ret (k'', st'') \<and>
      links (phys_headers sample_memory st'') (rg_first (select_region k'' App)) (if 2 < (3 :: u32) then [(1, 3)] else [(1, 3)]) None \<and>
      rg_last (select_region k'' App) = Some (fst (last [(1 :: u32, 3 :: u32)]))"
    by (rule kmm_allocate_free_roundtrip [OF i(2)])
      (simp_all add: coalesced_def block_ok_def valid_block_def blocks_in_def sample_memory_def)
  then show ?thesis using i(1) by (simp del: links.simps)
qed

end
