(* ===== verification/ObjectTable.thy ===== *)
theory ObjectTable
  imports Ipc
begin

text \<open>
  \<open>kernel/src/object_manager.rs\<close>: a process's table of handles, and the handle operations of
  \<open>CommonProcess\<close> and of the IPC translation that rest on it.

  The table is an ordered map; new handles are drawn from the xorshift generator of a
  third-party crate, so the stream of its values is a parameter \<open>draws\<close> and the table counts
  how many it has used.  The draw loop is a partial function: a generator that never yields
  a free handle makes it run for ever, which \<open>table_insert\<close> reports as \<open>Diverge\<close>.

  The locale \<open>handle_table\<close> states what the users of a table rely on; the model's operations
  satisfy it for every generator.
\<close>

section \<open>The table\<close>

record 'v object_table =
  ot_objects :: "(handle \<times> 'v) list"
  ot_drawn :: nat

definition table_new :: "'v object_table" where
  "table_new = \<lparr>ot_objects = [], ot_drawn = 0\<rparr>"

partial_function (option) insert_loop ::
  "(nat \<Rightarrow> u32) \<Rightarrow> 'v \<Rightarrow> 'v object_table \<Rightarrow> (handle \<times> 'v object_table) option" where
  "insert_loop draws value t =
     (let t' = t\<lparr>ot_drawn := Suc (ot_drawn t)\<rparr> in
      case handle_from_raw (draws (ot_drawn t)) of
        Some handle \<Rightarrow>
          if map_of (ot_objects t') handle = None
          then Some (handle, t'\<lparr>ot_objects := btree_insert handle value (ot_objects t')\<rparr>)
          else insert_loop draws value t'
      | None \<Rightarrow> insert_loop draws value t')"

definition table_insert ::
  "(nat \<Rightarrow> u32) \<Rightarrow> 'v \<Rightarrow> 'v object_table \<Rightarrow> (handle \<times> 'v object_table) res" where
  "table_insert draws value t =
     (case insert_loop draws value t of None \<Rightarrow> Diverge | Some r \<Rightarrow> Ret r)"

definition table_lookup :: "handle \<Rightarrow> 'v object_table \<Rightarrow> 'v option" where
  "table_lookup handle t = map_of (ot_objects t) handle"

definition table_remove :: "handle \<Rightarrow> 'v object_table \<Rightarrow> 'v option \<times> 'v object_table" where
  "table_remove handle t =
     (map_of (ot_objects t) handle, t\<lparr>ot_objects := btree_remove handle (ot_objects t)\<rparr>)"

definition table_ok :: "'v object_table \<Rightarrow> bool" where
  "table_ok t \<longleftrightarrow> sorted_wrt (<) (map fst (ot_objects t)) \<and> 0 \<notin> fst ` set (ot_objects t)"

text \<open>The draw yields a handle that can be used: not zero and not taken.\<close>

definition draw_free :: "(nat \<Rightarrow> u32) \<Rightarrow> 'v object_table \<Rightarrow> nat \<Rightarrow> bool" where
  "draw_free draws t n \<longleftrightarrow> draws n \<noteq> 0 \<and> table_lookup (draws n) t = None"

lemma insert_loop_taken:
  "\<not> draw_free draws t (ot_drawn t) \<Longrightarrow>
     insert_loop draws v t = insert_loop draws v (t\<lparr>ot_drawn := Suc (ot_drawn t)\<rparr>)"
  by (subst insert_loop.simps)
    (auto simp: draw_free_def handle_from_raw_def table_lookup_def Let_def split: if_splits)

lemma insert_loop_free:
  "draw_free draws t (ot_drawn t) \<Longrightarrow>
     insert_loop draws v t =
       Some (draws (ot_drawn t),
         t\<lparr>ot_drawn := Suc (ot_drawn t),
           ot_objects := btree_insert (draws (ot_drawn t)) v (ot_objects t)\<rparr>)"
  by (subst insert_loop.simps) (simp add: draw_free_def handle_from_raw_def table_lookup_def Let_def)

text \<open>The loop stops at the first usable draw.\<close>

lemma insert_loop_first:
  assumes "draw_free draws t n" "ot_drawn t \<le> n" "\<forall>k. ot_drawn t \<le> k \<and> k < n \<longrightarrow> \<not> draw_free draws t k"
  shows "insert_loop draws v t =
    Some (draws n, t\<lparr>ot_drawn := Suc n, ot_objects := btree_insert (draws n) v (ot_objects t)\<rparr>)"
  using assms
proof (induction "n - ot_drawn t" arbitrary: t)
  case 0
  then show ?case using insert_loop_free [of draws t v] by simp
next
  case (Suc k)
  let ?t = "t\<lparr>ot_drawn := Suc (ot_drawn t)\<rparr>"
  have same: "draw_free draws ?t j = draw_free draws t j" for j by (simp add: draw_free_def table_lookup_def)
  have "\<not> draw_free draws t (ot_drawn t)" using Suc by auto
  then show ?case
    using insert_loop_taken [of draws t v] Suc.hyps(1) [of ?t] Suc by (simp add: same)
qed

lemma first_free_draw:
  assumes "draw_free draws t k" "ot_drawn t \<le> k"
  shows "\<exists>n \<ge> ot_drawn t. draw_free draws t n \<and>
    (\<forall>k. ot_drawn t \<le> k \<and> k < n \<longrightarrow> \<not> draw_free draws t k)"
  using assms exists_least_iff [of "\<lambda>k. ot_drawn t \<le> k \<and> draw_free draws t k"] by auto

lemma insert_loop_None:
  assumes "\<forall>k \<ge> ot_drawn t. \<not> draw_free draws t k"
  shows "insert_loop draws v t = None"
proof (rule ccontr)
  assume "insert_loop draws v t \<noteq> None"
  then obtain r where r: "insert_loop draws v t = Some r" by auto
  have "\<exists>k \<ge> ot_drawn t. draw_free draws t k"
  proof (rule insert_loop.raw_induct [where P = "\<lambda>draws v t r. \<exists>k \<ge> ot_drawn t. draw_free draws t k", OF _ r])
    fix loop :: "(nat \<Rightarrow> u32) \<Rightarrow> 'a \<Rightarrow> 'a object_table \<Rightarrow> (handle \<times> 'a object_table) option"
      and draws v r and t :: "'a object_table"
    let ?t = "t\<lparr>ot_drawn := Suc (ot_drawn t)\<rparr>"
    assume IH: "\<And>draws v t r. loop draws v t = Some r \<Longrightarrow> \<exists>k \<ge> ot_drawn t. draw_free draws t k"
      and eq: "(let t' = ?t in
        case handle_from_raw (draws (ot_drawn t)) of
          None \<Rightarrow> loop draws v t'
        | Some handle \<Rightarrow>
            if map_of (ot_objects t') handle = None
            then Some (handle, t'\<lparr>ot_objects := btree_insert handle v (ot_objects t')\<rparr>)
            else loop draws v t') = Some r"
    show "\<exists>k \<ge> ot_drawn t. draw_free draws t k"
    proof (cases "draw_free draws t (ot_drawn t)")
      case False
      then have "loop draws v ?t = Some r"
        using eq by (auto simp: draw_free_def handle_from_raw_def table_lookup_def Let_def split: if_splits)
      then obtain k where "Suc (ot_drawn t) \<le> k" "draw_free draws ?t k" using IH by fastforce
      then show ?thesis by (intro exI [of _ k]) (simp add: draw_free_def table_lookup_def)
    qed auto
  qed
  then show False using assms by blast
qed


section \<open>What users of a table rely on\<close>

locale handle_table =
  fixes insert :: "'v \<Rightarrow> 't \<Rightarrow> (handle \<times> 't) res"
    and lookup :: "handle \<Rightarrow> 't \<Rightarrow> 'v option"
    and remove :: "handle \<Rightarrow> 't \<Rightarrow> 'v option \<times> 't"
    and ok :: "'t \<Rightarrow> bool"
  assumes insert_fresh: "\<lbrakk>ok t; insert v t = Ret (h, t')\<rbrakk> \<Longrightarrow> h \<noteq> 0 \<and> lookup h t = None \<and> ok t'"
    and lookup_insert: "\<lbrakk>ok t; insert v t = Ret (h, t')\<rbrakk> \<Longrightarrow>
      lookup x t' = (if x = h then Some v else lookup x t)"
    and remove_result: "ok t \<Longrightarrow> fst (remove h t) = lookup h t \<and> ok (snd (remove h t))"
    and lookup_remove: "ok t \<Longrightarrow>
      lookup x (snd (remove h t)) = (if x = h then None else lookup x t)"
begin

text \<open>Closing a handle undoes opening it.\<close>

lemma insert_remove:
  assumes "ok t" "insert v t = Ret (h, t')"
  shows "fst (remove h t') = Some v \<and> lookup x (snd (remove h t')) = lookup x t"
  using insert_fresh [OF assms] lookup_insert [OF assms] remove_result [of t'] lookup_remove [of t']
  by auto

text \<open>Passing an object from one table to another, leaving the source or taking it out.\<close>

lemma pass_object:
  assumes "ok src" "ok dest" "lookup h src = Some v" "insert v dest = Ret (h', dest')"
  shows "h' \<noteq> 0 \<and> lookup h' dest' = Some v \<and> (\<forall>x. x \<noteq> h' \<longrightarrow> lookup x dest' = lookup x dest) \<and>
    fst (remove h src) = Some v \<and> lookup h (snd (remove h src)) = None"
  using insert_fresh [OF assms(2,4)] lookup_insert [OF assms(2,4)] remove_result [OF assms(1)]
    lookup_remove [OF assms(1)] assms(3) by auto

end

lemma table_insert_Ret:
  assumes "table_insert draws v t = Ret (h, t')"
  shows "\<exists>n \<ge> ot_drawn t. h = draws n \<and> draw_free draws t n \<and>
    t' = t\<lparr>ot_drawn := Suc n, ot_objects := btree_insert h v (ot_objects t)\<rparr>"
proof -
  have some: "insert_loop draws v t = Some (h, t')"
    using assms by (simp add: table_insert_def split: option.splits)
  then obtain k where k: "ot_drawn t \<le> k" "draw_free draws t k"
    using insert_loop_None [of t draws v] by auto
  then obtain n where n: "ot_drawn t \<le> n" "draw_free draws t n"
      "\<forall>k. ot_drawn t \<le> k \<and> k < n \<longrightarrow> \<not> draw_free draws t k"
    using first_free_draw [OF k(2,1)] by blast
  then show ?thesis using some insert_loop_first [OF n(2,1,3), of v] by auto
qed

lemma table_new_ok [simp]: "table_ok table_new"
  by (simp add: table_ok_def table_new_def)

interpretation handles: handle_table "table_insert draws" table_lookup table_remove table_ok for draws
proof unfold_locales
  fix t t' :: "'v object_table" and v h x
  assume ok: "table_ok t" and ins: "table_insert draws v t = Ret (h, t')"
  obtain n where n: "h = draws n" "draw_free draws t n"
      "t' = t\<lparr>ot_drawn := Suc n, ot_objects := btree_insert h v (ot_objects t)\<rparr>"
    using table_insert_Ret [OF ins] by blast
  have "0 \<notin> fst ` set (btree_insert h v (ot_objects t))"
    using ok n(1,2) by (auto simp: table_ok_def draw_free_def dest: set_btree_insert)
  then show "h \<noteq> 0 \<and> table_lookup h t = None \<and> table_ok t'"
    using ok n sorted_btree_insert by (auto simp: table_ok_def draw_free_def)
  show "table_lookup x t' = (if x = h then Some v else table_lookup x t)"
    by (simp add: table_lookup_def n(3))
next
  fix t :: "'v object_table" and h x
  assume ok: "table_ok t"
  show "fst (table_remove h t) = table_lookup h t \<and> table_ok (snd (table_remove h t))"
    using ok sorted_btree_remove set_btree_remove [of h "ot_objects t"]
    by (auto simp: table_remove_def table_lookup_def table_ok_def)
  show "table_lookup x (snd (table_remove h t)) = (if x = h then None else table_lookup x t)"
    by (simp add: table_remove_def table_lookup_def)
qed

section \<open>The handles of a process\<close>

record 'v common_process =
  cp_pid :: u32
  cp_name :: string
  cp_objects :: "'v object_table"

definition process_new_handle ::
  "(nat \<Rightarrow> u32) \<Rightarrow> 'v \<Rightarrow> 'v common_process \<Rightarrow> (handle \<times> 'v common_process) res" where
  "process_new_handle draws obj p =
     and_then (table_insert draws obj (cp_objects p)) (\<lambda>(h, t). Ret (h, p\<lparr>cp_objects := t\<rparr>))"

definition process_close_handle :: "handle \<Rightarrow> 'v common_process \<Rightarrow> bool \<times> 'v common_process" where
  "process_close_handle h p =
     (let (obj, t) = table_remove h (cp_objects p) in (obj \<noteq> None, p\<lparr>cp_objects := t\<rparr>))"

definition process_lookup_close_handle ::
  "handle \<Rightarrow> 'v common_process \<Rightarrow> 'v option \<times> 'v common_process" where
  "process_lookup_close_handle h p =
     (let (obj, t) = table_remove h (cp_objects p) in (obj, p\<lparr>cp_objects := t\<rparr>))"

definition process_lookup_handle :: "handle \<Rightarrow> 'v common_process \<Rightarrow> 'v option" where
  "process_lookup_handle h p = table_lookup h (cp_objects p)"

section \<open>Properties\<close>

text \<open>C39: \<open>insert\<close> gives the object a handle that is not zero and was not in use, after which
  looking it up finds the object and no other lookup has changed.\<close>

theorem table_insert_correct:
  assumes "table_ok t" "table_insert draws v t = Ret (h, t')"
  shows "h \<noteq> 0 \<and> table_lookup h t = None \<and> table_ok t' \<and>
    table_lookup x t' = (if x = h then Some v else table_lookup x t)"
  using handles.insert_fresh [OF assms] handles.lookup_insert [OF assms] by simp

theorem table_insert_correct_witness:
  "(3 :: handle) \<noteq> 0 \<and> table_lookup 3 (table_new :: nat object_table) = None \<and>
   table_ok \<lparr>ot_objects = [(3, 7 :: nat)], ot_drawn = 3\<rparr> \<and>
   table_lookup 3 \<lparr>ot_objects = [(3, 7 :: nat)], ot_drawn = 3\<rparr> =
     (if (3 :: handle) = 3 then Some 7 else table_lookup 3 table_new)"
proof (rule table_insert_correct [where draws = "\<lambda>n. if n < 2 then 0 else 3"])
  let ?draws = "\<lambda>n :: nat. if n < 2 then 0 else (3 :: u32)"
  have "insert_loop ?draws (7 :: nat) table_new = Some (3, \<lparr>ot_objects = [(3, 7)], ot_drawn = 3\<rparr>)"
    using insert_loop_first [of ?draws "table_new :: nat object_table" 2 7]
    by (simp add: draw_free_def table_lookup_def table_new_def)
  then show "table_insert ?draws (7 :: nat) table_new = Ret (3, \<lparr>ot_objects = [(3, 7)], ot_drawn = 3\<rparr>)"
    by (simp add: table_insert_def)
qed simp

text \<open>C40: \<open>insert\<close> returns exactly when the generator still yields a value that is neither
  zero nor a handle in use, and otherwise never returns.\<close>

theorem table_insert_terminates_iff:
  "table_insert draws v t = Diverge \<longleftrightarrow>
     \<not> (\<exists>n. ot_drawn t \<le> n \<and> draws n \<noteq> 0 \<and> table_lookup (draws n) t = None)"
proof -
  have free: "draw_free draws t n \<longleftrightarrow> \<not> (draws n = 0 \<or> table_lookup (draws n) t \<noteq> None)" for n
    by (auto simp: draw_free_def)
  have "table_insert draws v t = Diverge" if "\<forall>n \<ge> ot_drawn t. \<not> draw_free draws t n"
    using insert_loop_None [OF that] by (simp add: table_insert_def)
  moreover have "\<exists>r. table_insert draws v t = Ret r" if k: "ot_drawn t \<le> k" "draw_free draws t k" for k
  proof -
    obtain n where "ot_drawn t \<le> n" "draw_free draws t n"
        "\<forall>k. ot_drawn t \<le> k \<and> k < n \<longrightarrow> \<not> draw_free draws t k"
      using first_free_draw [OF k(2,1)] by blast
    then show ?thesis using insert_loop_first [of draws t n v] by (simp add: table_insert_def)
  qed
  ultimately have "table_insert draws v t = Diverge \<longleftrightarrow> (\<forall>n \<ge> ot_drawn t. \<not> draw_free draws t n)"
    by (metis res.distinct(3))
  then show ?thesis by (auto simp: free)
qed

text \<open>Closing a handle just opened returns the object and leaves every other handle as it
  was before the two calls.\<close>

theorem process_handle_roundtrip:
  assumes "table_ok (cp_objects p)" "process_new_handle draws v p = Ret (h, p')"
  shows "fst (process_lookup_close_handle h p') = Some v \<and>
    process_lookup_handle x (snd (process_lookup_close_handle h p')) = process_lookup_handle x p \<and>
    fst (process_close_handle h p')"
proof -
  obtain t where t: "table_insert draws v (cp_objects p) = Ret (h, t)" "p' = p\<lparr>cp_objects := t\<rparr>"
    using assms(2) by (auto simp: process_new_handle_def)
  show ?thesis
    using handles.insert_remove [OF assms(1) t(1), of x] t(2)
    by (simp add: process_lookup_close_handle_def process_close_handle_def process_lookup_handle_def
        split: prod.splits) fastforce
qed

theorem process_handle_roundtrip_witness:
  "\<exists>p'. process_new_handle (\<lambda>n. of_nat n) (7 :: nat) \<lparr>cp_pid = 0, cp_name = ''p'', cp_objects = table_new\<rparr> =
      Ret (1, p') \<and>
    fst (process_lookup_close_handle 1 p') = Some 7 \<and>
    process_lookup_handle 1 (snd (process_lookup_close_handle 1 p')) =
      process_lookup_handle 1 \<lparr>cp_pid = 0, cp_name = ''p'', cp_objects = table_new\<rparr> \<and>
    fst (process_close_handle 1 p')"
proof -
  let ?p = "\<lparr>cp_pid = 0, cp_name = ''p'', cp_objects = table_new :: nat object_table\<rparr>"
  let ?draws = "\<lambda>n. of_nat n :: u32"
  have "insert_loop ?draws (7 :: nat) table_new = Some (1, \<lparr>ot_objects = [(1, 7)], ot_drawn = 2\<rparr>)"
    using insert_loop_first [of ?draws "table_new :: nat object_table" 1 7]
    by (simp add: draw_free_def table_lookup_def table_new_def)
  then have new: "process_new_handle ?draws 7 ?p =
      Ret (1, ?p\<lparr>cp_objects := \<lparr>ot_objects = [(1, 7)], ot_drawn = 2\<rparr>\<rparr>)"
    by (simp add: process_new_handle_def table_insert_def)
  show ?thesis
    using new process_handle_roundtrip [OF _ new, of 1] by auto
qed

end
