(* ===== verification/KernelTypes.thy ===== *)
theory KernelTypes
  imports ObjectTable
begin

text \<open>
  The value types of \<open>kernel/src/lib.rs\<close>: reset types, resource limits, signals, address
  arbitration, timeouts, and the states of a thread.  Signed parameters are words read with
  \<open>sint\<close>.
\<close>

section \<open>Raw identifiers\<close>

datatype reset_type = OneShot | Sticky | Pulse

definition reset_type_from_raw :: "u32 \<Rightarrow> reset_type res" where
  "reset_type_from_raw raw =
     (if raw = 0 then Ret OneShot
      else if raw = 1 then Ret Sticky
      else if raw = 2 then Ret Pulse
      else Panic Unreachable)"

datatype res_limit =
    Priority | Commit | ResThread | ResEvent | ResMutex | Semaphore | ResTimer | SharedMemory
  | AddressArbiter | CpuTime

definition res_limit_from_raw :: "u32 \<Rightarrow> res_limit res" where
  "res_limit_from_raw raw =
     (if raw = 0 then Ret Priority
      else if raw = 1 then Ret Commit
      else if raw = 2 then Ret ResThread
      else if raw = 3 then Ret ResEvent
      else if raw = 4 then Ret ResMutex
      else if raw = 5 then Ret Semaphore
      else if raw = 6 then Ret ResTimer
      else if raw = 7 then Ret SharedMemory
      else if raw = 8 then Ret AddressArbiter
      else if raw = 9 then Ret CpuTime
      else Panic Unreachable)"

text \<open>The error words of module \<open>errors\<close>; a \<open>KResult\<close> is a sum with its error on the left.\<close>

definition TIMEOUT_REACHED :: u32 where "TIMEOUT_REACHED = 0x09401BFE"
definition HANDLE_TYPE_MISMATCH :: u32 where "HANDLE_TYPE_MISMATCH = 0xD8E007F7"
definition HANDLE_TYPE_MISMATCH_2 :: u32 where "HANDLE_TYPE_MISMATCH_2 = 0xD9001BF7"

type_synonym 'a kresult = "u32 + 'a"

section \<open>Signals\<close>

record signal =
  sg_reset_type :: reset_type
  sg_signaled :: bool

definition signal_new :: "reset_type \<Rightarrow> signal" where
  "signal_new r = \<lparr>sg_reset_type = r, sg_signaled = False\<rparr>"

definition signal_is_pulse :: "signal \<Rightarrow> bool" where
  "signal_is_pulse s \<longleftrightarrow> sg_reset_type s = Pulse"

definition signal_is_sticky :: "signal \<Rightarrow> bool" where
  "signal_is_sticky s \<longleftrightarrow> sg_reset_type s = Sticky"

definition signal_signal :: "signal \<Rightarrow> signal" where
  "signal_signal s = s\<lparr>sg_signaled := True\<rparr>"

definition signal_consume :: "signal \<Rightarrow> bool \<times> signal" where
  "signal_consume s =
     (if sg_signaled s
      then (True, case sg_reset_type s of
                    OneShot \<Rightarrow> s\<lparr>sg_signaled := False\<rparr>
                  | Pulse \<Rightarrow> s\<lparr>sg_signaled := False\<rparr>
                  | Sticky \<Rightarrow> s)
      else (False, s))"

definition signal_unconsume :: "signal \<Rightarrow> signal" where
  "signal_unconsume s = s\<lparr>sg_signaled := True\<rparr>"

definition signal_clear :: "signal \<Rightarrow> signal" where
  "signal_clear s = s\<lparr>sg_signaled := False\<rparr>"

section \<open>Arbitration\<close>

datatype arbitration_type =
    ArbSignal
  | WaitIfLessThan
  | DecrementAndWaitIfLessThan
  | WaitIfLessThanTimeout
  | DecrementAndWaitIfLessThanTimeout

datatype arbitration_action = ActSignal | ActDecrement

datatype arbitration_fail = FailWait | FailWaitTimeout

definition arbitration_from_raw :: "u32 \<Rightarrow> arbitration_type res" where
  "arbitration_from_raw x =
     (if x = 0 then Ret ArbSignal
      else if x = 1 then Ret WaitIfLessThan
      else if x = 2 then Ret DecrementAndWaitIfLessThan
      else if x = 3 then Ret WaitIfLessThanTimeout
      else if x = 4 then Ret DecrementAndWaitIfLessThanTimeout
      else Panic Unreachable)"

text \<open>\<open>arbitrate\<close> reads the memory value at most once, through a closure whose panic is its
  own; the model takes the outcome of the closure and uses it exactly where the code does.\<close>

fun arbitrate ::
  "arbitration_type \<Rightarrow> 32 word res \<Rightarrow> 32 word \<Rightarrow> (arbitration_action option \<times> (arbitration_fail + unit)) res" where
  "arbitrate ArbSignal memory_value value' = Ret (Some ActSignal, Inr ())"
| "arbitrate WaitIfLessThan memory_value value' =
     and_then memory_value (\<lambda>m. Ret (None, if sint m < sint value' then Inl FailWait else Inr ()))"
| "arbitrate DecrementAndWaitIfLessThan memory_value value' =
     and_then memory_value (\<lambda>m.
       if sint m < sint value' then Ret (Some ActDecrement, Inl FailWait) else Ret (None, Inr ()))"
| "arbitrate WaitIfLessThanTimeout memory_value value' =
     and_then memory_value (\<lambda>m. Ret (None, if sint m < sint value' then Inl FailWaitTimeout else Inr ()))"
| "arbitrate DecrementAndWaitIfLessThanTimeout memory_value value' =
     and_then memory_value (\<lambda>m.
       if sint m < sint value' then Ret (Some ActDecrement, Inl FailWaitTimeout) else Ret (None, Inr ()))"

section \<open>Timeouts\<close>

datatype timeout = Instant | After u64 | Forever

definition timeout_absolute :: "timeout \<Rightarrow> u64 \<Rightarrow> u64 option res" where
  "timeout_absolute t base =
     (case t of
        Instant \<Rightarrow> and_then (cadd 0 base) (\<lambda>n. Ret (Some n))
      | After ns \<Rightarrow> and_then (cadd ns base) (\<lambda>n. Ret (Some n))
      | Forever \<Rightarrow> Ret None)"

definition make_timeout :: "64 word \<Rightarrow> timeout" where
  "make_timeout ns =
     (if sint ns \<ge> 0 then if ns = 0 then Instant else After ns else Forever)"

section \<open>Threads\<close>

datatype thread_state = Running | Ready | Paused | Waiting | Done

datatype thread_wait_type = WaitSync1 | WaitSyncN | WaitArbiter | WaitSleep

datatype thread_resume = ResumeNormal | ResumeTimeoutReached | ResumeWaitSyncN nat

text \<open>A reference to a kernel object is its position in \<open>ObjectManager\<close>'s list, in which
  every object stays for good.  Thread indices are \<open>usize\<close>.\<close>

type_synonym oid = nat
type_synonym tid = nat

datatype wake_reason = WakeTimeout | WakeObject oid

record waker =
  wk_thread :: tid
  wk_key :: u64

definition waker_check_opaque_id :: "tid \<Rightarrow> waker \<Rightarrow> bool" where
  "waker_check_opaque_id raw w \<longleftrightarrow> wk_thread w = raw"

lemma signal_simps [simp]:
  "sg_reset_type (signal_signal s) = sg_reset_type s" "sg_signaled (signal_signal s)"
  "sg_reset_type (signal_clear s) = sg_reset_type s" "\<not> sg_signaled (signal_clear s)"
  "sg_reset_type (signal_unconsume s) = sg_reset_type s" "sg_signaled (signal_unconsume s)"
  by (simp_all add: signal_signal_def signal_clear_def signal_unconsume_def)

lemma consume_unsignaled [simp]: "\<not> sg_signaled s \<Longrightarrow> signal_consume s = (False, s)"
  by (simp add: signal_consume_def)

lemma fst_consume [simp]: "fst (signal_consume s) = sg_signaled s"
  by (simp add: signal_consume_def)

end
