(* ===== verification/Threads.thy ===== *)
theory Threads
  imports KernelTypes
begin

text \<open>
  Kernel objects and the thread manager: the data of every \<open>KObjectData\<close> of
  \<open>hle/src\<close>, \<open>remove_wakers_by_opaque_id\<close> of each, and \<open>CommonThread\<close>,
  \<open>CommonThreadManager\<close> and \<open>WakerImpl\<close> of \<open>kernel/src/lib.rs\<close>.

  Objects and threads refer to each other, so both live in one state \<open>sched\<close>.  An object
  reference (\<open>Rc\<close> or \<open>Weak\<close>) is its position in \<open>sc_objects\<close>; whether a weak one can
  still be upgraded is an input of the operations that ask.  Every mutation of a cell of
  the code is an update of this state at the same point of the sequence.  The type
  parameter \<open>'t\<close> is the thread bodies (\<open>Box<Thread>\<close>, \<open>ThreadHLE\<close>).
\<close>

section \<open>Kernel objects\<close>

record event =
  ev_signal :: signal
  ev_queue :: "waker list"

record timer =
  tm_signal :: signal
  tm_queue :: "waker list"
  tm_next_ns :: "64 word"
  tm_interval :: "64 word"

record mutex =
  mx_acquired :: bool
  mx_queue :: "waker list"

record thread_object =
  to_index :: tid
  to_dead :: bool
  to_queue :: "waker list"

record arbiter =
  ab_queue :: "(waker \<times> u32) list"

record server_port =
  sp_queue :: "waker list"
  sp_sessions :: "oid list"
  sp_client :: "oid option"

record client_port =
  cp_queue :: "waker list"
  cp_server :: oid

record server_session =
  ss_queue :: "waker list"
  ss_requests :: "tid list"
  ss_client :: "oid option"

record client_session =
  cs_queue :: "waker list"
  cs_server :: oid

record 't hle_codeset =
  hc_main_thread :: "'t option"
  hc_process_name :: string

record codeset_section =
  sec_start :: u32
  sec_data :: "u8 list"

record lle_codeset =
  lc_text :: codeset_section
  lc_rodata :: codeset_section
  lc_data :: codeset_section
  lc_bss :: u32
  lc_process_name :: string
  lc_program_id :: u64

datatype 't kobj =
    Event event
  | Timer timer
  | Mutex mutex
  | ThreadObject thread_object
  | Arbiter arbiter
  | ServerPort server_port
  | ClientPort client_port
  | ServerSession server_session
  | ClientSession client_session
  | HleCodeSet "'t hle_codeset"
  | LleCodeSet lle_codeset

text \<open>\<open>remove_wakers_by_opaque_id\<close> of the synchronization objects and of the arbiter; an
  object that is neither is left alone.\<close>

definition retain_others :: "tid \<Rightarrow> waker list \<Rightarrow> waker list" where
  "retain_others i ws = filter (\<lambda>w. \<not> waker_check_opaque_id i w) ws"

fun remove_wakers :: "tid \<Rightarrow> 't kobj \<Rightarrow> 't kobj" where
  "remove_wakers i (Event e) = Event (e\<lparr>ev_queue := retain_others i (ev_queue e)\<rparr>)"
| "remove_wakers i (Timer t) = Timer (t\<lparr>tm_queue := retain_others i (tm_queue t)\<rparr>)"
| "remove_wakers i (Mutex m) = Mutex (m\<lparr>mx_queue := retain_others i (mx_queue m)\<rparr>)"
| "remove_wakers i (ThreadObject t) = ThreadObject (t\<lparr>to_queue := retain_others i (to_queue t)\<rparr>)"
| "remove_wakers i (Arbiter a) =
     Arbiter (a\<lparr>ab_queue := filter (\<lambda>e. \<not> waker_check_opaque_id i (fst e)) (ab_queue a)\<rparr>)"
| "remove_wakers i (ServerPort p) = ServerPort (p\<lparr>sp_queue := retain_others i (sp_queue p)\<rparr>)"
| "remove_wakers i (ClientPort p) = ClientPort (p\<lparr>cp_queue := retain_others i (cp_queue p)\<rparr>)"
| "remove_wakers i (ServerSession s) = ServerSession (s\<lparr>ss_queue := retain_others i (ss_queue s)\<rparr>)"
| "remove_wakers i (ClientSession s) = ClientSession (s\<lparr>cs_queue := retain_others i (cs_queue s)\<rparr>)"
| "remove_wakers i (HleCodeSet c) = HleCodeSet c"
| "remove_wakers i (LleCodeSet c) = LleCodeSet c"

text \<open>The wakers an object holds.\<close>

fun wakers_of :: "'t kobj \<Rightarrow> waker list" where
  "wakers_of (Event e) = ev_queue e"
| "wakers_of (Timer t) = tm_queue t"
| "wakers_of (Mutex m) = mx_queue m"
| "wakers_of (ThreadObject t) = to_queue t"
| "wakers_of (Arbiter a) = map fst (ab_queue a)"
| "wakers_of (ServerPort p) = sp_queue p"
| "wakers_of (ClientPort p) = cp_queue p"
| "wakers_of (ServerSession s) = ss_queue s"
| "wakers_of (ClientSession s) = cs_queue s"
| "wakers_of (HleCodeSet c) = []"
| "wakers_of (LleCodeSet c) = []"

definition modify_object :: "oid \<Rightarrow> ('t kobj \<Rightarrow> 't kobj) \<Rightarrow> 't kobj list \<Rightarrow> 't kobj list" where
  "modify_object i f objs = (if i < length objs then objs[i := f (objs ! i)] else objs)"

section \<open>Threads\<close>

record common_thread =
  ct_index :: tid
  ct_pid :: u32
  ct_state :: thread_state
  ct_wait_objects :: "oid list"
  ct_wake_key :: u64
  ct_wait_timeout :: "u64 option"
  ct_wait_type :: "thread_wait_type option"
  ct_resume :: thread_resume
  ct_kobj :: oid
  ct_ipc_data :: "u8 list"

definition thread_new :: "u32 \<Rightarrow> tid \<Rightarrow> oid \<Rightarrow> common_thread" where
  "thread_new pid i kobj =
     \<lparr>ct_index = i, ct_pid = pid, ct_state = Ready, ct_wait_objects = [], ct_wake_key = 0,
      ct_wait_timeout = None, ct_wait_type = None, ct_resume = ResumeNormal, ct_kobj = kobj,
      ct_ipc_data = replicate 256 0\<rparr>"

definition thread_wait :: "oid list \<Rightarrow> common_thread \<Rightarrow> common_thread res" where
  "thread_wait objects t =
     and_then (guard Assertion (ct_state t = Running)) (\<lambda>_.
     Ret (t\<lparr>ct_wait_objects := objects, ct_state := Waiting\<rparr>))"

primrec position :: "'a \<Rightarrow> 'a list \<Rightarrow> nat option" where
  "position x [] = None"
| "position x (y # ys) = (if x = y then Some 0 else map_option Suc (position x ys))"

fun wake_resume :: "wake_reason \<Rightarrow> thread_wait_type \<Rightarrow> oid list \<Rightarrow> thread_resume res" where
  "wake_resume WakeTimeout WaitSleep objects = Ret ResumeNormal"
| "wake_resume WakeTimeout _ objects = Ret ResumeTimeoutReached"
| "wake_resume (WakeObject _) WaitSleep objects = Panic Unreachable"
| "wake_resume (WakeObject obj) WaitSyncN objects =
     and_then (expect ''Unknown handle woke up thread during WaitSyncN'' (position obj objects))
       (\<lambda>index. Ret (ResumeWaitSyncN index))"
| "wake_resume (WakeObject _) _ objects = Ret ResumeNormal"

definition wake_up ::
  "wake_reason \<Rightarrow> 't kobj list \<Rightarrow> common_thread \<Rightarrow> (common_thread \<times> 't kobj list) res" where
  "wake_up reason objs t =
     (let t' = t\<lparr>ct_state := Ready, ct_wake_key := ct_wake_key t + 1\<rparr> in
      and_then (expect ''Timeout occurred on thread with invalid wait_type'' (ct_wait_type t')) (\<lambda>wt.
      and_then (wake_resume reason wt (ct_wait_objects t')) (\<lambda>resume.
      let objs' = fold (\<lambda>i. modify_object i (remove_wakers (ct_index t'))) (ct_wait_objects t') objs in
      Ret (t'\<lparr>ct_resume := resume, ct_wait_objects := []\<rparr>, objs'))))"

section \<open>The thread manager\<close>

record 't sched =
  sc_objects :: "'t kobj list"
  sc_threads :: "common_thread list"

definition next_thread :: "common_thread list \<Rightarrow> tid option" where
  "next_thread ts = map_option ct_index (find (\<lambda>t. ct_state t = Ready) ts)"

fun tick_threads ::
  "u64 \<Rightarrow> common_thread list \<Rightarrow> 't kobj list \<Rightarrow> (common_thread list \<times> 't kobj list) res" where
  "tick_threads time [] objs = Ret ([], objs)"
| "tick_threads time (t # ts) objs =
     (let rest = (\<lambda>(t', objs').
            and_then (tick_threads time ts objs') (\<lambda>(ts', objs''). Ret (t' # ts', objs''))) in
      case (ct_state t, ct_wait_timeout t) of
        (Waiting, Some timeout) \<Rightarrow>
          if timeout \<le> time then and_then (wake_up WakeTimeout objs t) rest else rest (t, objs)
      | _ \<Rightarrow> rest (t, objs))"

definition find_thread :: "tid \<Rightarrow> common_thread list \<Rightarrow> common_thread res" where
  "find_thread i ts = expect ''Couldn't find CommonThread'' (find (\<lambda>t. ct_index t = i) ts)"

text \<open>What a caller of \<open>find_thread_mut\<close> stores through the reference.\<close>

definition put_thread :: "tid \<Rightarrow> common_thread \<Rightarrow> common_thread list \<Rightarrow> common_thread list" where
  "put_thread i t ts = update_first (\<lambda>t. ct_index t = i) (\<lambda>_. t) ts"

text \<open>\<open>find_thread_pair_mut\<close> gives the threads in the order asked for.\<close>

definition find_thread_pair :: "tid \<times> tid \<Rightarrow> common_thread list \<Rightarrow> (common_thread \<times> common_thread) res" where
  "find_thread_pair pair ts =
     (case pair of (a, b) \<Rightarrow>
        (case filter (\<lambda>t. ct_index t = a \<or> ct_index t = b) ts of
           x # y # _ \<Rightarrow> Ret (if ct_index x = b then (y, x) else (x, y))
         | _ \<Rightarrow> Panic (Expect ''Couldn't find a thread'')))"

definition wake_up_thread :: "tid \<Rightarrow> u64 \<Rightarrow> oid \<Rightarrow> ('t, 'z) sched_scheme \<Rightarrow> (bool \<times> ('t, 'z) sched_scheme) res" where
  "wake_up_thread i key obj s =
     and_then (find_thread i (sc_threads s)) (\<lambda>t.
     if ct_wake_key t = key
     then and_then (wake_up (WakeObject obj) (sc_objects s) t) (\<lambda>(t', objs).
          Ret (True, s\<lparr>sc_objects := objs, sc_threads := put_thread i t' (sc_threads s)\<rparr>))
     else Ret (False, s))"

text \<open>\<open>Waker::wake\<close>, with \<open>Ok\<close> as \<open>True\<close>.\<close>

definition waker_wake :: "waker \<Rightarrow> oid \<Rightarrow> ('t, 'z) sched_scheme \<Rightarrow> (bool \<times> ('t, 'z) sched_scheme) res" where
  "waker_wake w obj s = wake_up_thread (wk_thread w) (wk_key w) obj s"

definition suspend_current ::
  "tid \<Rightarrow> oid list \<Rightarrow> u64 option \<Rightarrow> thread_wait_type \<Rightarrow> ('t, 'z) sched_scheme \<Rightarrow> (waker \<times> ('t, 'z) sched_scheme) res" where
  "suspend_current i objects timeout wt s =
     and_then (find_thread i (sc_threads s)) (\<lambda>t.
     and_then (thread_wait objects t) (\<lambda>t'.
     let t'' = t'\<lparr>ct_wait_timeout := timeout, ct_wait_type := Some wt\<rparr> in
     Ret (\<lparr>wk_thread = ct_index t'', wk_key = ct_wake_key t''\<rparr>,
          s\<lparr>sc_threads := put_thread i t'' (sc_threads s)\<rparr>)))"

section \<open>Queues and waiting threads agree\<close>

text \<open>The waker \<open>w\<close> in the queue of object \<open>i\<close> stands for a wait of \<open>t\<close> that is still on.\<close>

definition waits_on :: "waker \<Rightarrow> oid \<Rightarrow> common_thread \<Rightarrow> bool" where
  "waits_on w i t \<longleftrightarrow>
     ct_index t = wk_thread w \<and> ct_wake_key t = wk_key w \<and> ct_state t = Waiting \<and>
     i \<in> set (ct_wait_objects t) \<and>
     ct_wait_type t \<in> {Some WaitSync1, Some WaitSyncN, Some WaitArbiter}"

definition queues_live :: "'t kobj list \<Rightarrow> common_thread list \<Rightarrow> bool" where
  "queues_live objs ts \<longleftrightarrow>
     (\<forall>i < length objs. \<forall>w \<in> set (wakers_of (objs ! i)). \<exists>t \<in> set ts. waits_on w i t)"

fun arbiter_queue_distinct :: "'t kobj \<Rightarrow> bool" where
  "arbiter_queue_distinct (Arbiter a) = distinct (map (wk_thread \<circ> fst) (ab_queue a))"
| "arbiter_queue_distinct _ = True"

text \<open>
  The invariant: thread indices are unique, no queue holds a waker whose thread has moved on,
  an arbiter holds at most one waker of a thread, and a waiting thread says what for.
\<close>

definition sched_ok :: "('t, 'z) sched_scheme \<Rightarrow> bool" where
  "sched_ok s \<longleftrightarrow>
     distinct (map ct_index (sc_threads s)) \<and>
     queues_live (sc_objects s) (sc_threads s) \<and>
     list_all arbiter_queue_distinct (sc_objects s) \<and>
     list_all (\<lambda>t. ct_state t = Waiting \<longrightarrow> ct_wait_type t \<noteq> None) (sc_threads s)"

lemma wakers_of_remove [simp]:
  "wakers_of (remove_wakers i obj) = filter (\<lambda>w. wk_thread w \<noteq> i) (wakers_of obj)"
  by (cases obj) (auto simp: retain_others_def waker_check_opaque_id_def filter_map comp_def)

lemma retain_others_absent: "i \<notin> wk_thread ` set ws \<Longrightarrow> retain_others i ws = ws"
  by (auto simp: retain_others_def waker_check_opaque_id_def filter_id_conv)

lemma retain_entries_absent:
  "i \<notin> wk_thread ` fst ` set es \<Longrightarrow> filter (\<lambda>e. \<not> waker_check_opaque_id i (fst e)) es = es"
  by (auto simp: waker_check_opaque_id_def filter_id_conv)

lemma remove_wakers_absent:
  "i \<notin> wk_thread ` set (wakers_of obj) \<Longrightarrow> remove_wakers i obj = obj"
  by (cases obj) (simp_all add: retain_others_absent retain_entries_absent)

lemma remove_wakers_idem [simp]: "remove_wakers i (remove_wakers i obj) = remove_wakers i obj"
  by (rule remove_wakers_absent) auto

lemma remove_wakers_arbiter [simp]:
  "arbiter_queue_distinct obj \<Longrightarrow> arbiter_queue_distinct (remove_wakers i obj)"
  by (cases obj) (auto simp: distinct_map_filter)

lemma length_modify_object [simp]: "length (modify_object i f objs) = length objs"
  by (simp add: modify_object_def)

lemma nth_modify_object [simp]:
  "j < length objs \<Longrightarrow> modify_object i f objs ! j = (if i = j then f (objs ! j) else objs ! j)"
  by (auto simp: modify_object_def)

lemma length_fold_modify [simp]: "length (fold (\<lambda>i. modify_object i f) is objs) = length objs"
  by (induction "is" arbitrary: objs) simp_all

lemma nth_fold_modify:
  assumes "\<And>obj. f (f obj) = f obj" "j < length objs"
  shows "fold (\<lambda>i. modify_object i f) is objs ! j = (if j \<in> set is then f (objs ! j) else objs ! j)"
  using assms(2) by (induction "is" arbitrary: objs) (auto simp: assms(1))

text \<open>Removing a thread's wakers from the objects it waits for removes all of them.\<close>

lemma thread_unique:
  "\<lbrakk>distinct (map ct_index ts); t \<in> set ts; t' \<in> set ts; ct_index t = ct_index t'\<rbrakk> \<Longrightarrow> t = t'"
  by (auto simp: distinct_map inj_on_def)

lemma remove_everywhere:
  assumes "distinct (map ct_index ts)" "queues_live objs ts" "t \<in> set ts"
  shows "fold (\<lambda>i. modify_object i (remove_wakers (ct_index t))) (ct_wait_objects t) objs =
    map (remove_wakers (ct_index t)) objs"
proof (rule nth_equalityI)
  fix j assume "j < length (fold (\<lambda>i. modify_object i (remove_wakers (ct_index t))) (ct_wait_objects t) objs)"
  then have j: "j < length objs" by simp
  have "remove_wakers (ct_index t) (objs ! j) = objs ! j" if out: "j \<notin> set (ct_wait_objects t)"
  proof (rule remove_wakers_absent, rule notI)
    assume "ct_index t \<in> wk_thread ` set (wakers_of (objs ! j))"
    then obtain w where w: "w \<in> set (wakers_of (objs ! j))" "wk_thread w = ct_index t" by auto
    then obtain t' where "t' \<in> set ts" "waits_on w j t'" using assms(2) j by (auto simp: queues_live_def)
    then have "t' = t" "j \<in> set (ct_wait_objects t')"
      using thread_unique [OF assms(1), of t' t] assms(3) w(2) by (auto simp: waits_on_def)
    then show False using out by simp
  qed
  then show "fold (\<lambda>i. modify_object i (remove_wakers (ct_index t))) (ct_wait_objects t) objs ! j =
      map (remove_wakers (ct_index t)) objs ! j"
    using j by (simp add: nth_fold_modify)
qed simp

text \<open>A thread made ready with a resume value, and its wakers taken out of every queue.\<close>

definition awake :: "thread_resume \<Rightarrow> common_thread \<Rightarrow> common_thread" where
  "awake r t = t\<lparr>ct_state := Ready, ct_wake_key := ct_wake_key t + 1, ct_resume := r, ct_wait_objects := []\<rparr>"

definition woken :: "tid \<Rightarrow> thread_resume \<Rightarrow> ('t, 'z) sched_scheme \<Rightarrow> ('t, 'z) sched_scheme" where
  "woken i r s = s\<lparr>sc_objects := map (remove_wakers i) (sc_objects s),
     sc_threads := update_first (\<lambda>t. ct_index t = i) (awake r) (sc_threads s)\<rparr>"

lemma ct_index_awake [simp]: "ct_index (awake r t) = ct_index t"
  by (simp add: awake_def)

lemma map_index_update [simp]:
  "map ct_index (update_first (\<lambda>t. ct_index t = i) (awake r) ts) = map ct_index ts"
  by (rule map_update_first) simp

lemma in_update_first:
  assumes "distinct (map ct_index ts)"
  shows "t \<in> set (update_first (\<lambda>t. ct_index t = i) f ts) \<longleftrightarrow>
    (if \<exists>t' \<in> set ts. ct_index t' = i \<and> t = f t' then True else t \<in> set ts \<and> ct_index t \<noteq> i)"
  using assms by (induction ts) (auto split: if_splits)

lemma sched_ok_woken:
  assumes ok: "sched_ok s"
  shows "sched_ok (woken i r s)"
proof -
  let ?ts = "update_first (\<lambda>t. ct_index t = i) (awake r) (sc_threads s)"
  have dist: "distinct (map ct_index (sc_threads s))" using ok by (simp add: sched_ok_def)
  have "\<exists>t \<in> set ?ts. waits_on w j t"
    if j: "j < length (sc_objects s)" and w: "w \<in> set (wakers_of (sc_objects s ! j))" "wk_thread w \<noteq> i" for j w
  proof -
    obtain t where t: "t \<in> set (sc_threads s)" "waits_on w j t"
      using ok j w by (auto simp: sched_ok_def queues_live_def)
    then have "ct_index t \<noteq> i" using w(2) by (simp add: waits_on_def)
    then show ?thesis using t in_update_first [OF dist] by auto
  qed
  moreover have "list_all (\<lambda>t. ct_state t = Waiting \<longrightarrow> ct_wait_type t \<noteq> None) ?ts"
    using ok by (auto simp: sched_ok_def list_all_iff in_update_first [OF dist] awake_def split: if_splits)
  ultimately show ?thesis
    using ok by (auto simp: sched_ok_def woken_def queues_live_def list_all_iff)
qed

lemma find_thread_iff:
  assumes "distinct (map ct_index ts)"
  shows "find_thread i ts = Ret t \<longleftrightarrow> t \<in> set ts \<and> ct_index t = i"
  using find_key_Some_iff [OF assms, of i t] by (simp add: find_thread_def)

lemma put_thread_awake:
  assumes "distinct (map ct_index ts)" "t \<in> set ts"
  shows "put_thread (ct_index t) (awake r t) ts = update_first (\<lambda>u. ct_index u = ct_index t) (awake r) ts"
  using assms by (induction ts) (auto simp: put_thread_def image_iff)

text \<open>The resume value an object gives a thread that waits for it.\<close>

definition object_resume :: "oid \<Rightarrow> common_thread \<Rightarrow> thread_resume" where
  "object_resume obj t =
     (if ct_wait_type t = Some WaitSyncN
      then ResumeWaitSyncN (the (position obj (ct_wait_objects t))) else ResumeNormal)"

lemma position_in: "x \<in> set xs \<Longrightarrow> \<exists>n. position x xs = Some n \<and> n < length xs \<and> xs ! n = x"
  by (induction xs) auto

lemma wake_up_object:
  assumes "waits_on w obj t"
    and "fold (\<lambda>i. modify_object i (remove_wakers (ct_index t))) (ct_wait_objects t) objs =
      map (remove_wakers (ct_index t)) objs"
  shows "wake_up (WakeObject obj) objs t =
    Ret (awake (object_resume obj t) t, map (remove_wakers (ct_index t)) objs)"
proof -
  obtain n where "position obj (ct_wait_objects t) = Some n"
    using assms(1) position_in by (fastforce simp: waits_on_def)
  then show ?thesis
    using assms by (auto simp: waits_on_def wake_up_def Let_def awake_def object_resume_def)
qed

lemma wake_up_timeout:
  assumes "ct_wait_type t = Some wt"
    and "fold (\<lambda>i. modify_object i (remove_wakers (ct_index t))) (ct_wait_objects t) objs =
      map (remove_wakers (ct_index t)) objs"
  shows "wake_up WakeTimeout objs t =
    Ret (awake (if wt = WaitSleep then ResumeNormal else ResumeTimeoutReached) t,
         map (remove_wakers (ct_index t)) objs)"
  using assms by (cases wt) (auto simp: wake_up_def Let_def awake_def)

text \<open>Waking a thread through the waker of a wait that is still on succeeds.\<close>

lemma waker_wake_waiting:
  assumes ok: "sched_ok s" and t: "t \<in> set (sc_threads s)" "waits_on w i t"
  shows "waker_wake w i s = Ret (True, woken (wk_thread w) (object_resume i t) s)"
proof -
  have dist: "distinct (map ct_index (sc_threads s))" using ok by (simp add: sched_ok_def)
  have idx: "ct_index t = wk_thread w" "ct_wake_key t = wk_key w" using t(2) by (simp_all add: waits_on_def)
  have found: "find_thread (wk_thread w) (sc_threads s) = Ret t"
    using find_thread_iff [OF dist] t(1) idx by simp
  have "fold (\<lambda>i. modify_object i (remove_wakers (ct_index t))) (ct_wait_objects t) (sc_objects s) =
      map (remove_wakers (ct_index t)) (sc_objects s)"
    using remove_everywhere [OF dist _ t(1), of "sc_objects s"] ok by (simp add: sched_ok_def)
  from wake_up_object [OF t(2) this] show ?thesis
    using found idx put_thread_awake [OF dist t(1)]
    by (simp add: waker_wake_def wake_up_thread_def woken_def)
qed

text \<open>What \<open>woken\<close> does to the queues and to the threads.\<close>

lemma woken_objects [simp]:
  "sc_objects (woken i r s) = map (remove_wakers i) (sc_objects s)"
  "length (sc_objects (woken i r s)) = length (sc_objects s)"
  by (simp_all add: woken_def)

lemma woken_threads:
  assumes "distinct (map ct_index (sc_threads s))"
  shows "t \<in> set (sc_threads (woken i r s)) \<longleftrightarrow>
    (t \<in> set (sc_threads s) \<and> ct_index t \<noteq> i) \<or> (\<exists>t' \<in> set (sc_threads s). ct_index t' = i \<and> t = awake r t')"
  using in_update_first [OF assms, of t i "awake r"] by (auto simp: woken_def)

text \<open>The thread with an index.\<close>

definition thread_at :: "('t, 'z) sched_scheme \<Rightarrow> tid \<Rightarrow> common_thread option" where
  "thread_at s i = find (\<lambda>t. ct_index t = i) (sc_threads s)"

lemma thread_at_woken:
  "thread_at (woken i r s) j = (if j = i then map_option (awake r) (thread_at s i) else thread_at s j)"
proof -
  have "find (\<lambda>t. ct_index t = j) (update_first (\<lambda>t. ct_index t = i) (awake r) ts) =
    (if j = i then map_option (awake r) (find (\<lambda>t. ct_index t = i) ts) else find (\<lambda>t. ct_index t = j) ts)" for ts
    by (induction ts) auto
  then show ?thesis by (simp add: thread_at_def woken_def)
qed

lemma thread_at_iff:
  "distinct (map ct_index (sc_threads s)) \<Longrightarrow> thread_at s i = Some t \<longleftrightarrow> t \<in> set (sc_threads s) \<and> ct_index t = i"
  by (simp add: thread_at_def find_key_Some_iff)

lemma queued_thread_at:
  assumes ok: "sched_ok s" and i: "i < length (sc_objects s)" and w: "w \<in> set (wakers_of (sc_objects s ! i))"
  shows "\<exists>t. thread_at s (wk_thread w) = Some t \<and> waits_on w i t \<and>
    waker_wake w i s = Ret (True, woken (wk_thread w) (object_resume i t) s)"
proof -
  obtain t where t: "t \<in> set (sc_threads s)" "waits_on w i t"
    using ok i w by (auto simp: sched_ok_def queues_live_def)
  moreover have "thread_at s (wk_thread w) = Some t"
    using t ok by (simp add: thread_at_iff sched_ok_def waits_on_def)
  ultimately show ?thesis using waker_wake_waiting [OF ok] by blast
qed

text \<open>A waker whose thread has moved on wakes nobody.\<close>

lemma waker_wake_stale:
  assumes "thread_at s (wk_thread w) = Some t" "ct_wake_key t \<noteq> wk_key w"
  shows "waker_wake w i s = Ret (False, s)"
  using assms by (simp add: thread_at_def waker_wake_def wake_up_thread_def find_thread_def)

section \<open>Timeouts\<close>

definition thread_due :: "u64 \<Rightarrow> common_thread \<Rightarrow> bool" where
  "thread_due time t \<longleftrightarrow>
     ct_state t = Waiting \<and> (case ct_wait_timeout t of None \<Rightarrow> False | Some timeout \<Rightarrow> timeout \<le> time)"

definition timeout_resume :: "common_thread \<Rightarrow> thread_resume" where
  "timeout_resume t = (if ct_wait_type t = Some WaitSleep then ResumeNormal else ResumeTimeoutReached)"

definition thread_ticked :: "u64 \<Rightarrow> common_thread \<Rightarrow> common_thread" where
  "thread_ticked time t = (if thread_due time t then awake (timeout_resume t) t else t)"

lemma thread_ticked_simps [simp]:
  "thread_due time t \<Longrightarrow> thread_ticked time t = awake (timeout_resume t) t"
  "\<not> thread_due time t \<Longrightarrow> thread_ticked time t = t"
  by (simp_all add: thread_ticked_def)

lemma update_first_middle:
  "distinct (map ct_index (pre @ t # ts)) \<Longrightarrow>
     update_first (\<lambda>u. ct_index u = ct_index t) f (pre @ t # ts) = pre @ f t # ts"
  by (induction pre) auto

lemma tick_threads_step:
  assumes ok: "sched_ok \<lparr>sc_objects = objs, sc_threads = pre @ t # ts\<rparr>" and due: "thread_due time t"
  shows "wake_up WakeTimeout objs t = Ret (awake (timeout_resume t) t, map (remove_wakers (ct_index t)) objs)"
    and "sched_ok \<lparr>sc_objects = map (remove_wakers (ct_index t)) objs,
      sc_threads = pre @ awake (timeout_resume t) t # ts\<rparr>"
proof -
  let ?s = "\<lparr>sc_objects = objs, sc_threads = pre @ t # ts\<rparr>"
  have dist: "distinct (map ct_index (pre @ t # ts))" using ok by (simp add: sched_ok_def)
  obtain wt where wt: "ct_wait_type t = Some wt" using ok due by (auto simp: sched_ok_def thread_due_def)
  have "fold (\<lambda>i. modify_object i (remove_wakers (ct_index t))) (ct_wait_objects t) objs =
      map (remove_wakers (ct_index t)) objs"
    using remove_everywhere [OF dist, of objs t] ok by (simp add: sched_ok_def)
  from wake_up_timeout [OF wt this]
  show "wake_up WakeTimeout objs t = Ret (awake (timeout_resume t) t, map (remove_wakers (ct_index t)) objs)"
    using wt by (simp add: timeout_resume_def)
  show "sched_ok \<lparr>sc_objects = map (remove_wakers (ct_index t)) objs,
      sc_threads = pre @ awake (timeout_resume t) t # ts\<rparr>"
    using sched_ok_woken [OF ok, of "ct_index t" "timeout_resume t"] update_first_middle [OF dist]
    by (simp add: woken_def)
qed

lemma tick_threads_all:
  assumes "sched_ok \<lparr>sc_objects = objs, sc_threads = pre @ ts\<rparr>"
  shows "\<exists>objs'. tick_threads time ts objs = Ret (map (thread_ticked time) ts, objs') \<and>
    sched_ok \<lparr>sc_objects = objs', sc_threads = pre @ map (thread_ticked time) ts\<rparr> \<and>
    objs' = map (fold remove_wakers (map ct_index (filter (thread_due time) ts))) objs"
  using assms
proof (induction ts arbitrary: pre objs)
  case Nil
  then show ?case by simp
next
  case (Cons t ts)
  show ?case
  proof (cases "thread_due time t")
    case True
    note step = tick_threads_step [OF Cons.prems True]
    obtain objs' where IH:
      "tick_threads time ts (map (remove_wakers (ct_index t)) objs) = Ret (map (thread_ticked time) ts, objs')"
      "sched_ok \<lparr>sc_objects = objs', sc_threads = (pre @ [awake (timeout_resume t) t]) @ map (thread_ticked time) ts\<rparr>"
      "objs' = map (fold remove_wakers (map ct_index (filter (thread_due time) ts)))
         (map (remove_wakers (ct_index t)) objs)"
      using Cons.IH [of "map (remove_wakers (ct_index t)) objs" "pre @ [awake (timeout_resume t) t]"] step(2)
      by auto
    obtain out where out: "ct_wait_timeout t = Some out" "out \<le> time" "ct_state t = Waiting"
      using True by (auto simp: thread_due_def split: option.splits)
    have "tick_threads time (t # ts) objs = Ret (map (thread_ticked time) (t # ts), objs')"
      using True step(1) IH(1) out by simp
    then show ?thesis using True IH(2,3) by (simp add: comp_def del: tick_threads.simps)
  next
    case False
    obtain objs' where IH:
      "tick_threads time ts objs = Ret (map (thread_ticked time) ts, objs')"
      "sched_ok \<lparr>sc_objects = objs', sc_threads = (pre @ [t]) @ map (thread_ticked time) ts\<rparr>"
      "objs' = map (fold remove_wakers (map ct_index (filter (thread_due time) ts))) objs"
      using Cons.IH [of objs "pre @ [t]"] Cons.prems by auto
    have "tick_threads time (t # ts) objs = Ret (t # map (thread_ticked time) ts, objs')"
      using False IH(1) by (cases "ct_state t") (auto simp: thread_due_def split: option.splits)
    then show ?thesis using IH(2,3) False by (simp del: tick_threads.simps)
  qed
qed

section \<open>Suspending\<close>

lemma thread_unqueued:
  assumes "sched_ok s" "thread_at s i = Some t" "ct_state t \<noteq> Waiting" "j < length (sc_objects s)"
  shows "i \<notin> wk_thread ` set (wakers_of (sc_objects s ! j))"
proof
  assume "i \<in> wk_thread ` set (wakers_of (sc_objects s ! j))"
  then obtain w where w: "w \<in> set (wakers_of (sc_objects s ! j))" "wk_thread w = i" by auto
  then obtain t' where "t' \<in> set (sc_threads s)" "waits_on w j t'"
    using assms(1,4) by (auto simp: sched_ok_def queues_live_def)
  then show False
    using assms(1-3) w(2) thread_unique [of "sc_threads s" t t']
    by (auto simp: sched_ok_def thread_at_iff waits_on_def)
qed

text \<open>A running thread suspends itself: it is then waiting for the objects, in nobody's queue
  yet, and the waker it gets is for this wait.\<close>

lemma suspend_current_ok:
  assumes ok: "sched_ok s" and t: "thread_at s i = Some t" "ct_state t = Running"
  shows "\<exists>s' t'. suspend_current i objects timeout wt s =
      Ret (\<lparr>wk_thread = i, wk_key = ct_wake_key t\<rparr>, s') \<and> sched_ok s' \<and>
    t' = t\<lparr>ct_wait_objects := objects, ct_state := Waiting, ct_wait_timeout := timeout, ct_wait_type := Some wt\<rparr> \<and>
    thread_at s' i = Some t' \<and> (\<forall>j. j \<noteq> i \<longrightarrow> thread_at s' j = thread_at s j) \<and>
    sc_objects s' = sc_objects s"
proof -
  let ?t' = "t\<lparr>ct_wait_objects := objects, ct_state := Waiting, ct_wait_timeout := timeout, ct_wait_type := Some wt\<rparr>"
  let ?s' = "s\<lparr>sc_threads := put_thread i ?t' (sc_threads s)\<rparr>"
  have dist: "distinct (map ct_index (sc_threads s))" using ok by (simp add: sched_ok_def)
  have in_t: "t \<in> set (sc_threads s)" "ct_index t = i" using t(1) thread_at_iff [OF dist] by simp_all
  have found: "find_thread i (sc_threads s) = Ret t" using in_t find_thread_iff [OF dist] by simp
  have idx: "map ct_index (put_thread i ?t' (sc_threads s)) = map ct_index (sc_threads s)"
    unfolding put_thread_def by (rule map_update_first) (simp add: in_t(2))
  have at_i: "thread_at ?s' i = Some ?t'"
    using t(1) in_t(2) unfolding thread_at_def put_thread_def
    by (simp add: find_update_first [where f = "\<lambda>_. ?t'"])
  have at_j: "thread_at ?s' j = thread_at s j" if "j \<noteq> i" for j
  proof -
    have "find (\<lambda>u. ct_index u = j) (put_thread i ?t' (sc_threads s)) = find (\<lambda>u. ct_index u = j) (sc_threads s)"
      unfolding put_thread_def by (rule find_update_first_other) (use that in_t(2) in auto)
    then show ?thesis by (simp add: thread_at_def)
  qed
  have sub: "set (put_thread i ?t' (sc_threads s)) \<subseteq> insert ?t' (set (sc_threads s))"
    using set_update_first by (fastforce simp: put_thread_def)
  have "\<exists>u \<in> set (sc_threads ?s'). waits_on w j u"
    if j: "j < length (sc_objects s)" and w: "w \<in> set (wakers_of (sc_objects s ! j))" for j w
  proof -
    obtain u where u: "u \<in> set (sc_threads s)" "waits_on w j u"
      using ok j w by (auto simp: sched_ok_def queues_live_def)
    have ne: "ct_index u \<noteq> i"
      using thread_unqueued [OF ok t(1) _ j] t(2) w u(2) by (auto simp: waits_on_def)
    have "thread_at ?s' (ct_index u) = Some u" using at_j [OF ne] u(1) thread_at_iff [OF dist] by simp
    moreover have "distinct (map ct_index (sc_threads ?s'))" using dist idx by simp
    ultimately show ?thesis using u(2) by (auto simp: thread_at_iff)
  qed
  then have "sched_ok ?s'"
    using ok idx sub by (auto simp: sched_ok_def queues_live_def list_all_iff)
  then show ?thesis
    using found t(2) at_i at_j in_t(2)
    by (auto simp: suspend_current_def thread_wait_def Let_def)
qed

end
