(* ===== verification/SyncObjects.thy ===== *)
theory SyncObjects
  imports Threads
begin

text \<open>
  The synchronization objects of \<open>hle/src\<close>: \<open>event.rs\<close>, \<open>timer.rs\<close>, \<open>mutex.rs\<close>, the thread
  objects of \<open>thread.rs\<close> and the address arbiter of \<open>arbiter.rs\<close>.

  Each method takes the position \<open>this\<close> of its object and the state; the object it runs on is
  of the method's own type, so the other cases of the accessors cannot arise.
\<close>

section \<open>Access to an object's cells\<close>

definition object_at :: "('t, 'z) sched_scheme \<Rightarrow> oid \<Rightarrow> 't kobj option" where
  "object_at s i = (if i < length (sc_objects s) then Some (sc_objects s ! i) else None)"

definition map_object :: "oid \<Rightarrow> ('t kobj \<Rightarrow> 't kobj) \<Rightarrow> ('t, 'z) sched_scheme \<Rightarrow> ('t, 'z) sched_scheme" where
  "map_object i f s = s\<lparr>sc_objects := modify_object i f (sc_objects s)\<rparr>"

fun map_event :: "(event \<Rightarrow> event) \<Rightarrow> 't kobj \<Rightarrow> 't kobj" where
  "map_event f (Event e) = Event (f e)"
| "map_event f obj = obj"

fun map_timer :: "(timer \<Rightarrow> timer) \<Rightarrow> 't kobj \<Rightarrow> 't kobj" where
  "map_timer f (Timer t) = Timer (f t)"
| "map_timer f obj = obj"

fun map_mutex :: "(mutex \<Rightarrow> mutex) \<Rightarrow> 't kobj \<Rightarrow> 't kobj" where
  "map_mutex f (Mutex m) = Mutex (f m)"
| "map_mutex f obj = obj"

fun map_thread_object :: "(thread_object \<Rightarrow> thread_object) \<Rightarrow> 't kobj \<Rightarrow> 't kobj" where
  "map_thread_object f (ThreadObject t) = ThreadObject (f t)"
| "map_thread_object f obj = obj"

fun map_arbiter :: "(arbiter \<Rightarrow> arbiter) \<Rightarrow> 't kobj \<Rightarrow> 't kobj" where
  "map_arbiter f (Arbiter a) = Arbiter (f a)"
| "map_arbiter f obj = obj"

definition event_at :: "('t, 'z) sched_scheme \<Rightarrow> oid \<Rightarrow> event res" where
  "event_at s i = (case object_at s i of Some (Event e) \<Rightarrow> Ret e | _ \<Rightarrow> Panic Unreachable)"

definition timer_at :: "('t, 'z) sched_scheme \<Rightarrow> oid \<Rightarrow> timer res" where
  "timer_at s i = (case object_at s i of Some (Timer t) \<Rightarrow> Ret t | _ \<Rightarrow> Panic Unreachable)"

definition mutex_at :: "('t, 'z) sched_scheme \<Rightarrow> oid \<Rightarrow> mutex res" where
  "mutex_at s i = (case object_at s i of Some (Mutex m) \<Rightarrow> Ret m | _ \<Rightarrow> Panic Unreachable)"

definition thread_object_at :: "('t, 'z) sched_scheme \<Rightarrow> oid \<Rightarrow> thread_object res" where
  "thread_object_at s i = (case object_at s i of Some (ThreadObject t) \<Rightarrow> Ret t | _ \<Rightarrow> Panic Unreachable)"

definition arbiter_at :: "('t, 'z) sched_scheme \<Rightarrow> oid \<Rightarrow> arbiter res" where
  "arbiter_at s i = (case object_at s i of Some (Arbiter a) \<Rightarrow> Ret a | _ \<Rightarrow> Panic Unreachable)"

section \<open>Waking\<close>

text \<open>Waking every waker of a queue, whether or not its thread is still there, and waking one
  that has to be.\<close>

definition wake_each :: "oid \<Rightarrow> waker list \<Rightarrow> ('t, 'z) sched_scheme \<Rightarrow> ('t, 'z) sched_scheme res" where
  "wake_each this ws s = fold_res (\<lambda>w s. and_then (waker_wake w this s) (\<lambda>(_, s'). Ret s')) ws s"

definition wake_or_panic ::
  "string \<Rightarrow> oid \<Rightarrow> waker \<Rightarrow> ('t, 'z) sched_scheme \<Rightarrow> ('t, 'z) sched_scheme res" where
  "wake_or_panic msg this w s =
     and_then (waker_wake w this s) (\<lambda>(woken, s'). if woken then Ret s' else Panic (Expect msg))"

section \<open>Events\<close>

definition event_new :: "reset_type \<Rightarrow> event" where
  "event_new r = \<lparr>ev_signal = signal_new r, ev_queue = []\<rparr>"

definition event_wait :: "oid \<Rightarrow> waker \<Rightarrow> ('t, 'z) sched_scheme \<Rightarrow> ('t, 'z) sched_scheme res" where
  "event_wait this waker s =
     and_then (event_at s this) (\<lambda>e.
     let (signaled, sg) = signal_consume (ev_signal e);
         s1 = map_object this (map_event (\<lambda>e. e\<lparr>ev_signal := sg\<rparr>)) s in
     if signaled
     then and_then (waker_wake waker this s1) (\<lambda>(woken, s2).
          Ret (if woken then s2
               else map_object this (map_event (\<lambda>e. e\<lparr>ev_signal := signal_unconsume (ev_signal e)\<rparr>)) s2))
     else Ret (map_object this (map_event (\<lambda>e. e\<lparr>ev_queue := ev_queue e @ [waker]\<rparr>)) s1))"

definition event_signal :: "oid \<Rightarrow> ('t, 'z) sched_scheme \<Rightarrow> ('t, 'z) sched_scheme res" where
  "event_signal this s =
     and_then (event_at s this) (\<lambda>e.
     let s1 = map_object this (map_event (\<lambda>e. e\<lparr>ev_signal := signal_signal (ev_signal e)\<rparr>)) s;
         take_queue = map_object this (map_event (\<lambda>e. e\<lparr>ev_queue := []\<rparr>)) in
     if signal_is_sticky (ev_signal e)
     then and_then (wake_each this (ev_queue e) (take_queue s1)) (\<lambda>s2. Ret (take_queue s2))
     else (case ev_queue e of
             [] \<Rightarrow> Ret s1
           | waker # _ \<Rightarrow>
               and_then (wake_or_panic ''Failed to wake up thread'' this waker s1) (\<lambda>s2.
               Ret (map_object this (map_event (\<lambda>e. e\<lparr>ev_signal := signal_clear (ev_signal e)\<rparr>)) s2))))"

definition event_clear :: "oid \<Rightarrow> ('t, 'z) sched_scheme \<Rightarrow> ('t, 'z) sched_scheme" where
  "event_clear this s = map_object this (map_event (\<lambda>e. e\<lparr>ev_signal := signal_clear (ev_signal e)\<rparr>)) s"

section \<open>Timers\<close>

definition timer_new :: "reset_type \<Rightarrow> timer" where
  "timer_new r = \<lparr>tm_signal = signal_new r, tm_queue = [], tm_next_ns = - 1, tm_interval = - 1\<rparr>"

definition timer_valid :: "timer \<Rightarrow> bool" where
  "timer_valid t \<longleftrightarrow> sint (tm_next_ns t) \<ge> 0 \<and> sint (tm_interval t) \<ge> 0"

definition timer_wait :: "oid \<Rightarrow> waker \<Rightarrow> ('t, 'z) sched_scheme \<Rightarrow> ('t, 'z) sched_scheme res" where
  "timer_wait this waker s =
     and_then (timer_at s this) (\<lambda>t.
     let (signaled, sg) = signal_consume (tm_signal t);
         s1 = map_object this (map_timer (\<lambda>t. t\<lparr>tm_signal := sg\<rparr>)) s in
     if signaled
     then and_then (waker_wake waker this s1) (\<lambda>(woken, s2).
          Ret (if woken then s2
               else map_object this (map_timer (\<lambda>t. t\<lparr>tm_signal := signal_unconsume (tm_signal t)\<rparr>)) s2))
     else Ret (map_object this (map_timer (\<lambda>t. t\<lparr>tm_queue := tm_queue t @ [waker]\<rparr>)) s1))"

definition timer_set :: "oid \<Rightarrow> 64 word \<Rightarrow> 64 word \<Rightarrow> ('t, 'z) sched_scheme \<Rightarrow> ('t, 'z) sched_scheme" where
  "timer_set this initial_ns interval s =
     map_object this (map_timer (\<lambda>t. t\<lparr>tm_next_ns := initial_ns, tm_interval := interval\<rparr>)) s"

definition timer_cancel :: "oid \<Rightarrow> ('t, 'z) sched_scheme \<Rightarrow> ('t, 'z) sched_scheme" where
  "timer_cancel this s = timer_set this (- 1) (- 1) s"

definition timer_tick :: "oid \<Rightarrow> u64 \<Rightarrow> ('t, 'z) sched_scheme \<Rightarrow> ('t, 'z) sched_scheme res" where
  "timer_tick this time_ns s =
     and_then (timer_at s this) (\<lambda>t.
     if timer_valid t \<and> tm_next_ns t \<le> time_ns
     then
       let s1 = map_object this (map_timer (\<lambda>t. t\<lparr>tm_signal := signal_signal (tm_signal t)\<rparr>)) s;
           take_queue = map_object this (map_timer (\<lambda>t. t\<lparr>tm_queue := []\<rparr>)) in
       and_then
         (if signal_is_pulse (tm_signal t)
          then and_then (cadd time_ns (tm_interval t)) (\<lambda>next. Ret (timer_set this next (tm_interval t) s1))
          else Ret (timer_set this (- 1) (- 1) s1)) (\<lambda>s2.
       if signal_is_sticky (tm_signal t)
       then and_then (wake_each this (tm_queue t) (take_queue s2)) (\<lambda>s3. Ret (take_queue s3))
       else (case tm_queue t of
               [] \<Rightarrow> Ret s2
             | waker # _ \<Rightarrow>
                 and_then (wake_or_panic ''Failed to wake up thread'' this waker s2) (\<lambda>s3.
                 Ret (map_object this (map_timer (\<lambda>t. t\<lparr>tm_signal := signal_clear (tm_signal t)\<rparr>)) s3))))
     else Ret s)"

section \<open>Mutexes\<close>

definition mutex_new :: "bool \<Rightarrow> mutex" where
  "mutex_new acquired = \<lparr>mx_acquired = acquired, mx_queue = []\<rparr>"

definition mutex_wait :: "oid \<Rightarrow> waker \<Rightarrow> ('t, 'z) sched_scheme \<Rightarrow> ('t, 'z) sched_scheme res" where
  "mutex_wait this waker s =
     and_then (mutex_at s this) (\<lambda>m.
     let s1 = map_object this (map_mutex (\<lambda>m. m\<lparr>mx_acquired := True\<rparr>)) s in
     if \<not> mx_acquired m
     then and_then (waker_wake waker this s1) (\<lambda>(woken, s2).
          Ret (if woken then s2 else map_object this (map_mutex (\<lambda>m. m\<lparr>mx_acquired := False\<rparr>)) s2))
     else Ret (map_object this (map_mutex (\<lambda>m. m\<lparr>mx_queue := mx_queue m @ [waker]\<rparr>)) s1))"

definition mutex_release :: "oid \<Rightarrow> ('t, 'z) sched_scheme \<Rightarrow> ('t, 'z) sched_scheme res" where
  "mutex_release this s =
     and_then (mutex_at s this) (\<lambda>m.
     case mx_queue m of
       waker # _ \<Rightarrow> wake_or_panic ''Failed to wake up thread'' this waker s
     | [] \<Rightarrow> Ret (map_object this (map_mutex (\<lambda>m. m\<lparr>mx_acquired := False\<rparr>)) s))"

section \<open>Thread objects\<close>

definition thread_object_new :: "tid \<Rightarrow> thread_object" where
  "thread_object_new i = \<lparr>to_index = i, to_dead = False, to_queue = []\<rparr>"

definition thread_object_wait :: "oid \<Rightarrow> waker \<Rightarrow> ('t, 'z) sched_scheme \<Rightarrow> ('t, 'z) sched_scheme res" where
  "thread_object_wait this waker s =
     and_then (thread_object_at s this) (\<lambda>t.
     if to_dead t
     then and_then (waker_wake waker this s) (\<lambda>(_, s'). Ret s')
     else Ret (map_object this (map_thread_object (\<lambda>t. t\<lparr>to_queue := to_queue t @ [waker]\<rparr>)) s))"

definition thread_object_exit :: "oid \<Rightarrow> ('t, 'z) sched_scheme \<Rightarrow> ('t, 'z) sched_scheme res" where
  "thread_object_exit this s =
     and_then (thread_object_at s this) (\<lambda>t.
     if \<not> to_dead t
     then wake_each this (to_queue t)
            (map_object this (map_thread_object (\<lambda>t. t\<lparr>to_dead := True, to_queue := []\<rparr>)) s)
     else Ret s)"

section \<open>Address arbiters\<close>

definition arbiter_new :: arbiter where
  "arbiter_new = \<lparr>ab_queue = []\<rparr>"

definition arbiter_wait :: "oid \<Rightarrow> waker \<Rightarrow> u32 \<Rightarrow> ('t, 'z) sched_scheme \<Rightarrow> ('t, 'z) sched_scheme" where
  "arbiter_wait this waker addr s =
     map_object this (map_arbiter (\<lambda>a. a\<lparr>ab_queue := ab_queue a @ [(waker, addr)]\<rparr>)) s"

text \<open>\<open>drain_filter\<close> with its counter: the drained wakers and the entries that stay.\<close>

fun arbiter_drain ::
  "u32 \<Rightarrow> u32 \<Rightarrow> (waker \<times> u32) list \<Rightarrow> waker list \<times> (waker \<times> u32) list" where
  "arbiter_drain addr count [] = ([], [])"
| "arbiter_drain addr count ((waker, waker_addr) # es) =
     (if waker_addr = addr \<and> count > 0
      then let count' = (if count \<noteq> 0xFFFFFFFF then count - 1 else count);
               (drained, rest) = arbiter_drain addr count' es in
           (waker # drained, rest)
      else let (drained, rest) = arbiter_drain addr count es in
           (drained, (waker, waker_addr) # rest))"

definition arbiter_signal ::
  "oid \<Rightarrow> 32 word \<Rightarrow> u32 \<Rightarrow> ('t, 'z) sched_scheme \<Rightarrow> (bool \<times> ('t, 'z) sched_scheme) res" where
  "arbiter_signal this amount addr s =
     and_then (arbiter_at s this) (\<lambda>a.
     let signal_count = (if sint amount < 0 then 0xFFFFFFFF else amount);
         (drained, rest) = arbiter_drain addr signal_count (ab_queue a);
         s1 = map_object this (map_arbiter (\<lambda>a. a\<lparr>ab_queue := rest\<rparr>)) s in
     and_then
       (fold_res (wake_or_panic ''Failed to wake thread waiting on arbitration'' this) drained s1) (\<lambda>s2.
     Ret (drained \<noteq> [], s2)))"

section \<open>Observing the state\<close>

lemma object_at_map [simp]:
  "object_at (map_object i f s) j = (if i = j then map_option f (object_at s j) else object_at s j)"
  by (simp add: object_at_def map_object_def)

lemma object_at_woken [simp]: "object_at (woken i r s) j = map_option (remove_wakers i) (object_at s j)"
  by (simp add: object_at_def)

lemma thread_at_map [simp]: "thread_at (map_object i f s) = thread_at s"
  by (simp add: thread_at_def map_object_def fun_eq_iff)

lemma length_map_object [simp]: "length (sc_objects (map_object i f s)) = length (sc_objects s)"
  by (simp add: map_object_def)

lemma accessors [simp]:
  "event_at s i = Ret e \<longleftrightarrow> object_at s i = Some (Event e)"
  "timer_at s i = Ret t \<longleftrightarrow> object_at s i = Some (Timer t)"
  "mutex_at s i = Ret m \<longleftrightarrow> object_at s i = Some (Mutex m)"
  "thread_object_at s i = Ret th \<longleftrightarrow> object_at s i = Some (ThreadObject th)"
  "arbiter_at s i = Ret a \<longleftrightarrow> object_at s i = Some (Arbiter a)"
  by (auto simp: event_at_def timer_at_def mutex_at_def thread_object_at_def arbiter_at_def
      split: option.splits kobj.splits)

text \<open>The invariant in terms of what can be observed.\<close>

lemma sched_ok_observe:
  "sched_ok s \<longleftrightarrow>
     distinct (map ct_index (sc_threads s)) \<and>
     (\<forall>i obj w. object_at s i = Some obj \<and> w \<in> set (wakers_of obj) \<longrightarrow>
        (\<exists>t. thread_at s (wk_thread w) = Some t \<and> waits_on w i t)) \<and>
     (\<forall>i obj. object_at s i = Some obj \<longrightarrow> arbiter_queue_distinct obj) \<and>
     (\<forall>i t. thread_at s i = Some t \<and> ct_state t = Waiting \<longrightarrow> ct_wait_type t \<noteq> None)"
proof (cases "distinct (map ct_index (sc_threads s))")
  case True
  have "(\<exists>t \<in> set (sc_threads s). waits_on w i t) \<longleftrightarrow>
      (\<exists>t. thread_at s (wk_thread w) = Some t \<and> waits_on w i t)" for w i
    using thread_at_iff [OF True] by (auto simp: waits_on_def)
  moreover have "list_all arbiter_queue_distinct (sc_objects s) \<longleftrightarrow>
      (\<forall>i obj. object_at s i = Some obj \<longrightarrow> arbiter_queue_distinct obj)"
    by (auto simp: list_all_length object_at_def)
  moreover have "list_all (\<lambda>t. ct_state t = Waiting \<longrightarrow> ct_wait_type t \<noteq> None) (sc_threads s) \<longleftrightarrow>
      (\<forall>i t. thread_at s i = Some t \<and> ct_state t = Waiting \<longrightarrow> ct_wait_type t \<noteq> None)"
    using thread_at_iff [OF True] by (auto simp: list_all_iff)
  ultimately show ?thesis
    using True by (auto simp: sched_ok_def queues_live_def object_at_def)
qed (simp add: sched_ok_def)

lemma sched_ok_map_object:
  assumes "sched_ok s"
    and "\<And>obj. object_at s i = Some obj \<Longrightarrow>
      set (wakers_of (f obj)) \<subseteq> set (wakers_of obj) \<and> arbiter_queue_distinct (f obj)"
  shows "sched_ok (map_object i f s)"
proof -
  have "sc_threads (map_object i f s) = sc_threads s" by (simp add: map_object_def)
  then show ?thesis
    using assms unfolding sched_ok_observe by (auto split: if_splits) blast+
qed

lemma queued_live:
  assumes "sched_ok s" "object_at s i = Some obj" "w \<in> set (wakers_of obj)"
  shows "\<exists>t. thread_at s (wk_thread w) = Some t \<and> waits_on w i t"
  using assms unfolding sched_ok_observe by blast

lemma waker_wake_live:
  assumes "sched_ok s" "thread_at s (wk_thread w) = Some t" "waits_on w i t"
  shows "waker_wake w i s = Ret (True, woken (wk_thread w) (object_resume i t) s)"
  using assms waker_wake_waiting [OF assms(1)] by (simp add: thread_at_iff sched_ok_def)

lemma awake_not_waiting [simp]: "ct_state (awake r t) = Ready" "ct_wake_key (awake r t) = ct_wake_key t + 1"
  by (simp_all add: awake_def)

lemma not_waiting_absent:
  assumes "sched_ok s" "thread_at s i = Some t" "ct_state t \<noteq> Waiting" "object_at s j = Some obj"
  shows "remove_wakers i obj = obj"
proof (rule remove_wakers_absent, rule notI)
  assume "i \<in> wk_thread ` set (wakers_of obj)"
  then obtain w where "w \<in> set (wakers_of obj)" "wk_thread w = i" by auto
  then show False using queued_live [OF assms(1,4)] assms(2,3) by (fastforce simp: waits_on_def)
qed

section \<open>Waking a whole queue\<close>

text \<open>Each of the wakers is either of a wait for the object that is on, or of a thread that is
  no longer waiting at all.\<close>

definition queue_fits :: "('t, 'z) sched_scheme \<Rightarrow> oid \<Rightarrow> waker list \<Rightarrow> bool" where
  "queue_fits s i ws \<longleftrightarrow>
     (\<forall>w \<in> set ws. \<exists>t. thread_at s (wk_thread w) = Some t \<and>
        (waits_on w i t \<or> ct_state t \<noteq> Waiting \<and> ct_wake_key t \<noteq> wk_key w))"

lemma fold_remove_wakers_absent:
  "(\<forall>i \<in> set is. i \<notin> wk_thread ` set (wakers_of obj)) \<Longrightarrow> fold remove_wakers is obj = obj"
  by (induction "is") (auto simp: remove_wakers_absent)

lemma wake_each_fits:
  assumes "sched_ok s" "queue_fits s i ws"
  shows "\<exists>s'. wake_each i ws s = Ret s' \<and> sched_ok s' \<and>
    length (sc_objects s') = length (sc_objects s) \<and>
    (\<forall>j. thread_at s' j =
       (if \<exists>w \<in> set ws. wk_thread w = j \<and> (\<exists>t. thread_at s j = Some t \<and> waits_on w i t)
        then map_option (\<lambda>t. awake (object_resume i t) t) (thread_at s j) else thread_at s j)) \<and>
    (\<forall>j. object_at s' j = map_option (fold remove_wakers (map wk_thread ws)) (object_at s j))"
  using assms
proof (induction ws arbitrary: s)
  case Nil
  then show ?case by (simp add: wake_each_def option.map_id0 option.map_ident)
next
  case (Cons w ws)
  obtain t where t: "thread_at s (wk_thread w) = Some t"
      "waits_on w i t \<or> ct_state t \<noteq> Waiting \<and> ct_wake_key t \<noteq> wk_key w"
    using Cons.prems(2) by (auto simp: queue_fits_def)
  show ?case
  proof (cases "waits_on w i t")
    case True
    let ?s = "woken (wk_thread w) (object_resume i t) s"
    have ok: "sched_ok ?s" using Cons.prems(1) by (rule sched_ok_woken)
    have fits: "queue_fits ?s i ws"
      using Cons.prems(2) t(1) True
      by (auto simp: queue_fits_def thread_at_woken waits_on_def)
    obtain s' where s': "wake_each i ws ?s = Ret s'" "sched_ok s'"
        "length (sc_objects s') = length (sc_objects ?s)"
        "\<And>j. thread_at s' j =
       (if \<exists>w \<in> set ws. wk_thread w = j \<and> (\<exists>t. thread_at ?s j = Some t \<and> waits_on w i t)
        then map_option (\<lambda>t. awake (object_resume i t) t) (thread_at ?s j) else thread_at ?s j)"
        "\<And>j. object_at s' j = map_option (fold remove_wakers (map wk_thread ws)) (object_at ?s j)"
      using Cons.IH [OF ok fits] by blast
    have "wake_each i (w # ws) s = Ret s'"
      using s'(1) waker_wake_live [OF Cons.prems(1) t(1) True] by (simp add: wake_each_def)
    moreover have "thread_at s' j =
       (if \<exists>w \<in> set (w # ws). wk_thread w = j \<and> (\<exists>t. thread_at s j = Some t \<and> waits_on w i t)
        then map_option (\<lambda>t. awake (object_resume i t) t) (thread_at s j) else thread_at s j)" for j
      using s'(4) [of j] t(1) True
      by (cases "j = wk_thread w") (auto simp: thread_at_woken waits_on_def)
    ultimately show ?thesis
      using s'(2,3,5) by (intro exI [of _ s']) (simp add: option.map_comp comp_def)
  next
    case False
    then have stale: "ct_state t \<noteq> Waiting" "ct_wake_key t \<noteq> wk_key w" using t(2) by auto
    have fits: "queue_fits s i ws" using Cons.prems(2) by (simp add: queue_fits_def)
    obtain s' where s': "wake_each i ws s = Ret s'" "sched_ok s'"
        "length (sc_objects s') = length (sc_objects s)"
        "\<And>j. thread_at s' j =
       (if \<exists>w \<in> set ws. wk_thread w = j \<and> (\<exists>t. thread_at s j = Some t \<and> waits_on w i t)
        then map_option (\<lambda>t. awake (object_resume i t) t) (thread_at s j) else thread_at s j)"
        "\<And>j. object_at s' j = map_option (fold remove_wakers (map wk_thread ws)) (object_at s j)"
      using Cons.IH [OF Cons.prems(1) fits] by blast
    have "wake_each i (w # ws) s = Ret s'"
      using s'(1) waker_wake_stale [OF t(1) stale(2)] by (simp add: wake_each_def)
    moreover have absent: "map_option (remove_wakers (wk_thread w)) (object_at s j) = object_at s j" for j
      using not_waiting_absent [OF Cons.prems(1) t(1) stale(1)] by (cases "object_at s j") auto
    then have "object_at s' j = map_option (fold remove_wakers (map wk_thread (w # ws))) (object_at s j)" for j
      using s'(5) [of j] absent [of j] by (cases "object_at s j") auto
    moreover have "thread_at s' j =
       (if \<exists>w \<in> set (w # ws). wk_thread w = j \<and> (\<exists>t. thread_at s j = Some t \<and> waits_on w i t)
        then map_option (\<lambda>t. awake (object_resume i t) t) (thread_at s j) else thread_at s j)" for j
      using s'(4) [of j] t(1) False by auto
    ultimately show ?thesis using s'(2,3) by blast
  qed
qed

lemma queued_fits:
  assumes "sched_ok s" "object_at s i = Some obj"
  shows "queue_fits s i (wakers_of obj)"
  using queued_live [OF assms] by (auto simp: queue_fits_def)

lemma queue_fits_map [simp]: "queue_fits (map_object j f s) i ws = queue_fits s i ws"
  by (simp add: queue_fits_def)

text \<open>Waking the first waker of a queue.\<close>

lemma wake_first:
  assumes "sched_ok s" "object_at s i = Some obj" "w \<in> set (wakers_of obj)"
  shows "\<exists>t. thread_at s (wk_thread w) = Some t \<and>
    wake_or_panic msg i w s = Ret (woken (wk_thread w) (object_resume i t) s)"
  using queued_live [OF assms] waker_wake_live [OF assms(1)] by (force simp: wake_or_panic_def)

text \<open>A queue that was woken entirely, seen thread by thread.\<close>

definition all_woken :: "oid \<Rightarrow> waker list \<Rightarrow> ('t, 'z) sched_scheme \<Rightarrow> ('t, 'z) sched_scheme \<Rightarrow> bool" where
  "all_woken i ws s s' \<longleftrightarrow>
     (\<forall>j. thread_at s' j =
        (if j \<in> wk_thread ` set ws
         then map_option (\<lambda>t. awake (object_resume i t) t) (thread_at s j) else thread_at s j)) \<and>
     (\<forall>j. j \<noteq> i \<longrightarrow> object_at s' j = map_option (fold remove_wakers (map wk_thread ws)) (object_at s j))"

lemma wake_queue:
  assumes ok: "sched_ok s" and i: "object_at s i = Some obj"
    and ok1: "sched_ok (map_object i f s)"
  shows "\<exists>s'. wake_each i (wakers_of obj) (map_object i f s) = Ret s' \<and> sched_ok s' \<and>
    all_woken i (wakers_of obj) s s' \<and>
    object_at s' i = Some (fold remove_wakers (map wk_thread (wakers_of obj)) (f obj))"
proof -
  have fits: "queue_fits (map_object i f s) i (wakers_of obj)"
    using queued_fits [OF ok i] by simp
  obtain s' where s': "wake_each i (wakers_of obj) (map_object i f s) = Ret s'" "sched_ok s'"
    "\<And>j. thread_at s' j =
       (if \<exists>w \<in> set (wakers_of obj). wk_thread w = j \<and> (\<exists>t. thread_at s j = Some t \<and> waits_on w i t)
        then map_option (\<lambda>t. awake (object_resume i t) t) (thread_at s j) else thread_at s j)"
    "\<And>j. object_at s' j = map_option (fold remove_wakers (map wk_thread (wakers_of obj)))
       (object_at (map_object i f s) j)"
    using wake_each_fits [OF ok1 fits] unfolding thread_at_map by blast
  have "thread_at s' j = (if j \<in> wk_thread ` set (wakers_of obj)
      then map_option (\<lambda>t. awake (object_resume i t) t) (thread_at s j) else thread_at s j)" for j
    using s'(3) [of j] queued_live [OF ok i] by (auto simp: image_iff)
  then show ?thesis using s' i by (auto simp: all_woken_def)
qed

lemma fold_remove_empty:
  "wakers_of obj = [] \<Longrightarrow> fold remove_wakers is obj = obj"
  by (rule fold_remove_wakers_absent) simp

section \<open>The wait of a synchronization object\<close>

text \<open>A thread that has just suspended itself on object \<open>i\<close> with the waker \<open>w\<close>.\<close>

definition suspended_on :: "('t, 'z) sched_scheme \<Rightarrow> oid \<Rightarrow> waker \<Rightarrow> common_thread \<Rightarrow> bool" where
  "suspended_on s i w t \<longleftrightarrow>
     sched_ok s \<and> thread_at s (wk_thread w) = Some t \<and> waits_on w i t \<and>
     (\<forall>j obj. object_at s j = Some obj \<longrightarrow> wk_thread w \<notin> wk_thread ` set (wakers_of obj))"

text \<open>Nobody else has seen the thread yet, so appending its waker keeps the invariant.\<close>

lemma sched_ok_append:
  assumes s: "suspended_on s i w t"
    and f: "\<And>obj. object_at s i = Some obj \<Longrightarrow>
      set (wakers_of (f obj)) \<subseteq> insert w (set (wakers_of obj)) \<and> arbiter_queue_distinct (f obj)"
  shows "sched_ok (map_object i f s)"
proof -
  have "sc_threads (map_object i f s) = sc_threads s" by (simp add: map_object_def)
  then show ?thesis
    using s f unfolding suspended_on_def sched_ok_observe by (auto split: if_splits) blast+
qed

section \<open>Signalling an event\<close>

lemma event_signal_one:
  assumes ok: "sched_ok s" and e: "object_at s i = Some (Event e)" "\<not> signal_is_sticky (ev_signal e)"
  shows "\<exists>s'. event_signal i s = Ret s' \<and> sched_ok s' \<and>
    (case ev_queue e of
       [] \<Rightarrow> s' = map_object i (\<lambda>_. Event (e\<lparr>ev_signal := signal_signal (ev_signal e)\<rparr>)) s
     | w # ws \<Rightarrow>
         (\<exists>t. thread_at s (wk_thread w) = Some t \<and> ct_state t = Waiting \<and>
            (\<forall>j. thread_at s' j =
               (if j = wk_thread w then Some (awake (object_resume i t) t) else thread_at s j))) \<and>
         object_at s' i = Some (Event (e\<lparr>ev_signal := signal_clear (ev_signal e),
           ev_queue := retain_others (wk_thread w) ws\<rparr>)) \<and>
         (\<forall>j. j \<noteq> i \<longrightarrow> object_at s' j = map_option (remove_wakers (wk_thread w)) (object_at s j)))"
proof -
  let ?s1 = "map_object i (map_event (\<lambda>e. e\<lparr>ev_signal := signal_signal (ev_signal e)\<rparr>)) s"
  have ok1: "sched_ok ?s1" using ok by (rule sched_ok_map_object) (use e(1) in simp)
  show ?thesis
  proof (cases "ev_queue e")
    case Nil
    have "map_object i (map_event (\<lambda>e. e\<lparr>ev_signal := signal_signal (ev_signal e)\<rparr>)) s =
        map_object i (\<lambda>_. Event (e\<lparr>ev_signal := signal_signal (ev_signal e)\<rparr>)) s"
      using e(1) by (simp add: map_object_def modify_object_def object_at_def split: if_splits)
    then show ?thesis using Nil ok1 e by (simp add: event_signal_def Let_def event_at_def)
  next
    case (Cons w ws)
    obtain t where t: "thread_at s (wk_thread w) = Some t" "waits_on w i t"
      using queued_live [OF ok e(1), of w] Cons by auto
    have wake: "wake_or_panic ''Failed to wake up thread'' i w ?s1 =
        Ret (woken (wk_thread w) (object_resume i t) ?s1)"
      using waker_wake_live [OF ok1, of w t i] t by (simp add: wake_or_panic_def)
    let ?s' = "map_object i (map_event (\<lambda>e. e\<lparr>ev_signal := signal_clear (ev_signal e)\<rparr>))
      (woken (wk_thread w) (object_resume i t) ?s1)"
    have "event_signal i s = Ret ?s'"
      using e wake Cons by (simp add: event_signal_def Let_def event_at_def)
    moreover have "sched_ok ?s'"
      by (rule sched_ok_map_object [OF sched_ok_woken [OF ok1]]) (use e(1) in simp)
    moreover have "object_at ?s' i = Some (Event (e\<lparr>ev_signal := signal_clear (ev_signal e),
           ev_queue := retain_others (wk_thread w) ws\<rparr>))"
      using e(1) Cons
      by (simp add: signal_clear_def signal_signal_def retain_others_def waker_check_opaque_id_def)
    ultimately show ?thesis using t Cons by (simp add: thread_at_woken waits_on_def)
  qed
qed

lemma event_signal_all:
  assumes ok: "sched_ok s" and e: "object_at s i = Some (Event e)" "signal_is_sticky (ev_signal e)"
  shows "\<exists>s'. event_signal i s = Ret s' \<and> sched_ok s' \<and> all_woken i (ev_queue e) s s' \<and>
    object_at s' i = Some (Event (e\<lparr>ev_signal := signal_signal (ev_signal e), ev_queue := []\<rparr>))"
proof -
  let ?sig = "map_event (\<lambda>e. e\<lparr>ev_signal := signal_signal (ev_signal e)\<rparr>)"
  let ?take = "map_event (\<lambda>e. e\<lparr>ev_queue := []\<rparr>)"
  have two: "map_object i ?take (map_object i ?sig s) = map_object i (\<lambda>obj. ?take (?sig obj)) s"
    by (simp add: map_object_def modify_object_def)
  have ok1: "sched_ok (map_object i (\<lambda>obj. ?take (?sig obj)) s)"
    using ok by (rule sched_ok_map_object) (use e(1) in simp)
  obtain s' where s': "wake_each i (ev_queue e) (map_object i (\<lambda>obj. ?take (?sig obj)) s) = Ret s'"
      "sched_ok s'" "all_woken i (ev_queue e) s s'"
      "object_at s' i = Some (fold remove_wakers (map wk_thread (ev_queue e))
         (Event (e\<lparr>ev_signal := signal_signal (ev_signal e), ev_queue := []\<rparr>)))"
    using wake_queue [OF ok e(1) ok1] by auto
  have obj: "object_at s' i = Some (Event (e\<lparr>ev_signal := signal_signal (ev_signal e), ev_queue := []\<rparr>))"
    unfolding s'(4) by (subst fold_remove_empty) simp_all
  have "event_signal i s = Ret (map_object i ?take s')"
    using e s'(1) by (simp add: event_signal_def Let_def event_at_def two)
  moreover have "sched_ok (map_object i ?take s')"
    by (rule sched_ok_map_object [OF s'(2)]) (use obj in simp)
  moreover have "all_woken i (ev_queue e) s (map_object i ?take s')"
    using s'(3) by (simp add: all_woken_def)
  ultimately show ?thesis using obj by simp
qed

section \<open>Firing a timer\<close>

lemma timer_updates_commute:
  "t\<lparr>tm_signal := sg, tm_next_ns := n\<rparr> = t\<lparr>tm_next_ns := n, tm_signal := sg\<rparr>"
  "t\<lparr>tm_signal := sg, tm_interval := k\<rparr> = t\<lparr>tm_interval := k, tm_signal := sg\<rparr>"
  by (cases t, simp)+

lemma timer_tick_idle:
  assumes "object_at s i = Some (Timer t)" "\<not> (timer_valid t \<and> tm_next_ns t \<le> time)"
  shows "timer_tick i time s = Ret s"
  using assms by (auto simp: timer_tick_def timer_at_def)

definition timer_fired :: "u64 \<Rightarrow> timer \<Rightarrow> timer" where
  "timer_fired time t =
     (if signal_is_pulse (tm_signal t)
      then t\<lparr>tm_next_ns := time + tm_interval t\<rparr>
      else t\<lparr>tm_next_ns := - 1, tm_interval := - 1\<rparr>)"

lemma timer_tick_due:
  assumes ok: "sched_ok s" and t: "object_at s i = Some (Timer t)"
    and due: "timer_valid t" "tm_next_ns t \<le> time"
    and room: "signal_is_pulse (tm_signal t) \<Longrightarrow> unat time + unat (tm_interval t) < 2 ^ 64"
  shows "\<exists>s'. timer_tick i time s = Ret s' \<and> sched_ok s' \<and>
    (if signal_is_sticky (tm_signal t)
     then all_woken i (tm_queue t) s s' \<and>
       object_at s' i = Some (Timer ((timer_fired time t)\<lparr>tm_signal := signal_signal (tm_signal t), tm_queue := []\<rparr>))
     else all_woken i (take 1 (tm_queue t)) s s' \<and>
       (tm_queue t = [] \<longrightarrow>
          object_at s' i = Some (Timer ((timer_fired time t)\<lparr>tm_signal := signal_signal (tm_signal t)\<rparr>))) \<and>
       (\<forall>w ws. tm_queue t = w # ws \<longrightarrow>
          object_at s' i = Some (Timer ((timer_fired time t)\<lparr>tm_signal := signal_clear (tm_signal t),
            tm_queue := retain_others (wk_thread w) ws\<rparr>))))"
proof -
  let ?fire = "map_timer (\<lambda>t. (timer_fired time t)\<lparr>tm_signal := signal_signal (tm_signal t)\<rparr>)"
  let ?take = "map_timer (\<lambda>t. t\<lparr>tm_queue := []\<rparr>)"
  let ?s2 = "map_object i ?fire s"
  have set: "timer_set i n k (map_object i (map_timer (\<lambda>t. t\<lparr>tm_signal := signal_signal (tm_signal t)\<rparr>)) s) =
      map_object i (map_timer (\<lambda>t. t\<lparr>tm_signal := signal_signal (tm_signal t), tm_next_ns := n, tm_interval := k\<rparr>)) s"
    for n k
    using t by (simp add: timer_set_def map_object_def modify_object_def object_at_def split: if_splits)
  have armed: "(if signal_is_pulse (tm_signal t)
        then and_then (cadd time (tm_interval t)) (\<lambda>next. Ret (timer_set i next (tm_interval t)
          (map_object i (map_timer (\<lambda>t. t\<lparr>tm_signal := signal_signal (tm_signal t)\<rparr>)) s)))
        else Ret (timer_set i (- 1) (- 1)
          (map_object i (map_timer (\<lambda>t. t\<lparr>tm_signal := signal_signal (tm_signal t)\<rparr>)) s))) = Ret ?s2"
    using room t unfolding set
    by (auto simp: timer_fired_def map_object_def modify_object_def object_at_def timer_updates_commute
        split: if_splits)
  have ok2: "sched_ok ?s2"
    using ok by (rule sched_ok_map_object) (use t in \<open>simp add: timer_fired_def\<close>)
  have two: "map_object i ?take ?s2 = map_object i (\<lambda>obj. ?take (?fire obj)) s"
    by (simp add: map_object_def modify_object_def)
  show ?thesis
  proof (cases "signal_is_sticky (tm_signal t)")
    case True
    have ok3: "sched_ok (map_object i (\<lambda>obj. ?take (?fire obj)) s)"
      using ok by (rule sched_ok_map_object) (use t in simp)
    let ?t' = "(timer_fired time t)\<lparr>tm_signal := signal_signal (tm_signal t), tm_queue := []\<rparr>"
    obtain s' where s': "wake_each i (tm_queue t) (map_object i (\<lambda>obj. ?take (?fire obj)) s) = Ret s'"
        "sched_ok s'" "all_woken i (tm_queue t) s s'"
        "object_at s' i = Some (fold remove_wakers (map wk_thread (tm_queue t)) (Timer ?t'))"
      using wake_queue [OF ok t ok3] by auto
    have obj: "object_at s' i = Some (Timer ?t')"
      unfolding s'(4) by (subst fold_remove_empty) simp_all
    have "timer_tick i time s = Ret (map_object i ?take s')"
      using t due True s'(1) armed by (simp add: timer_tick_def Let_def timer_at_def two)
    moreover have "sched_ok (map_object i ?take s')"
      by (rule sched_ok_map_object [OF s'(2)]) (use obj in simp)
    moreover have "all_woken i (tm_queue t) s (map_object i ?take s')"
      using s'(3) by (simp add: all_woken_def)
    ultimately show ?thesis using obj True by simp
  next
    case False
    show ?thesis
    proof (cases "tm_queue t")
      case Nil
      have "timer_tick i time s = Ret ?s2"
        using t due False armed Nil by (simp add: timer_tick_def Let_def timer_at_def)
      then show ?thesis using ok2 Nil False t by (simp add: all_woken_def option.map_id0 option.map_ident)
    next
      case (Cons w ws)
      obtain th where th: "thread_at s (wk_thread w) = Some th" "waits_on w i th"
        using queued_live [OF ok t, of w] Cons by auto
      have wake: "wake_or_panic ''Failed to wake up thread'' i w ?s2 =
          Ret (woken (wk_thread w) (object_resume i th) ?s2)"
        using waker_wake_live [OF ok2, of w th i] th by (simp add: wake_or_panic_def)
      let ?s' = "map_object i (map_timer (\<lambda>t. t\<lparr>tm_signal := signal_clear (tm_signal t)\<rparr>))
        (woken (wk_thread w) (object_resume i th) ?s2)"
      have "timer_tick i time s = Ret ?s'"
        using t due False armed wake Cons by (simp add: timer_tick_def Let_def timer_at_def)
      moreover have "sched_ok ?s'"
        by (rule sched_ok_map_object [OF sched_ok_woken [OF ok2]]) (use t in simp)
      moreover have "object_at ?s' i = Some (Timer ((timer_fired time t)\<lparr>tm_signal := signal_clear (tm_signal t),
            tm_queue := retain_others (wk_thread w) ws\<rparr>))"
        using t Cons by (simp add: timer_fired_def signal_clear_def signal_signal_def retain_others_def
            waker_check_opaque_id_def)
      ultimately show ?thesis
        using False Cons th by (simp add: all_woken_def thread_at_woken)
    qed
  qed
qed

section \<open>Properties of events and timers\<close>

text \<open>C27: signalling a one-shot or pulse event wakes exactly the thread that has waited
  longest, takes all its wakers out of every queue, and leaves the event unsignaled; with
  nobody waiting it leaves the event signaled.  It never panics, and queues and threads agree
  afterwards.\<close>

theorem event_signal_wakes_first:
  assumes ok: "sched_ok s" and e: "object_at s i = Some (Event e)" "\<not> signal_is_sticky (ev_signal e)"
  shows "\<exists>s'. event_signal i s = Ret s' \<and> sched_ok s' \<and>
    (case ev_queue e of
       [] \<Rightarrow> s' = map_object i (\<lambda>_. Event (e\<lparr>ev_signal := signal_signal (ev_signal e)\<rparr>)) s
     | w # ws \<Rightarrow>
         (\<exists>t. thread_at s (wk_thread w) = Some t \<and> ct_state t = Waiting \<and>
            (\<forall>j. thread_at s' j =
               (if j = wk_thread w then Some (awake (object_resume i t) t) else thread_at s j))) \<and>
         object_at s' i = Some (Event (e\<lparr>ev_signal := signal_clear (ev_signal e),
           ev_queue := retain_others (wk_thread w) ws\<rparr>)) \<and>
         (\<forall>j. j \<noteq> i \<longrightarrow> object_at s' j = map_option (remove_wakers (wk_thread w)) (object_at s j)))"
  using ok e by (rule event_signal_one)

text \<open>Signalling a sticky event wakes every waiting thread, empties the queue and leaves
  the event signaled; no other thread changes.\<close>

theorem event_signal_sticky_wakes_all:
  assumes ok: "sched_ok s" and e: "object_at s i = Some (Event e)" "signal_is_sticky (ev_signal e)"
  shows "\<exists>s'. event_signal i s = Ret s' \<and> sched_ok s' \<and> all_woken i (ev_queue e) s s' \<and>
    object_at s' i = Some (Event (e\<lparr>ev_signal := signal_signal (ev_signal e), ev_queue := []\<rparr>))"
  using ok e by (rule event_signal_all)

text \<open>C28: a timer that is armed and due fires without a panic.  Firing disarms it unless it is a
  pulse timer, which is armed again one interval later, and wakes the longest-waiting thread,
  or every waiting thread if it is sticky.\<close>

theorem timer_tick_fires:
  assumes ok: "sched_ok s" and t: "object_at s i = Some (Timer t)"
    and due: "timer_valid t" "tm_next_ns t \<le> time"
    and room: "signal_is_pulse (tm_signal t) \<Longrightarrow> unat time + unat (tm_interval t) < 2 ^ 64"
  shows "\<exists>s'. timer_tick i time s = Ret s' \<and> sched_ok s' \<and>
    (if signal_is_sticky (tm_signal t)
     then all_woken i (tm_queue t) s s' \<and>
       object_at s' i = Some (Timer ((timer_fired time t)\<lparr>tm_signal := signal_signal (tm_signal t), tm_queue := []\<rparr>))
     else all_woken i (take 1 (tm_queue t)) s s' \<and>
       (tm_queue t = [] \<longrightarrow>
          object_at s' i = Some (Timer ((timer_fired time t)\<lparr>tm_signal := signal_signal (tm_signal t)\<rparr>))) \<and>
       (\<forall>w ws. tm_queue t = w # ws \<longrightarrow>
          object_at s' i = Some (Timer ((timer_fired time t)\<lparr>tm_signal := signal_clear (tm_signal t),
            tm_queue := retain_others (wk_thread w) ws\<rparr>))))"
  using ok t due room by (rule timer_tick_due)

section \<open>Properties of mutexes, thread objects and arbiters\<close>

lemma mutex_release_next:
  assumes ok: "sched_ok s" and m: "object_at s i = Some (Mutex m)"
  shows "\<exists>s'. mutex_release i s = Ret s' \<and> sched_ok s' \<and> all_woken i (take 1 (mx_queue m)) s s' \<and>
    object_at s' i = Some (Mutex
      (case mx_queue m of
         [] \<Rightarrow> m\<lparr>mx_acquired := False\<rparr>
       | w # ws \<Rightarrow> m\<lparr>mx_queue := retain_others (wk_thread w) ws\<rparr>))"
proof (cases "mx_queue m")
  case Nil
  have "sched_ok (map_object i (map_mutex (\<lambda>m. m\<lparr>mx_acquired := False\<rparr>)) s)"
    using ok by (rule sched_ok_map_object) (use m in simp)
  then show ?thesis
    using Nil m by (simp add: mutex_release_def mutex_at_def all_woken_def option.map_id0 option.map_ident)
next
  case (Cons w ws)
  obtain t where t: "thread_at s (wk_thread w) = Some t"
      "wake_or_panic ''Failed to wake up thread'' i w s = Ret (woken (wk_thread w) (object_resume i t) s)"
    using wake_first [OF ok m, of w] Cons by auto
  then show ?thesis
    using Cons m sched_ok_woken [OF ok]
    by (simp add: mutex_release_def mutex_at_def all_woken_def thread_at_woken retain_others_def
        waker_check_opaque_id_def)
qed

text \<open>C29: releasing a mutex hands it to the thread that has waited longest, without ever being
  free in between; with nobody waiting it becomes free.\<close>

theorem mutex_release_hands_over:
  assumes ok: "sched_ok s" and m: "object_at s i = Some (Mutex m)"
  shows "\<exists>s'. mutex_release i s = Ret s' \<and> sched_ok s' \<and> all_woken i (take 1 (mx_queue m)) s s' \<and>
    object_at s' i = Some (Mutex
      (case mx_queue m of
         [] \<Rightarrow> m\<lparr>mx_acquired := False\<rparr>
       | w # ws \<Rightarrow> m\<lparr>mx_queue := retain_others (wk_thread w) ws\<rparr>))"
  using assms by (rule mutex_release_next)

lemma thread_exit_all:
  assumes ok: "sched_ok s" and t: "object_at s i = Some (ThreadObject t)" "\<not> to_dead t"
  shows "\<exists>s'. thread_object_exit i s = Ret s' \<and> sched_ok s' \<and> all_woken i (to_queue t) s s' \<and>
    object_at s' i = Some (ThreadObject (t\<lparr>to_dead := True, to_queue := []\<rparr>))"
proof -
  let ?f = "map_thread_object (\<lambda>t. t\<lparr>to_dead := True, to_queue := []\<rparr>)"
  have ok1: "sched_ok (map_object i ?f s)" using ok by (rule sched_ok_map_object) (use t in simp)
  obtain s' where s': "wake_each i (to_queue t) (map_object i ?f s) = Ret s'" "sched_ok s'"
      "all_woken i (to_queue t) s s'"
      "object_at s' i = Some (fold remove_wakers (map wk_thread (to_queue t))
         (ThreadObject (t\<lparr>to_dead := True, to_queue := []\<rparr>)))"
    using wake_queue [OF ok t(1) ok1] by auto
  have "object_at s' i = Some (ThreadObject (t\<lparr>to_dead := True, to_queue := []\<rparr>))"
    unfolding s'(4) by (subst fold_remove_empty) simp_all
  then show ?thesis
    using s'(1-3) t by (simp add: thread_object_exit_def thread_object_at_def)
qed

text \<open>A thread's exit marks its object dead once and wakes every thread that waits for
  it.\<close>

theorem thread_exit_wakes_all:
  assumes ok: "sched_ok s" and t: "object_at s i = Some (ThreadObject t)" "\<not> to_dead t"
  shows "\<exists>s'. thread_object_exit i s = Ret s' \<and> sched_ok s' \<and> all_woken i (to_queue t) s s' \<and>
    object_at s' i = Some (ThreadObject (t\<lparr>to_dead := True, to_queue := []\<rparr>))"
  using assms by (rule thread_exit_all)

text \<open>Waking wakers of distinct threads one by one, each of which must be there.\<close>

lemma wake_all_or_panic:
  assumes "sched_ok s" "distinct (map wk_thread ws)"
    and "\<forall>w \<in> set ws. \<exists>t. thread_at s (wk_thread w) = Some t \<and> waits_on w i t"
  shows "\<exists>s'. fold_res (wake_or_panic msg i) ws s = Ret s' \<and> sched_ok s' \<and>
    (\<forall>j. thread_at s' j = (if j \<in> wk_thread ` set ws
       then map_option (\<lambda>t. awake (object_resume i t) t) (thread_at s j) else thread_at s j)) \<and>
    (\<forall>j. object_at s' j = map_option (fold remove_wakers (map wk_thread ws)) (object_at s j))"
  using assms
proof (induction ws arbitrary: s)
  case Nil
  then show ?case by (simp add: option.map_id0 option.map_ident)
next
  case (Cons w ws)
  obtain t where t: "thread_at s (wk_thread w) = Some t" "waits_on w i t" using Cons.prems(3) by auto
  let ?s = "woken (wk_thread w) (object_resume i t) s"
  have live: "\<forall>w \<in> set ws. \<exists>t. thread_at ?s (wk_thread w) = Some t \<and> waits_on w i t"
    using Cons.prems(2,3) by (auto simp: thread_at_woken image_iff)
  obtain s' where s': "fold_res (wake_or_panic msg i) ws ?s = Ret s'" "sched_ok s'"
      "\<forall>j. thread_at s' j = (if j \<in> wk_thread ` set ws
         then map_option (\<lambda>t. awake (object_resume i t) t) (thread_at ?s j) else thread_at ?s j)"
      "\<forall>j. object_at s' j = map_option (fold remove_wakers (map wk_thread ws)) (object_at ?s j)"
    using Cons.IH [OF sched_ok_woken [OF Cons.prems(1)] _ live] Cons.prems(2) by auto
  have "fold_res (wake_or_panic msg i) (w # ws) s = Ret s'"
    using s'(1) waker_wake_live [OF Cons.prems(1) t] by (simp add: wake_or_panic_def)
  then show ?case
    using s'(2-4) t Cons.prems(2) by (auto simp: thread_at_woken option.map_comp comp_def)
qed

text \<open>The wakers of the first entries for \<open>addr\<close>, \<open>n\<close> of them or all.\<close>

definition first_on_address :: "u32 \<Rightarrow> nat option \<Rightarrow> (waker \<times> u32) list \<Rightarrow> waker list" where
  "first_on_address addr n es =
     (let ws = map fst (filter (\<lambda>e. snd e = addr) es) in
      case n of None \<Rightarrow> ws | Some n \<Rightarrow> take n ws)"

lemma arbiter_drain_all:
  "fst (arbiter_drain addr 0xFFFFFFFF es) = first_on_address addr None es"
  by (induction es) (auto simp: first_on_address_def Let_def split: prod.splits)

lemma arbiter_drain_some:
  "count \<noteq> 0xFFFFFFFF \<Longrightarrow>
     fst (arbiter_drain addr count es) = first_on_address addr (Some (unat count)) es"
proof (induction addr count es rule: arbiter_drain.induct)
  case (2 addr count w a es)
  show ?case
  proof (cases "a = addr \<and> count > 0")
    case True
    have count: "count - 1 \<noteq> 0xFFFFFFFF" "unat count = Suc (unat (count - 1))"
    proof -
      have pos: "unat count \<noteq> 0" "unat (count - 1) = unat count - 1"
        using True by (auto simp: unat_minus_one word_gt_0 unat_eq_0)
      then show "unat count = Suc (unat (count - 1))" by simp
      show "count - 1 \<noteq> 0xFFFFFFFF"
      proof -
        have "unat count < 2 ^ 32" using unsigned_less [of count] by simp
        then show ?thesis using pos by (auto simp: word_unat_eq_iff)
      qed
    qed
    then show ?thesis using "2.IH"(1) True "2.prems"
      by (cases "arbiter_drain addr (count - 1) es") (simp add: first_on_address_def)
  next
    case False
    show ?thesis
    proof (cases "a = addr")
      case True
      then have zero: "count = 0" using False by (simp add: word_gt_0)
      have "fst (arbiter_drain addr 0 es) = []"
        using "2.IH"(2) False zero by (simp add: first_on_address_def)
      then show ?thesis using True zero
        by (cases "arbiter_drain addr 0 es") (simp add: first_on_address_def)
    next
      case False
      then show ?thesis using "2.IH"(2) "2.prems"
        by (cases "arbiter_drain addr count es") (simp add: first_on_address_def)
    qed
  qed
qed (simp add: first_on_address_def split: option.splits)

lemma arbiter_drain_parts:
  assumes "distinct (map (wk_thread \<circ> fst) es)" "arbiter_drain addr count es = (ds, rest)"
  shows "set rest \<subseteq> set es \<and> set ds \<subseteq> fst ` set es \<and> distinct (map wk_thread ds) \<and>
    rest = filter (\<lambda>e. wk_thread (fst e) \<notin> wk_thread ` set ds) es"
  using assms
proof (induction es arbitrary: count ds rest)
  case (Cons e es)
  obtain w a where e: "e = (w, a)" by (cases e)
  have fresh: "wk_thread w \<notin> (wk_thread \<circ> fst) ` set es" "distinct (map (wk_thread \<circ> fst) es)"
    using Cons.prems(1) e by (simp_all add: comp_def)
  then have other: "wk_thread (fst x) \<noteq> wk_thread w" if "x \<in> set es" for x using that by force
  show ?case
  proof (cases "a = addr \<and> count > 0")
    case True
    define count' where "count' = (if count \<noteq> 0xFFFFFFFF then count - 1 else count)"
    obtain ds' where ds': "arbiter_drain addr count' es = (ds', rest)" "ds = w # ds'"
      using Cons.prems(2) True e by (auto simp: count'_def Let_def split: prod.splits)
    have "wk_thread x \<noteq> wk_thread w" if "x \<in> set ds'" for x
      using Cons.IH [OF fresh(2) ds'(1)] other that by blast
    then have "wk_thread w \<notin> wk_thread ` set ds'" by (metis imageE)
    then show ?thesis using Cons.IH [OF fresh(2) ds'(1)] other ds'(2) e by (auto intro!: filter_cong)
  next
    case False
    obtain rest' where rest': "arbiter_drain addr count es = (ds, rest')" "rest = e # rest'"
      using Cons.prems(2) False e by (auto simp: Let_def split: prod.splits)
    have "wk_thread x \<noteq> wk_thread w" if "x \<in> set ds" for x
      using Cons.IH [OF fresh(2) rest'(1)] other that by blast
    then have "wk_thread w \<notin> wk_thread ` set ds" by (metis imageE)
    then show ?thesis using Cons.IH [OF fresh(2) rest'(1)] other rest'(2) e by (auto intro!: filter_cong)
  qed
qed simp


lemma arbiter_signal_drains:
  assumes ok: "sched_ok s" and a: "object_at s i = Some (Arbiter a)"
    and ws: "ws = first_on_address addr (if sint amount < 0 then None else Some (unat amount)) (ab_queue a)"
  shows "\<exists>s'. arbiter_signal i amount addr s = Ret (ws \<noteq> [], s') \<and> sched_ok s' \<and> all_woken i ws s s' \<and>
    object_at s' i = Some (Arbiter
      \<lparr>ab_queue = filter (\<lambda>e. wk_thread (fst e) \<notin> wk_thread ` set ws) (ab_queue a)\<rparr>)"
proof -
  let ?count = "if sint amount < 0 then 0xFFFFFFFF else amount"
  let ?rest = "filter (\<lambda>e. wk_thread (fst e) \<notin> wk_thread ` set ws) (ab_queue a)"
  have dist: "distinct (map (wk_thread \<circ> fst) (ab_queue a))"
    using ok a unfolding sched_ok_observe by fastforce
  have "fst (arbiter_drain addr ?count (ab_queue a)) = ws"
  proof (cases "sint amount < 0")
    case False
    then have "amount \<noteq> 0xFFFFFFFF" by auto
    then show ?thesis using False ws by (simp add: arbiter_drain_some)
  qed (simp add: ws arbiter_drain_all)
  then obtain rest where d: "arbiter_drain addr ?count (ab_queue a) = (ws, rest)"
    by (metis prod.collapse)
  note parts = arbiter_drain_parts [OF dist d]
  let ?s1 = "map_object i (map_arbiter (\<lambda>a. a\<lparr>ab_queue := rest\<rparr>)) s"
  have rest: "rest = ?rest" using parts by blast
  have "distinct (map (wk_thread \<circ> fst) rest)" using dist unfolding rest by (rule distinct_map_filter)
  then have ok1: "sched_ok ?s1"
    using ok by (intro sched_ok_map_object) (use a in \<open>auto simp: rest\<close>)
  have live: "\<forall>w \<in> set ws. \<exists>t. thread_at ?s1 (wk_thread w) = Some t \<and> waits_on w i t"
  proof
    fix w assume "w \<in> set ws"
    then have "w \<in> set (wakers_of (Arbiter a))" using parts by auto
    then show "\<exists>t. thread_at ?s1 (wk_thread w) = Some t \<and> waits_on w i t"
      using queued_live [OF ok a] by simp
  qed
  obtain s' where s': "fold_res (wake_or_panic ''Failed to wake thread waiting on arbitration'' i) ws ?s1 = Ret s'"
      "sched_ok s'"
      "\<forall>j. thread_at s' j = (if j \<in> wk_thread ` set ws
         then map_option (\<lambda>t. awake (object_resume i t) t) (thread_at ?s1 j) else thread_at ?s1 j)"
      "\<forall>j. object_at s' j = map_option (fold remove_wakers (map wk_thread ws)) (object_at ?s1 j)"
    using wake_all_or_panic [OF ok1 _ live] parts by blast
  have "object_at s' i = Some (fold remove_wakers (map wk_thread ws) (Arbiter (a\<lparr>ab_queue := rest\<rparr>)))"
    using s'(4) a by simp
  also have "fold remove_wakers (map wk_thread ws) (Arbiter (a\<lparr>ab_queue := rest\<rparr>)) =
      Arbiter (a\<lparr>ab_queue := rest\<rparr>)"
    by (rule fold_remove_wakers_absent) (force simp: rest)
  finally have "object_at s' i = Some (Arbiter \<lparr>ab_queue = ?rest\<rparr>)" by (cases a) (simp add: rest)
  moreover have "arbiter_signal i amount addr s = Ret (ws \<noteq> [], s')"
    using a d s'(1) by (simp add: arbiter_signal_def arbiter_at_def Let_def)
  ultimately show ?thesis using s'(2-4) by (auto simp: all_woken_def)
qed

text \<open>C30: signalling an arbiter wakes, in the order they came, the first \<open>amount\<close> threads that
  wait on the address, or all of them for a negative amount; every other waiting thread keeps
  its place.  It reports whether anybody was woken and never panics.\<close>

theorem arbiter_signal_wakes_in_order:
  assumes ok: "sched_ok s" and a: "object_at s i = Some (Arbiter a)"
    and ws: "ws = first_on_address addr (if sint amount < 0 then None else Some (unat amount)) (ab_queue a)"
  shows "\<exists>s'. arbiter_signal i amount addr s = Ret (ws \<noteq> [], s') \<and> sched_ok s' \<and> all_woken i ws s s' \<and>
    object_at s' i = Some (Arbiter
      \<lparr>ab_queue = filter (\<lambda>e. wk_thread (fst e) \<notin> wk_thread ` set ws) (ab_queue a)\<rparr>)"
  using assms by (rule arbiter_signal_drains)

section \<open>The contract of KSynchronizationObject\<close>

text \<open>
  What the callers of \<open>KSynchronizationObject::wait\<close> rely on: on an object that is \<open>ready\<close> the
  waiting thread is woken at once and the object is \<open>taken\<close>; otherwise the waker goes to the
  end of the object's queue.
\<close>

locale sync_object =
  fixes wait :: "oid \<Rightarrow> waker \<Rightarrow> ('t, 'z) sched_scheme \<Rightarrow> ('t, 'z) sched_scheme res"
    and kind :: "'t kobj \<Rightarrow> bool"
    and ready :: "'t kobj \<Rightarrow> bool"
    and taken :: "'t kobj \<Rightarrow> 't kobj"
    and enqueue :: "waker \<Rightarrow> 't kobj \<Rightarrow> 't kobj"
  assumes wait_ready: "\<lbrakk>suspended_on s i w t; object_at s i = Some obj; kind obj; ready obj\<rbrakk> \<Longrightarrow>
      wait i w s = Ret (woken (wk_thread w) (object_resume i t) (map_object i taken s))"
    and wait_queued: "\<lbrakk>suspended_on s i w t; object_at s i = Some obj; kind obj; \<not> ready obj\<rbrakk> \<Longrightarrow>
      wait i w s = Ret (map_object i (enqueue w) s)"
    and taken_wakers: "kind obj \<Longrightarrow> wakers_of (taken obj) = wakers_of obj"
    and enqueue_wakers: "kind obj \<Longrightarrow> wakers_of (enqueue w obj) = wakers_of obj @ [w]"
    and not_arbiter: "kind obj \<Longrightarrow>
      arbiter_queue_distinct (taken obj) \<and> arbiter_queue_distinct (enqueue w obj)"
begin

text \<open>Either way the invariant holds after the wait, no other thread changes, and the thread is
  ready with the object's resume value exactly if the object was ready.\<close>

lemma wait_correct:
  assumes s: "suspended_on s i w t" and obj: "object_at s i = Some obj" "kind obj"
  shows "\<exists>s'. wait i w s = Ret s' \<and> sched_ok s' \<and>
    (\<forall>j. j \<noteq> wk_thread w \<longrightarrow> thread_at s' j = thread_at s j) \<and>
    (if ready obj
     then thread_at s' (wk_thread w) = Some (awake (object_resume i t) t) \<and> object_at s' i = Some (taken obj)
     else thread_at s' (wk_thread w) = Some t \<and> object_at s' i = Some (enqueue w obj))"
proof (cases "ready obj")
  case True
  have "sched_ok (map_object i taken s)"
    using s obj taken_wakers not_arbiter by (intro sched_ok_map_object) (auto simp: suspended_on_def)
  then have "sched_ok (woken (wk_thread w) (object_resume i t) (map_object i taken s))"
    by (rule sched_ok_woken)
  moreover have "remove_wakers (wk_thread w) (taken obj) = taken obj"
    using s obj taken_wakers by (intro remove_wakers_absent) (auto simp: suspended_on_def)
  ultimately show ?thesis
    using wait_ready [OF s obj True] True s obj(1)
    by (simp add: thread_at_woken suspended_on_def)
next
  case False
  have "sched_ok (map_object i (enqueue w) s)"
    using sched_ok_append [OF s, of "enqueue w"] obj enqueue_wakers not_arbiter by auto
  then show ?thesis
    using wait_queued [OF s obj False] False s obj(1) by (simp add: suspended_on_def)
qed

end

lemma waker_wake_suspended:
  assumes s: "suspended_on s i w t"
    and f: "\<And>obj. object_at s i = Some obj \<Longrightarrow>
      set (wakers_of (f obj)) \<subseteq> set (wakers_of obj) \<and> arbiter_queue_distinct (f obj)"
  shows "waker_wake w i (map_object i f s) = Ret (True, woken (wk_thread w) (object_resume i t) (map_object i f s))"
proof -
  have "sched_ok (map_object i f s)" using s f by (intro sched_ok_map_object) (auto simp: suspended_on_def)
  then show ?thesis using s by (intro waker_wake_live) (simp_all add: suspended_on_def)
qed

fun is_event :: "'t kobj \<Rightarrow> bool" where
  "is_event (Event e) = True"
| "is_event _ = False"

fun event_ready :: "'t kobj \<Rightarrow> bool" where
  "event_ready (Event e) = sg_signaled (ev_signal e)"
| "event_ready _ = False"

definition event_taken :: "'t kobj \<Rightarrow> 't kobj" where
  "event_taken = map_event (\<lambda>e. e\<lparr>ev_signal := snd (signal_consume (ev_signal e))\<rparr>)"

definition event_enqueue :: "waker \<Rightarrow> 't kobj \<Rightarrow> 't kobj" where
  "event_enqueue w = map_event (\<lambda>e. e\<lparr>ev_queue := ev_queue e @ [w]\<rparr>)"

lemma map_object_eq:
  "\<lbrakk>object_at s i = Some obj; f obj = g obj\<rbrakk> \<Longrightarrow> map_object i f s = map_object i g s"
  by (simp add: map_object_def modify_object_def object_at_def split: if_splits)

lemma map_object_twice: "map_object i f (map_object i g s) = map_object i (f \<circ> g) s"
  by (simp add: map_object_def modify_object_def)

interpretation event_sync: sync_object event_wait is_event event_ready event_taken event_enqueue
proof unfold_locales
  fix s :: "('t, 'z) sched_scheme" and i w t obj
  assume s: "suspended_on s i w t" and obj: "object_at s i = Some obj" "is_event obj"
  obtain e where e: "obj = Event e" using obj(2) by (cases obj) auto
  {
    assume "event_ready obj"
    then obtain sg where sig: "signal_consume (ev_signal e) = (True, sg)"
      by (cases "signal_consume (ev_signal e)") (use fst_consume [of "ev_signal e"] in \<open>simp add: e\<close>)
    have taken: "map_object i (map_event (\<lambda>e. e\<lparr>ev_signal := sg\<rparr>)) s = map_object i event_taken s"
      using obj(1) by (rule map_object_eq) (simp add: e event_taken_def sig)
    have "waker_wake w i (map_object i event_taken s) =
        Ret (True, woken (wk_thread w) (object_resume i t) (map_object i event_taken s))"
      using s by (rule waker_wake_suspended) (use obj(1) in \<open>simp add: e event_taken_def\<close>)
    then show "event_wait i w s = Ret (woken (wk_thread w) (object_resume i t) (map_object i event_taken s))"
      using obj(1) taken by (simp add: event_wait_def event_at_def e Let_def sig)
  next
    assume "\<not> event_ready obj"
    then have "signal_consume (ev_signal e) = (False, ev_signal e)" by (simp add: e)
    moreover have "map_object i (map_event (\<lambda>e. e\<lparr>ev_queue := ev_queue e @ [w]\<rparr>))
        (map_object i (map_event (\<lambda>e'. e'\<lparr>ev_signal := ev_signal e\<rparr>)) s) = map_object i (event_enqueue w) s"
      unfolding map_object_twice using obj(1) by (rule map_object_eq) (simp add: e event_enqueue_def)
    ultimately show "event_wait i w s = Ret (map_object i (event_enqueue w) s)"
      using obj(1) by (simp add: event_wait_def event_at_def e Let_def)
  }
next
  fix obj :: "'t kobj" and w
  assume "is_event obj"
  then obtain e where "obj = Event e" by (cases obj) auto
  then show "wakers_of (event_taken obj) = wakers_of obj" "wakers_of (event_enqueue w obj) = wakers_of obj @ [w]"
    "arbiter_queue_distinct (event_taken obj) \<and> arbiter_queue_distinct (event_enqueue w obj)"
    by (simp_all add: event_taken_def event_enqueue_def)
qed

fun is_timer :: "'t kobj \<Rightarrow> bool" where
  "is_timer (Timer t) = True"
| "is_timer _ = False"

fun timer_ready :: "'t kobj \<Rightarrow> bool" where
  "timer_ready (Timer t) = sg_signaled (tm_signal t)"
| "timer_ready _ = False"

definition timer_taken :: "'t kobj \<Rightarrow> 't kobj" where
  "timer_taken = map_timer (\<lambda>t. t\<lparr>tm_signal := snd (signal_consume (tm_signal t))\<rparr>)"

definition timer_enqueue :: "waker \<Rightarrow> 't kobj \<Rightarrow> 't kobj" where
  "timer_enqueue w = map_timer (\<lambda>t. t\<lparr>tm_queue := tm_queue t @ [w]\<rparr>)"

interpretation timer_sync: sync_object timer_wait is_timer timer_ready timer_taken timer_enqueue
proof unfold_locales
  fix s :: "('t, 'z) sched_scheme" and i w t obj
  assume s: "suspended_on s i w t" and obj: "object_at s i = Some obj" "is_timer obj"
  obtain e where e: "obj = Timer e" using obj(2) by (cases obj) auto
  {
    assume "timer_ready obj"
    then obtain sg where sig: "signal_consume (tm_signal e) = (True, sg)"
      by (cases "signal_consume (tm_signal e)") (use fst_consume [of "tm_signal e"] in \<open>simp add: e\<close>)
    have taken: "map_object i (map_timer (\<lambda>t. t\<lparr>tm_signal := sg\<rparr>)) s = map_object i timer_taken s"
      using obj(1) by (rule map_object_eq) (simp add: e timer_taken_def sig)
    have "waker_wake w i (map_object i timer_taken s) =
        Ret (True, woken (wk_thread w) (object_resume i t) (map_object i timer_taken s))"
      using s by (rule waker_wake_suspended) (use obj(1) in \<open>simp add: e timer_taken_def\<close>)
    then show "timer_wait i w s = Ret (woken (wk_thread w) (object_resume i t) (map_object i timer_taken s))"
      using obj(1) taken by (simp add: timer_wait_def timer_at_def e Let_def sig)
  next
    assume "\<not> timer_ready obj"
    then have "signal_consume (tm_signal e) = (False, tm_signal e)" by (simp add: e)
    moreover have "map_object i (map_timer (\<lambda>t. t\<lparr>tm_queue := tm_queue t @ [w]\<rparr>))
        (map_object i (map_timer (\<lambda>t. t\<lparr>tm_signal := tm_signal e\<rparr>)) s) = map_object i (timer_enqueue w) s"
      unfolding map_object_twice using obj(1) by (rule map_object_eq) (simp add: e timer_enqueue_def)
    ultimately show "timer_wait i w s = Ret (map_object i (timer_enqueue w) s)"
      using obj(1) by (simp add: timer_wait_def timer_at_def e Let_def)
  }
next
  fix obj :: "'t kobj" and w
  assume "is_timer obj"
  then obtain e where "obj = Timer e" by (cases obj) auto
  then show "wakers_of (timer_taken obj) = wakers_of obj" "wakers_of (timer_enqueue w obj) = wakers_of obj @ [w]"
    "arbiter_queue_distinct (timer_taken obj) \<and> arbiter_queue_distinct (timer_enqueue w obj)"
    by (simp_all add: timer_taken_def timer_enqueue_def)
qed

fun is_mutex :: "'t kobj \<Rightarrow> bool" where
  "is_mutex (Mutex m) = True"
| "is_mutex _ = False"

fun mutex_ready :: "'t kobj \<Rightarrow> bool" where
  "mutex_ready (Mutex m) = (\<not> mx_acquired m)"
| "mutex_ready _ = False"

definition mutex_taken :: "'t kobj \<Rightarrow> 't kobj" where
  "mutex_taken = map_mutex (\<lambda>m. m\<lparr>mx_acquired := True\<rparr>)"

definition mutex_enqueue :: "waker \<Rightarrow> 't kobj \<Rightarrow> 't kobj" where
  "mutex_enqueue w = map_mutex (\<lambda>m. m\<lparr>mx_queue := mx_queue m @ [w]\<rparr>)"

interpretation mutex_sync: sync_object mutex_wait is_mutex mutex_ready mutex_taken mutex_enqueue
proof unfold_locales
  fix s :: "('t, 'z) sched_scheme" and i w t obj
  assume s: "suspended_on s i w t" and obj: "object_at s i = Some obj" "is_mutex obj"
  obtain m where m: "obj = Mutex m" using obj(2) by (cases obj) auto
  {
    assume "mutex_ready obj"
    moreover have "waker_wake w i (map_object i mutex_taken s) =
        Ret (True, woken (wk_thread w) (object_resume i t) (map_object i mutex_taken s))"
      using s by (rule waker_wake_suspended) (use obj(1) in \<open>simp add: m mutex_taken_def\<close>)
    ultimately show "mutex_wait i w s = Ret (woken (wk_thread w) (object_resume i t) (map_object i mutex_taken s))"
      using obj(1) by (simp add: mutex_wait_def mutex_at_def m Let_def mutex_taken_def)
  next
    assume busy: "\<not> mutex_ready obj"
    have "map_object i (map_mutex (\<lambda>m. m\<lparr>mx_queue := mx_queue m @ [w]\<rparr>))
        (map_object i (map_mutex (\<lambda>m. m\<lparr>mx_acquired := True\<rparr>)) s) = map_object i (mutex_enqueue w) s"
      unfolding map_object_twice using obj(1)
      by (rule map_object_eq) (use busy in \<open>simp add: m mutex_enqueue_def\<close>)
    then show "mutex_wait i w s = Ret (map_object i (mutex_enqueue w) s)"
      using obj(1) busy by (simp add: mutex_wait_def mutex_at_def m Let_def)
  }
next
  fix obj :: "'t kobj" and w
  assume "is_mutex obj"
  then obtain e where "obj = Mutex e" by (cases obj) auto
  then show "wakers_of (mutex_taken obj) = wakers_of obj" "wakers_of (mutex_enqueue w obj) = wakers_of obj @ [w]"
    "arbiter_queue_distinct (mutex_taken obj) \<and> arbiter_queue_distinct (mutex_enqueue w obj)"
    by (simp_all add: mutex_taken_def mutex_enqueue_def)
qed

fun is_thread_object :: "'t kobj \<Rightarrow> bool" where
  "is_thread_object (ThreadObject t) = True"
| "is_thread_object _ = False"

fun thread_object_ready :: "'t kobj \<Rightarrow> bool" where
  "thread_object_ready (ThreadObject t) = to_dead t"
| "thread_object_ready _ = False"

definition thread_object_enqueue :: "waker \<Rightarrow> 't kobj \<Rightarrow> 't kobj" where
  "thread_object_enqueue w = map_thread_object (\<lambda>t. t\<lparr>to_queue := to_queue t @ [w]\<rparr>)"

lemma map_object_ident: "map_object i (\<lambda>obj. obj) s = s"
  by (simp add: map_object_def modify_object_def)

interpretation thread_sync: sync_object thread_object_wait is_thread_object thread_object_ready
  "\<lambda>obj. obj" thread_object_enqueue
proof unfold_locales
  fix s :: "('t, 'z) sched_scheme" and i w t obj
  assume s: "suspended_on s i w t" and obj: "object_at s i = Some obj" "is_thread_object obj"
  obtain th where th: "obj = ThreadObject th" using obj(2) by (cases obj) auto
  {
    assume "thread_object_ready obj"
    moreover have "waker_wake w i (map_object i (\<lambda>obj. obj) s) =
        Ret (True, woken (wk_thread w) (object_resume i t) (map_object i (\<lambda>obj. obj) s))"
      using s by (rule waker_wake_suspended) (use obj(1) in \<open>simp add: th\<close>)
    ultimately show "thread_object_wait i w s =
        Ret (woken (wk_thread w) (object_resume i t) (map_object i (\<lambda>obj. obj) s))"
      using obj(1) by (simp add: thread_object_wait_def thread_object_at_def th map_object_ident)
  next
    assume "\<not> thread_object_ready obj"
    then show "thread_object_wait i w s = Ret (map_object i (thread_object_enqueue w) s)"
      using obj(1) by (simp add: thread_object_wait_def thread_object_at_def th thread_object_enqueue_def)
  }
next
  fix obj :: "'t kobj" and w
  assume "is_thread_object obj"
  then obtain e where "obj = ThreadObject e" by (cases obj) auto
  then show "wakers_of obj = wakers_of obj" "wakers_of (thread_object_enqueue w obj) = wakers_of obj @ [w]"
    "arbiter_queue_distinct obj \<and> arbiter_queue_distinct (thread_object_enqueue w obj)"
    by (simp_all add: thread_object_enqueue_def)
qed

section \<open>Witnesses\<close>

text \<open>Two threads that wait for one object.\<close>

definition waiter :: "tid \<Rightarrow> common_thread" where
  "waiter i = (thread_new 0 i 9)\<lparr>ct_state := Waiting, ct_wait_objects := [0], ct_wait_type := Some WaitSync1\<rparr>"

definition both_wakers :: "waker list" where
  "both_wakers = [\<lparr>wk_thread = 0, wk_key = 0\<rparr>, \<lparr>wk_thread = 1, wk_key = 0\<rparr>]"

definition two_waiters :: "unit kobj \<Rightarrow> unit sched" where
  "two_waiters obj = \<lparr>sc_objects = [obj], sc_threads = [waiter 0, waiter 1]\<rparr>"

lemma two_waiters_ok: "\<lbrakk>wakers_of obj = both_wakers; arbiter_queue_distinct obj\<rbrakk> \<Longrightarrow> sched_ok (two_waiters obj)"
  by (simp add: sched_ok_def queues_live_def two_waiters_def both_wakers_def waiter_def thread_new_def waits_on_def)

lemma two_waiters_at [simp]:
  "object_at (two_waiters obj) 0 = Some obj"
  "thread_at (two_waiters obj) 0 = Some (waiter 0)" "thread_at (two_waiters obj) 1 = Some (waiter 1)"
  "thread_at (two_waiters obj) (Suc 0) = Some (waiter 1)"
  by (simp_all add: two_waiters_def object_at_def thread_at_def waiter_def thread_new_def)

lemma waiter_resume [simp]: "object_resume i (waiter j) = ResumeNormal"
  by (simp add: object_resume_def waiter_def)

lemma both_wakers_threads [simp]:
  "wk_thread ` set both_wakers = {0, 1}" "wk_thread ` set (take 1 both_wakers) = {0}"
  "wk_thread ` set (take (Suc 0) both_wakers) = {0}"
  by (auto simp: both_wakers_def)

theorem event_signal_wakes_first_witness:
  "\<exists>s'. event_signal 0 (two_waiters (Event \<lparr>ev_signal = signal_new OneShot, ev_queue = both_wakers\<rparr>)) = Ret s' \<and>
     thread_at s' 0 = Some (awake ResumeNormal (waiter 0)) \<and> thread_at s' 1 = Some (waiter 1)"
proof -
  let ?e = "\<lparr>ev_signal = signal_new OneShot, ev_queue = both_wakers\<rparr>"
  have "sched_ok (two_waiters (Event ?e))" by (rule two_waiters_ok) simp_all
  from event_signal_wakes_first [OF this, of 0 ?e] show ?thesis
    by (auto simp: signal_is_sticky_def signal_new_def both_wakers_def)
qed

theorem event_signal_sticky_wakes_all_witness:
  "\<exists>s'. event_signal 0 (two_waiters (Event \<lparr>ev_signal = signal_new Sticky, ev_queue = both_wakers\<rparr>)) = Ret s' \<and>
     thread_at s' 0 = Some (awake ResumeNormal (waiter 0)) \<and> thread_at s' 1 = Some (awake ResumeNormal (waiter 1))"
proof -
  let ?e = "\<lparr>ev_signal = signal_new Sticky, ev_queue = both_wakers\<rparr>"
  have "sched_ok (two_waiters (Event ?e))" by (rule two_waiters_ok) simp_all
  from event_signal_sticky_wakes_all [OF this, of 0 ?e] show ?thesis
    by (auto simp: signal_is_sticky_def signal_new_def all_woken_def)
qed

theorem timer_tick_fires_witness:
  "\<exists>s'. timer_tick 0 8 (two_waiters (Timer
      \<lparr>tm_signal = signal_new Pulse, tm_queue = both_wakers, tm_next_ns = 5, tm_interval = 20\<rparr>)) = Ret s' \<and>
     thread_at s' 0 = Some (awake ResumeNormal (waiter 0)) \<and> thread_at s' 1 = Some (waiter 1) \<and>
     object_at s' 0 = Some (Timer \<lparr>tm_signal = signal_new Pulse, tm_queue = [\<lparr>wk_thread = 1, wk_key = 0\<rparr>],
       tm_next_ns = 28, tm_interval = 20\<rparr>)"
proof -
  let ?t = "\<lparr>tm_signal = signal_new Pulse, tm_queue = both_wakers, tm_next_ns = 5, tm_interval = 20\<rparr> :: timer"
  have "sched_ok (two_waiters (Timer ?t))" by (rule two_waiters_ok) simp_all
  from timer_tick_fires [OF this, of 0 ?t 8] show ?thesis
    by (auto simp: signal_is_sticky_def signal_is_pulse_def signal_new_def all_woken_def timer_valid_def
        timer_fired_def both_wakers_def retain_others_def waker_check_opaque_id_def signal_clear_def)
qed

theorem mutex_release_hands_over_witness:
  "\<exists>s'. mutex_release 0 (two_waiters (Mutex \<lparr>mx_acquired = True, mx_queue = both_wakers\<rparr>)) = Ret s' \<and>
     thread_at s' 0 = Some (awake ResumeNormal (waiter 0)) \<and> thread_at s' 1 = Some (waiter 1) \<and>
     object_at s' 0 = Some (Mutex \<lparr>mx_acquired = True, mx_queue = [\<lparr>wk_thread = 1, wk_key = 0\<rparr>]\<rparr>)"
proof -
  let ?m = "\<lparr>mx_acquired = True, mx_queue = both_wakers\<rparr>"
  have "sched_ok (two_waiters (Mutex ?m))" by (rule two_waiters_ok) simp_all
  from mutex_release_hands_over [OF this, of 0 ?m] show ?thesis
    by (auto simp: all_woken_def both_wakers_def retain_others_def waker_check_opaque_id_def)
qed

theorem thread_exit_wakes_all_witness:
  "\<exists>s'. thread_object_exit 0 (two_waiters (ThreadObject
      \<lparr>to_index = 5, to_dead = False, to_queue = both_wakers\<rparr>)) = Ret s' \<and>
     thread_at s' 0 = Some (awake ResumeNormal (waiter 0)) \<and> thread_at s' 1 = Some (awake ResumeNormal (waiter 1))"
proof -
  let ?t = "\<lparr>to_index = 5, to_dead = False, to_queue = both_wakers\<rparr>"
  have "sched_ok (two_waiters (ThreadObject ?t))" by (rule two_waiters_ok) simp_all
  from thread_exit_wakes_all [OF this, of 0 ?t] show ?thesis by (auto simp: all_woken_def)
qed

theorem arbiter_signal_wakes_in_order_witness:
  "\<exists>s'. arbiter_signal 0 1 64 (two_waiters (Arbiter
      \<lparr>ab_queue = [(\<lparr>wk_thread = 0, wk_key = 0\<rparr>, 32), (\<lparr>wk_thread = 1, wk_key = 0\<rparr>, 64)]\<rparr>)) = Ret (True, s') \<and>
     thread_at s' 0 = Some (waiter 0) \<and> thread_at s' 1 = Some (awake ResumeNormal (waiter 1))"
proof -
  let ?a = "\<lparr>ab_queue = [(\<lparr>wk_thread = 0, wk_key = 0\<rparr>, 32), (\<lparr>wk_thread = 1, wk_key = 0\<rparr>, 64)]\<rparr>"
  have ok: "sched_ok (two_waiters (Arbiter ?a))" by (rule two_waiters_ok) (simp_all add: both_wakers_def)
  have ws: "[\<lparr>wk_thread = 1, wk_key = 0\<rparr>] =
      first_on_address 64 (if sint (1 :: 32 word) < 0 then None else Some (unat (1 :: 32 word))) (ab_queue ?a)"
    by (simp add: first_on_address_def)
  from arbiter_signal_wakes_in_order [OF ok _ ws, of 0] show ?thesis by (auto simp: all_woken_def)
qed

end
