(* ===== verification/Ports.thy ===== *)
theory Ports
  imports SyncObjects
begin

text \<open>
  Ports and sessions: \<open>hle/src/port.rs\<close> and the part of \<open>hle/src/session.rs\<close> that does not
  need the kernel's processes (\<open>receive\<close> and \<open>reply\<close>, which translate messages, are in the
  theory \<open>Kernel\<close>).

  The two ends of a pair hold weak references to each other.  Whether the other end is still
  there is the argument \<open>alive\<close>.
\<close>

section \<open>Access to an object's cells\<close>

fun map_server_port :: "(server_port \<Rightarrow> server_port) \<Rightarrow> 't kobj \<Rightarrow> 't kobj" where
  "map_server_port f (ServerPort p) = ServerPort (f p)"
| "map_server_port f obj = obj"

fun map_client_port :: "(client_port \<Rightarrow> client_port) \<Rightarrow> 't kobj \<Rightarrow> 't kobj" where
  "map_client_port f (ClientPort p) = ClientPort (f p)"
| "map_client_port f obj = obj"

fun map_server_session :: "(server_session \<Rightarrow> server_session) \<Rightarrow> 't kobj \<Rightarrow> 't kobj" where
  "map_server_session f (ServerSession x) = ServerSession (f x)"
| "map_server_session f obj = obj"

fun map_client_session :: "(client_session \<Rightarrow> client_session) \<Rightarrow> 't kobj \<Rightarrow> 't kobj" where
  "map_client_session f (ClientSession x) = ClientSession (f x)"
| "map_client_session f obj = obj"

definition server_port_at :: "('t, 'z) sched_scheme \<Rightarrow> oid \<Rightarrow> server_port res" where
  "server_port_at s i = (case object_at s i of Some (ServerPort p) \<Rightarrow> Ret p | _ \<Rightarrow> Panic Unreachable)"

definition client_port_at :: "('t, 'z) sched_scheme \<Rightarrow> oid \<Rightarrow> client_port res" where
  "client_port_at s i = (case object_at s i of Some (ClientPort p) \<Rightarrow> Ret p | _ \<Rightarrow> Panic Unreachable)"

definition server_session_at :: "('t, 'z) sched_scheme \<Rightarrow> oid \<Rightarrow> server_session res" where
  "server_session_at s i = (case object_at s i of Some (ServerSession x) \<Rightarrow> Ret x | _ \<Rightarrow> Panic Unreachable)"

definition client_session_at :: "('t, 'z) sched_scheme \<Rightarrow> oid \<Rightarrow> client_session res" where
  "client_session_at s i = (case object_at s i of Some (ClientSession x) \<Rightarrow> Ret x | _ \<Rightarrow> Panic Unreachable)"

text \<open>\<open>Weak::upgrade\<close>, and \<open>ObjectManager::new_object\<close>.\<close>

definition upgrade :: "(oid \<Rightarrow> bool) \<Rightarrow> oid \<Rightarrow> oid option" where
  "upgrade alive i = (if alive i then Some i else None)"

definition new_object :: "'t kobj \<Rightarrow> ('t, 'z) sched_scheme \<Rightarrow> oid \<times> ('t, 'z) sched_scheme" where
  "new_object obj s = (length (sc_objects s), s\<lparr>sc_objects := sc_objects s @ [obj]\<rparr>)"

section \<open>Ports\<close>

definition make_port_pair :: "('t, 'z) sched_scheme \<Rightarrow> (oid \<times> oid) \<times> ('t, 'z) sched_scheme" where
  "make_port_pair s =
     (let (server, s1) = new_object (ServerPort \<lparr>sp_queue = [], sp_sessions = [], sp_client = None\<rparr>) s;
          (client, s2) = new_object (ClientPort \<lparr>cp_queue = [], cp_server = server\<rparr>) s1;
          s3 = map_object server (map_server_port (\<lambda>p. p\<lparr>sp_client := Some client\<rparr>)) s2 in
      ((server, client), s3))"

definition server_port_wait :: "oid \<Rightarrow> waker \<Rightarrow> ('t, 'z) sched_scheme \<Rightarrow> ('t, 'z) sched_scheme res" where
  "server_port_wait this waker s =
     Ret (map_object this (map_server_port (\<lambda>p. p\<lparr>sp_queue := sp_queue p @ [waker]\<rparr>)) s)"

definition server_port_wake_thread :: "oid \<Rightarrow> ('t, 'z) sched_scheme \<Rightarrow> ('t, 'z) sched_scheme res" where
  "server_port_wake_thread this s =
     and_then (server_port_at s this) (\<lambda>p.
     case sp_queue p of
       [] \<Rightarrow> Ret s
     | waker # rest \<Rightarrow>
         wake_or_panic ''Failed to wake up thread'' this waker
           (map_object this (map_server_port (\<lambda>p. p\<lparr>sp_queue := rest\<rparr>)) s))"

definition enqueue_session :: "oid \<Rightarrow> oid \<Rightarrow> ('t, 'z) sched_scheme \<Rightarrow> ('t, 'z) sched_scheme res" where
  "enqueue_session this session s =
     server_port_wake_thread this
       (map_object this (map_server_port (\<lambda>p. p\<lparr>sp_sessions := sp_sessions p @ [session]\<rparr>)) s)"

definition client_port_wait :: "oid \<Rightarrow> waker \<Rightarrow> ('t, 'z) sched_scheme \<Rightarrow> ('t, 'z) sched_scheme res" where
  "client_port_wait this waker s =
     Ret (map_object this (map_client_port (\<lambda>p. p\<lparr>cp_queue := cp_queue p @ [waker]\<rparr>)) s)"

definition client_port_wake_thread :: "oid \<Rightarrow> ('t, 'z) sched_scheme \<Rightarrow> ('t, 'z) sched_scheme res" where
  "client_port_wake_thread this s =
     and_then (client_port_at s this) (\<lambda>p.
     case cp_queue p of
       [] \<Rightarrow> Ret s
     | waker # rest \<Rightarrow>
         wake_or_panic ''Failed to wake up thread'' this waker
           (map_object this (map_client_port (\<lambda>p. p\<lparr>cp_queue := rest\<rparr>)) s))"

definition accept_session ::
  "(oid \<Rightarrow> bool) \<Rightarrow> oid \<Rightarrow> ('t, 'z) sched_scheme \<Rightarrow> (oid option \<times> ('t, 'z) sched_scheme) res" where
  "accept_session alive this s =
     and_then (server_port_at s this) (\<lambda>p.
     case sp_sessions p of
       [] \<Rightarrow> Ret (None, s)
     | session # rest \<Rightarrow>
         let s1 = map_object this (map_server_port (\<lambda>p. p\<lparr>sp_sessions := rest\<rparr>)) s in
         and_then (expect ''ClientPortHLE disconnected'' (Option.bind (sp_client p) (upgrade alive)))
           (\<lambda>client.
         and_then (client_port_wake_thread client s1) (\<lambda>s2. Ret (Some session, s2))))"

definition port_create_session ::
  "(oid \<Rightarrow> bool) \<Rightarrow> oid \<Rightarrow> oid \<Rightarrow> ('t, 'z) sched_scheme \<Rightarrow> ('t, 'z) sched_scheme res" where
  "port_create_session alive this session s =
     and_then (client_port_at s this) (\<lambda>p.
     and_then (expect ''ServerPortHLE disconnected'' (upgrade alive (cp_server p))) (\<lambda>server.
     enqueue_session server session s))"

section \<open>Sessions\<close>

definition make_session_pair :: "('t, 'z) sched_scheme \<Rightarrow> (oid \<times> oid) \<times> ('t, 'z) sched_scheme" where
  "make_session_pair s =
     (let (server, s1) = new_object (ServerSession \<lparr>ss_queue = [], ss_requests = [], ss_client = None\<rparr>) s;
          (client, s2) = new_object (ClientSession \<lparr>cs_queue = [], cs_server = server\<rparr>) s1;
          s3 = map_object server (map_server_session (\<lambda>x. x\<lparr>ss_client := Some client\<rparr>)) s2 in
      ((server, client), s3))"

definition server_session_wait :: "oid \<Rightarrow> waker \<Rightarrow> ('t, 'z) sched_scheme \<Rightarrow> ('t, 'z) sched_scheme res" where
  "server_session_wait this waker s =
     Ret (map_object this (map_server_session (\<lambda>x. x\<lparr>ss_queue := ss_queue x @ [waker]\<rparr>)) s)"

definition server_session_wake_thread :: "oid \<Rightarrow> ('t, 'z) sched_scheme \<Rightarrow> ('t, 'z) sched_scheme res" where
  "server_session_wake_thread this s =
     and_then (server_session_at s this) (\<lambda>x.
     case ss_queue x of
       [] \<Rightarrow> Ret s
     | waker # rest \<Rightarrow>
         wake_or_panic ''Failed to wake up thread'' this waker
           (map_object this (map_server_session (\<lambda>x. x\<lparr>ss_queue := rest\<rparr>)) s))"

definition enqueue_sync_request :: "oid \<Rightarrow> tid \<Rightarrow> ('t, 'z) sched_scheme \<Rightarrow> ('t, 'z) sched_scheme res" where
  "enqueue_sync_request this thread s =
     server_session_wake_thread this
       (map_object this (map_server_session (\<lambda>x. x\<lparr>ss_requests := ss_requests x @ [thread]\<rparr>)) s)"

definition client_session_wait :: "oid \<Rightarrow> waker \<Rightarrow> ('t, 'z) sched_scheme \<Rightarrow> ('t, 'z) sched_scheme res" where
  "client_session_wait this waker s =
     Ret (map_object this (map_client_session (\<lambda>x. x\<lparr>cs_queue := cs_queue x @ [waker]\<rparr>)) s)"

definition client_session_wake_thread :: "oid \<Rightarrow> ('t, 'z) sched_scheme \<Rightarrow> ('t, 'z) sched_scheme res" where
  "client_session_wake_thread this s =
     and_then (client_session_at s this) (\<lambda>x.
     case cs_queue x of
       [] \<Rightarrow> Ret s
     | waker # rest \<Rightarrow>
         wake_or_panic ''Failed to wake up thread'' this waker
           (map_object this (map_client_session (\<lambda>x. x\<lparr>cs_queue := rest\<rparr>)) s))"

definition enqueue_response :: "oid \<Rightarrow> ('t, 'z) sched_scheme \<Rightarrow> ('t, 'z) sched_scheme res" where
  "enqueue_response this s = client_session_wake_thread this s"

definition sync_request ::
  "(oid \<Rightarrow> bool) \<Rightarrow> oid \<Rightarrow> waker \<Rightarrow> ('t, 'z) sched_scheme \<Rightarrow> (bool \<times> ('t, 'z) sched_scheme) res" where
  "sync_request alive this waker s =
     and_then (client_session_at s this) (\<lambda>x.
     case upgrade alive (cs_server x) of
       Some server \<Rightarrow>
         let s1 = map_object this (map_client_session (\<lambda>x. x\<lparr>cs_queue := cs_queue x @ [waker]\<rparr>)) s in
         and_then (enqueue_sync_request server (wk_thread waker) s1) (\<lambda>s2. Ret (True, s2))
     | None \<Rightarrow> Ret (False, s))"

text \<open>The dispatch of \<open>KSynchronizationObject::wait\<close>; the other kinds of object do not
  implement the trait.\<close>

fun is_sync :: "'t kobj \<Rightarrow> bool" where
  "is_sync (Arbiter _) = False"
| "is_sync (HleCodeSet _) = False"
| "is_sync (LleCodeSet _) = False"
| "is_sync _ = True"

definition sync_wait :: "oid \<Rightarrow> waker \<Rightarrow> ('t, 'z) sched_scheme \<Rightarrow> ('t, 'z) sched_scheme res" where
  "sync_wait this waker s =
     (case object_at s this of
        Some (Event _) \<Rightarrow> event_wait this waker s
      | Some (Timer _) \<Rightarrow> timer_wait this waker s
      | Some (Mutex _) \<Rightarrow> mutex_wait this waker s
      | Some (ThreadObject _) \<Rightarrow> thread_object_wait this waker s
      | Some (ServerPort _) \<Rightarrow> server_port_wait this waker s
      | Some (ClientPort _) \<Rightarrow> client_port_wait this waker s
      | Some (ServerSession _) \<Rightarrow> server_session_wait this waker s
      | Some (ClientSession _) \<Rightarrow> client_session_wait this waker s
      | _ \<Rightarrow> Panic Unreachable)"

section \<open>Facts about ports and sessions\<close>

lemma port_accessors [simp]:
  "server_port_at s i = Ret p \<longleftrightarrow> object_at s i = Some (ServerPort p)"
  "client_port_at s i = Ret q \<longleftrightarrow> object_at s i = Some (ClientPort q)"
  "server_session_at s i = Ret x \<longleftrightarrow> object_at s i = Some (ServerSession x)"
  "client_session_at s i = Ret y \<longleftrightarrow> object_at s i = Some (ClientSession y)"
  by (auto simp: server_port_at_def client_port_at_def server_session_at_def client_session_at_def
      split: option.splits kobj.splits)

lemma pop_and_wake:
  assumes ok: "sched_ok s" and obj: "object_at s i = Some obj" "w \<in> set (wakers_of obj)"
    and f: "set (wakers_of (f obj)) \<subseteq> set (wakers_of obj)" "arbiter_queue_distinct (f obj)"
  shows "\<exists>s'. wake_or_panic msg i w (map_object i f s) = Ret s' \<and> sched_ok s' \<and> all_woken i [w] s s' \<and>
    object_at s' i = Some (remove_wakers (wk_thread w) (f obj))"
proof -
  have ok1: "sched_ok (map_object i f s)" using ok f obj(1) by (intro sched_ok_map_object) auto
  obtain t where t: "thread_at s (wk_thread w) = Some t" "waits_on w i t"
    using queued_live [OF ok obj] by blast
  let ?s' = "woken (wk_thread w) (object_resume i t) (map_object i f s)"
  have "wake_or_panic msg i w (map_object i f s) = Ret ?s'"
    using waker_wake_live [OF ok1 _ t(2)] t(1) by (simp add: wake_or_panic_def)
  moreover have "all_woken i [w] s ?s'" using t(1) by (simp add: all_woken_def thread_at_woken)
  ultimately show ?thesis using sched_ok_woken [OF ok1] obj(1) by simp
qed

lemma all_woken_map:
  "all_woken i ws (map_object i f s) s' \<longleftrightarrow> all_woken i ws s s'"
  by (auto simp: all_woken_def)

lemma all_woken_none: "all_woken i [] s s' \<longleftrightarrow>
    thread_at s' = thread_at s \<and> (\<forall>j. j \<noteq> i \<longrightarrow> object_at s' j = object_at s j)"
  by (simp add: all_woken_def fun_eq_iff option.map_id0 option.map_ident)

text \<open>The queue of an object with its first waker gone, and with it the rest of that thread's.\<close>

definition pop_queue :: "waker list \<Rightarrow> waker list" where
  "pop_queue ws = (case ws of [] \<Rightarrow> [] | w # ws' \<Rightarrow> retain_others (wk_thread w) ws')"

lemma pop_queue_simps [simp]:
  "pop_queue [] = []" "pop_queue (w # ws) = retain_others (wk_thread w) ws"
  by (simp_all add: pop_queue_def)

lemma server_port_wake:
  assumes ok: "sched_ok s" and p: "object_at s i = Some (ServerPort p)"
  shows "\<exists>s'. server_port_wake_thread i s = Ret s' \<and> sched_ok s' \<and> all_woken i (take 1 (sp_queue p)) s s' \<and>
    object_at s' i = Some (ServerPort (p\<lparr>sp_queue := pop_queue (sp_queue p)\<rparr>))"
proof (cases "sp_queue p")
  case (Cons w ws)
  then show ?thesis
    using pop_and_wake [OF ok p, of w "map_server_port (\<lambda>p. p\<lparr>sp_queue := ws\<rparr>)" "''Failed to wake up thread''"] p
    by (auto simp: server_port_wake_thread_def server_port_at_def)
qed (use ok p in \<open>simp add: server_port_wake_thread_def server_port_at_def all_woken_none\<close>)

lemma client_port_wake:
  assumes ok: "sched_ok s" and p: "object_at s i = Some (ClientPort p)"
  shows "\<exists>s'. client_port_wake_thread i s = Ret s' \<and> sched_ok s' \<and> all_woken i (take 1 (cp_queue p)) s s' \<and>
    object_at s' i = Some (ClientPort (p\<lparr>cp_queue := pop_queue (cp_queue p)\<rparr>))"
proof (cases "cp_queue p")
  case (Cons w ws)
  then show ?thesis
    using pop_and_wake [OF ok p, of w "map_client_port (\<lambda>p. p\<lparr>cp_queue := ws\<rparr>)" "''Failed to wake up thread''"] p
    by (auto simp: client_port_wake_thread_def client_port_at_def)
qed (use ok p in \<open>simp add: client_port_wake_thread_def client_port_at_def all_woken_none\<close>)

lemma server_session_wake:
  assumes ok: "sched_ok s" and x: "object_at s i = Some (ServerSession x)"
  shows "\<exists>s'. server_session_wake_thread i s = Ret s' \<and> sched_ok s' \<and> all_woken i (take 1 (ss_queue x)) s s' \<and>
    object_at s' i = Some (ServerSession (x\<lparr>ss_queue := pop_queue (ss_queue x)\<rparr>))"
proof (cases "ss_queue x")
  case (Cons w ws)
  then show ?thesis
    using pop_and_wake [OF ok x, of w "map_server_session (\<lambda>x. x\<lparr>ss_queue := ws\<rparr>)" "''Failed to wake up thread''"] x
    by (auto simp: server_session_wake_thread_def server_session_at_def)
qed (use ok x in \<open>simp add: server_session_wake_thread_def server_session_at_def all_woken_none\<close>)

lemma client_session_wake:
  assumes ok: "sched_ok s" and x: "object_at s i = Some (ClientSession x)"
  shows "\<exists>s'. client_session_wake_thread i s = Ret s' \<and> sched_ok s' \<and> all_woken i (take 1 (cs_queue x)) s s' \<and>
    object_at s' i = Some (ClientSession (x\<lparr>cs_queue := pop_queue (cs_queue x)\<rparr>))"
proof (cases "cs_queue x")
  case (Cons w ws)
  then show ?thesis
    using pop_and_wake [OF ok x, of w "map_client_session (\<lambda>x. x\<lparr>cs_queue := ws\<rparr>)" "''Failed to wake up thread''"] x
    by (auto simp: client_session_wake_thread_def client_session_at_def)
qed (use ok x in \<open>simp add: client_session_wake_thread_def client_session_at_def all_woken_none\<close>)

text \<open>Whether a wait is served at once, and what it does to the object, over all the kinds.\<close>

fun sync_ready :: "'t kobj \<Rightarrow> bool" where
  "sync_ready (Event e) = event_ready (Event e :: 't kobj)"
| "sync_ready (Timer t) = timer_ready (Timer t :: 't kobj)"
| "sync_ready (Mutex m) = mutex_ready (Mutex m :: 't kobj)"
| "sync_ready (ThreadObject t) = thread_object_ready (ThreadObject t :: 't kobj)"
| "sync_ready _ = False"

fun sync_taken :: "'t kobj \<Rightarrow> 't kobj" where
  "sync_taken (Event e) = event_taken (Event e)"
| "sync_taken (Timer t) = timer_taken (Timer t)"
| "sync_taken (Mutex m) = mutex_taken (Mutex m)"
| "sync_taken obj = obj"

fun sync_enqueue :: "waker \<Rightarrow> 't kobj \<Rightarrow> 't kobj" where
  "sync_enqueue w (Event e) = event_enqueue w (Event e)"
| "sync_enqueue w (Timer t) = timer_enqueue w (Timer t)"
| "sync_enqueue w (Mutex m) = mutex_enqueue w (Mutex m)"
| "sync_enqueue w (ThreadObject t) = thread_object_enqueue w (ThreadObject t)"
| "sync_enqueue w (ServerPort p) = ServerPort (p\<lparr>sp_queue := sp_queue p @ [w]\<rparr>)"
| "sync_enqueue w (ClientPort p) = ClientPort (p\<lparr>cp_queue := cp_queue p @ [w]\<rparr>)"
| "sync_enqueue w (ServerSession x) = ServerSession (x\<lparr>ss_queue := ss_queue x @ [w]\<rparr>)"
| "sync_enqueue w (ClientSession x) = ClientSession (x\<lparr>cs_queue := cs_queue x @ [w]\<rparr>)"
| "sync_enqueue w obj = obj"

lemma map_object_Ret:
  "\<lbrakk>r = Ret (map_object i f s); object_at s i = Some obj; f obj = g obj\<rbrakk> \<Longrightarrow> r = Ret (map_object i g s)"
  using map_object_eq [of s i obj f g] by simp

lemma woken_Ret:
  "\<lbrakk>r = Ret (woken j q (map_object i f s)); object_at s i = Some obj; f obj = g obj\<rbrakk> \<Longrightarrow>
     r = Ret (woken j q (map_object i g s))"
  using map_object_eq [of s i obj f g] by simp

lemma sync_wait_ready:
  assumes s: "suspended_on s i w t" and obj: "object_at s i = Some obj" "is_sync obj" "sync_ready obj"
  shows "sync_wait i w s = Ret (woken (wk_thread w) (object_resume i t) (map_object i sync_taken s))"
proof (cases obj)
  case (Event e)
  have "event_wait i w s = Ret (woken (wk_thread w) (object_resume i t) (map_object i sync_taken s))"
    by (rule woken_Ret [OF event_sync.wait_ready [OF s obj(1)] obj(1)]) (use obj(3) Event in simp_all)
  then show ?thesis using obj(1) Event by (simp add: sync_wait_def)
next
  case (Timer e)
  have "timer_wait i w s = Ret (woken (wk_thread w) (object_resume i t) (map_object i sync_taken s))"
    by (rule woken_Ret [OF timer_sync.wait_ready [OF s obj(1)] obj(1)]) (use obj(3) Timer in simp_all)
  then show ?thesis using obj(1) Timer by (simp add: sync_wait_def)
next
  case (Mutex e)
  have "mutex_wait i w s = Ret (woken (wk_thread w) (object_resume i t) (map_object i sync_taken s))"
    by (rule woken_Ret [OF mutex_sync.wait_ready [OF s obj(1)] obj(1)]) (use obj(3) Mutex in simp_all)
  then show ?thesis using obj(1) Mutex by (simp add: sync_wait_def)
next
  case (ThreadObject e)
  have "thread_object_wait i w s = Ret (woken (wk_thread w) (object_resume i t) (map_object i sync_taken s))"
    by (rule woken_Ret [OF thread_sync.wait_ready [OF s obj(1)] obj(1)]) (use obj(3) ThreadObject in simp_all)
  then show ?thesis using obj(1) ThreadObject by (simp add: sync_wait_def)
qed (use obj in simp_all)

lemma sync_wait_queued:
  assumes s: "suspended_on s i w t" and obj: "object_at s i = Some obj" "is_sync obj" "\<not> sync_ready obj"
  shows "sync_wait i w s = Ret (map_object i (sync_enqueue w) s)"
proof (cases obj)
  case (Event e)
  have "event_wait i w s = Ret (map_object i (sync_enqueue w) s)"
    by (rule map_object_Ret [OF event_sync.wait_queued [OF s obj(1)] obj(1)]) (use obj(3) Event in simp_all)
  then show ?thesis using obj(1) Event by (simp add: sync_wait_def)
next
  case (Timer e)
  have "timer_wait i w s = Ret (map_object i (sync_enqueue w) s)"
    by (rule map_object_Ret [OF timer_sync.wait_queued [OF s obj(1)] obj(1)]) (use obj(3) Timer in simp_all)
  then show ?thesis using obj(1) Timer by (simp add: sync_wait_def)
next
  case (Mutex e)
  have "mutex_wait i w s = Ret (map_object i (sync_enqueue w) s)"
    by (rule map_object_Ret [OF mutex_sync.wait_queued [OF s obj(1)] obj(1)]) (use obj(3) Mutex in simp_all)
  then show ?thesis using obj(1) Mutex by (simp add: sync_wait_def)
next
  case (ThreadObject e)
  have "thread_object_wait i w s = Ret (map_object i (sync_enqueue w) s)"
    by (rule map_object_Ret [OF thread_sync.wait_queued [OF s obj(1)] obj(1)]) (use obj(3) ThreadObject in simp_all)
  then show ?thesis using obj(1) ThreadObject by (simp add: sync_wait_def)
next
  case (ServerPort p)
  have "server_port_wait i w s = Ret (map_object i (sync_enqueue w) s)"
    by (rule map_object_Ret [OF server_port_wait_def obj(1)]) (simp add: ServerPort)
  then show ?thesis using obj(1) ServerPort by (simp add: sync_wait_def)
next
  case (ClientPort p)
  have "client_port_wait i w s = Ret (map_object i (sync_enqueue w) s)"
    by (rule map_object_Ret [OF client_port_wait_def obj(1)]) (simp add: ClientPort)
  then show ?thesis using obj(1) ClientPort by (simp add: sync_wait_def)
next
  case (ServerSession p)
  have "server_session_wait i w s = Ret (map_object i (sync_enqueue w) s)"
    by (rule map_object_Ret [OF server_session_wait_def obj(1)]) (simp add: ServerSession)
  then show ?thesis using obj(1) ServerSession by (simp add: sync_wait_def)
next
  case (ClientSession p)
  have "client_session_wait i w s = Ret (map_object i (sync_enqueue w) s)"
    by (rule map_object_Ret [OF client_session_wait_def obj(1)]) (simp add: ClientSession)
  then show ?thesis using obj(1) ClientSession by (simp add: sync_wait_def)
qed (use obj in simp_all)

interpretation sync: sync_object sync_wait is_sync sync_ready sync_taken sync_enqueue
proof unfold_locales
  fix obj :: "'t kobj" and w
  assume "is_sync obj"
  then show "wakers_of (sync_taken obj) = wakers_of obj" "wakers_of (sync_enqueue w obj) = wakers_of obj @ [w]"
    "arbiter_queue_distinct (sync_taken obj) \<and> arbiter_queue_distinct (sync_enqueue w obj)"
    by (cases obj; simp add: event_taken_def timer_taken_def mutex_taken_def event_enqueue_def
        timer_enqueue_def mutex_enqueue_def thread_object_enqueue_def)+
qed (simp_all add: sync_wait_ready sync_wait_queued)

section \<open>Properties\<close>

text \<open>C31: connecting to a live port queues the session behind the earlier ones and wakes the
  server thread that has waited longest on the port.\<close>

theorem port_create_session_queues:
  assumes ok: "sched_ok s" and c: "object_at s i = Some (ClientPort c)" "alive (cp_server c)"
    and p: "object_at s (cp_server c) = Some (ServerPort p)"
  shows "\<exists>s'. port_create_session alive i session s = Ret s' \<and> sched_ok s' \<and>
    all_woken (cp_server c) (take 1 (sp_queue p)) s s' \<and>
    object_at s' (cp_server c) = Some (ServerPort
      (p\<lparr>sp_sessions := sp_sessions p @ [session], sp_queue := pop_queue (sp_queue p)\<rparr>))"
proof -
  let ?j = "cp_server c"
  let ?s1 = "map_object ?j (map_server_port (\<lambda>p. p\<lparr>sp_sessions := sp_sessions p @ [session]\<rparr>)) s"
  have ok1: "sched_ok ?s1" using ok by (rule sched_ok_map_object) (use p in simp)
  have p1: "object_at ?s1 ?j = Some (ServerPort (p\<lparr>sp_sessions := sp_sessions p @ [session]\<rparr>))"
    using p by simp
  obtain s' where "server_port_wake_thread ?j ?s1 = Ret s'" "sched_ok s'"
      "all_woken ?j (take 1 (sp_queue p)) s s'"
      "object_at s' ?j = Some (ServerPort
        (p\<lparr>sp_sessions := sp_sessions p @ [session], sp_queue := pop_queue (sp_queue p)\<rparr>))"
    using server_port_wake [OF ok1 p1] by (auto simp: all_woken_map)
  then show ?thesis
    using c by (simp add: port_create_session_def client_port_at_def upgrade_def enqueue_session_def)
qed

text \<open>C32: accepting takes the oldest session off the port and wakes the client thread that has
  waited longest; with no session it changes nothing.\<close>

theorem accept_session_in_order:
  assumes ok: "sched_ok s" and p: "object_at s i = Some (ServerPort p)"
    and c: "sp_client p = Some j" "alive j" "j \<noteq> i" "object_at s j = Some (ClientPort c)"
  shows "\<exists>s'. accept_session alive i s =
      Ret (case sp_sessions p of [] \<Rightarrow> None | session # _ \<Rightarrow> Some session, s') \<and> sched_ok s' \<and>
    (if sp_sessions p = [] then s' = s
     else all_woken j (take 1 (cp_queue c)) (map_object i (map_server_port (\<lambda>p. p\<lparr>sp_sessions := tl (sp_sessions p)\<rparr>)) s) s')"
proof (cases "sp_sessions p")
  case Nil
  then show ?thesis using ok p by (simp add: accept_session_def server_port_at_def)
next
  case (Cons session rest)
  let ?s1 = "map_object i (map_server_port (\<lambda>p. p\<lparr>sp_sessions := rest\<rparr>)) s"
  have same: "map_object i (map_server_port (\<lambda>p. p\<lparr>sp_sessions := tl (sp_sessions p)\<rparr>)) s = ?s1"
    using p by (rule map_object_eq) (simp add: Cons)
  have ok1: "sched_ok ?s1" using ok by (rule sched_ok_map_object) (use p in simp)
  have c1: "object_at ?s1 j = Some (ClientPort c)" using c by simp
  obtain s' where "client_port_wake_thread j ?s1 = Ret s'" "sched_ok s'"
      "all_woken j (take 1 (cp_queue c)) ?s1 s'"
    using client_port_wake [OF ok1 c1] by blast
  then show ?thesis
    using p c Cons same by (simp add: accept_session_def server_port_at_def upgrade_def)
qed

text \<open>A request sent through a session whose server is there puts the calling thread at the
  end of the server's requests and of the session's queue, and wakes the server thread that has
  waited longest; queues and threads agree afterwards.\<close>

lemma sync_request_queues:
  assumes s: "suspended_on s i w t" and c: "object_at s i = Some (ClientSession c)"
    and x: "alive (cs_server c)" "object_at s (cs_server c) = Some (ServerSession x)"
  shows "\<exists>s'. sync_request alive i w s = Ret (True, s') \<and> sched_ok s' \<and>
    (\<forall>j. thread_at s' j =
       (if j \<in> wk_thread ` set (take 1 (ss_queue x))
        then map_option (\<lambda>t. awake (object_resume (cs_server c) t) t) (thread_at s j) else thread_at s j)) \<and>
    object_at s' (cs_server c) = Some (ServerSession
      (x\<lparr>ss_requests := ss_requests x @ [wk_thread w], ss_queue := pop_queue (ss_queue x)\<rparr>)) \<and>
    object_at s' i = Some (fold remove_wakers (map wk_thread (take 1 (ss_queue x)))
      (ClientSession (c\<lparr>cs_queue := cs_queue c @ [w]\<rparr>)))"
proof -
  let ?j = "cs_server c"
  have ne: "?j \<noteq> i" using c x(2) by auto
  let ?s1 = "map_object i (map_client_session (\<lambda>x. x\<lparr>cs_queue := cs_queue x @ [w]\<rparr>)) s"
  let ?s2 = "map_object ?j (map_server_session (\<lambda>x. x\<lparr>ss_requests := ss_requests x @ [wk_thread w]\<rparr>)) ?s1"
  have ok1: "sched_ok ?s1" using s by (rule sched_ok_append) (use c in simp)
  have ok2: "sched_ok ?s2" using ok1 by (rule sched_ok_map_object) (use x ne in simp)
  have x2: "object_at ?s2 ?j = Some (ServerSession (x\<lparr>ss_requests := ss_requests x @ [wk_thread w]\<rparr>))"
    using x ne by simp
  obtain s' where s': "server_session_wake_thread ?j ?s2 = Ret s'" "sched_ok s'"
      "all_woken ?j (take 1 (ss_queue x)) ?s2 s'"
      "object_at s' ?j = Some (ServerSession
        (x\<lparr>ss_requests := ss_requests x @ [wk_thread w], ss_queue := pop_queue (ss_queue x)\<rparr>))"
    using server_session_wake [OF ok2 x2] by auto
  have "sync_request alive i w s = Ret (True, s')"
    using c x s'(1) by (simp add: sync_request_def client_session_at_def upgrade_def enqueue_sync_request_def)
  then show ?thesis using s'(2-4) c ne by (simp add: all_woken_def)
qed

section \<open>Witnesses\<close>

text \<open>A server thread that waits for object 0, and a client thread that has just suspended itself
  on object 1.\<close>

definition server_client :: "unit kobj \<Rightarrow> unit kobj \<Rightarrow> unit sched" where
  "server_client server client =
     \<lparr>sc_objects = [server, client],
      sc_threads = [waiter 0, (waiter 1)\<lparr>ct_wait_objects := [1]\<rparr>]\<rparr>"

lemma server_client_ok:
  "\<lbrakk>wakers_of server = [\<lparr>wk_thread = 0, wk_key = 0\<rparr>]; wakers_of client = []; is_sync server; is_sync client\<rbrakk> \<Longrightarrow>
     sched_ok (server_client server client)"
  by (cases server; cases client)
    (auto simp: sched_ok_def queues_live_def server_client_def waiter_def thread_new_def waits_on_def less_Suc_eq)

lemma server_client_at [simp]:
  "object_at (server_client server client) 0 = Some server"
  "object_at (server_client server client) 1 = Some client"
  "object_at (server_client server client) (Suc 0) = Some client"
  "thread_at (server_client server client) 0 = Some (waiter 0)"
  "thread_at (server_client server client) 1 = Some ((waiter 1)\<lparr>ct_wait_objects := [1]\<rparr>)"
  "thread_at (server_client server client) (Suc 0) = Some ((waiter 1)\<lparr>ct_wait_objects := [1]\<rparr>)"
  by (simp_all add: server_client_def object_at_def thread_at_def waiter_def thread_new_def)

theorem port_create_session_queues_witness:
  "\<exists>s'. port_create_session (\<lambda>_. True) 1 7 (server_client
      (ServerPort \<lparr>sp_queue = [\<lparr>wk_thread = 0, wk_key = 0\<rparr>], sp_sessions = [4], sp_client = Some 1\<rparr>)
      (ClientPort \<lparr>cp_queue = [], cp_server = 0\<rparr>)) = Ret s' \<and>
    thread_at s' 0 = Some (awake ResumeNormal (waiter 0)) \<and>
    object_at s' 0 = Some (ServerPort \<lparr>sp_queue = [], sp_sessions = [4, 7], sp_client = Some 1\<rparr>)"
proof -
  let ?p = "\<lparr>sp_queue = [\<lparr>wk_thread = 0, wk_key = 0\<rparr>], sp_sessions = [4], sp_client = Some 1\<rparr>"
  let ?c = "\<lparr>cp_queue = [], cp_server = 0\<rparr>"
  have "sched_ok (server_client (ServerPort ?p) (ClientPort ?c))" by (rule server_client_ok) simp_all
  from port_create_session_queues [OF this, of 1 ?c "\<lambda>_. True" ?p 7] show ?thesis
    by (auto simp: all_woken_def retain_others_def)
qed

theorem accept_session_in_order_witness:
  "\<exists>s'. accept_session (\<lambda>_. True) 1 (server_client
      (ClientPort \<lparr>cp_queue = [\<lparr>wk_thread = 0, wk_key = 0\<rparr>], cp_server = 1\<rparr>)
      (ServerPort \<lparr>sp_queue = [], sp_sessions = [4, 7], sp_client = Some 0\<rparr>)) = Ret (Some 4, s') \<and>
    thread_at s' 0 = Some (awake ResumeNormal (waiter 0)) \<and>
    object_at s' 1 = Some (ServerPort \<lparr>sp_queue = [], sp_sessions = [7], sp_client = Some 0\<rparr>)"
proof -
  let ?p = "\<lparr>sp_queue = [], sp_sessions = [4, 7], sp_client = Some 0\<rparr>"
  let ?c = "\<lparr>cp_queue = [\<lparr>wk_thread = 0, wk_key = 0\<rparr>], cp_server = 1\<rparr>"
  have "sched_ok (server_client (ClientPort ?c) (ServerPort ?p))" by (rule server_client_ok) simp_all
  from accept_session_in_order [OF this, of 1 ?p 0 "\<lambda>_. True" ?c] show ?thesis
    by (auto simp: all_woken_def retain_others_def)
qed

end
