(* ===== verification/Kernel.thy ===== *)
theory Kernel
  imports Ports IpcRoundTrip
begin

text \<open>
  \<open>KernelImpl\<close> of \<open>kernel/src/lib.rs\<close>: processes, threads and their execution, the tick, the
  port and interrupt registries, and the translation of IPC messages between processes; with
  it \<open>receive\<close> and \<open>reply\<close> of \<open>hle/src/session.rs\<close> and \<open>hle/src/codeset.rs\<close>.

  The state extends \<open>sched\<close>.  What lies outside is a parameter: \<open>draws\<close> the generator of the
  handle tables, \<open>now\<close> the reading of the clock crate, \<open>alive\<close> which objects a weak reference
  can still reach, \<open>run\<close> the body of a thread (\<open>Thread::resume\<close>, which gets the whole kernel)
  and \<open>init_thread\<close> the \<open>Process\<close> trait's.  The two hash maps are maps.
\<close>

section \<open>State\<close>

record ('t, 'p) kernel = "'t sched" +
  k_processes :: "(oid common_process \<times> 'p) list"
  k_thread_boxes :: "(tid \<times> 't option) list"
  k_current :: "(u32 \<times> tid) option"
  k_next :: "tid option"
  k_next_pid :: u32
  k_next_tid :: u32
  k_ports :: "u8 list \<Rightarrow> oid option"
  k_interrupts :: "u32 \<Rightarrow> oid option"
  k_active_interrupts :: "u32 list"
  k_start_time :: u64

definition kernel_new :: "u64 \<Rightarrow> ('t, 'p) kernel" where
  "kernel_new now =
     \<lparr>sc_objects = [], sc_threads = [], k_processes = [], k_thread_boxes = [],
      k_current = None, k_next = None, k_next_pid = 0, k_next_tid = 0,
      k_ports = (\<lambda>_. None), k_interrupts = (\<lambda>_. None), k_active_interrupts = [],
      k_start_time = now\<rparr>"

section \<open>Processes and threads\<close>

definition find_common_process :: "u32 \<Rightarrow> (oid common_process \<times> 'p) list \<Rightarrow> oid common_process res" where
  "find_common_process pid ps =
     expect ''Couldn't find Process'' (find (\<lambda>p. cp_pid p = pid) (map fst ps))"

definition find_process :: "u32 \<Rightarrow> (oid common_process \<times> 'p) list \<Rightarrow> 'p res" where
  "find_process pid ps =
     expect ''Couldn't find Box<Process>'' (map_option snd (find (\<lambda>(p, _). cp_pid p = pid) ps))"

text \<open>Storing back a process whose handle table changed.\<close>

definition put_process ::
  "u32 \<Rightarrow> oid common_process \<Rightarrow> (oid common_process \<times> 'p) list \<Rightarrow> (oid common_process \<times> 'p) list" where
  "put_process pid p ps = update_first (\<lambda>(p, _). cp_pid p = pid) (\<lambda>(_, x). (p, x)) ps"

definition current_pid_tid :: "('t, 'p) kernel \<Rightarrow> (u32 \<times> tid) res" where
  "current_pid_tid k = expect ''No current thread'' (k_current k)"

definition current_process :: "('t, 'p) kernel \<Rightarrow> oid common_process res" where
  "current_process k =
     and_then (expect ''No current process'' (k_current k)) (\<lambda>(pid, _).
     find_common_process pid (k_processes k))"

definition current_thread :: "('t, 'p) kernel \<Rightarrow> common_thread res" where
  "current_thread k =
     and_then (expect ''No current thread'' (k_current k)) (\<lambda>(_, i). find_thread i (sc_threads k))"

definition kernel_new_handle :: "(nat \<Rightarrow> u32) \<Rightarrow> oid \<Rightarrow> ('t, 'p) kernel \<Rightarrow> (handle \<times> ('t, 'p) kernel) res" where
  "kernel_new_handle draws obj k =
     and_then (current_process k) (\<lambda>p.
     and_then (process_new_handle draws obj p) (\<lambda>(h, p').
     Ret (h, k\<lparr>k_processes := put_process (cp_pid p) p' (k_processes k)\<rparr>)))"

definition kernel_lookup_handle :: "handle \<Rightarrow> ('t, 'p) kernel \<Rightarrow> oid option res" where
  "kernel_lookup_handle h k = and_then (current_process k) (\<lambda>p. Ret (process_lookup_handle h p))"

definition new_object_handle ::
  "(nat \<Rightarrow> u32) \<Rightarrow> 't kobj \<Rightarrow> ('t, 'p) kernel \<Rightarrow> ((oid \<times> handle) \<times> ('t, 'p) kernel) res" where
  "new_object_handle draws obj k =
     (let (i, k1) = new_object obj k in
      and_then (kernel_new_handle draws i k1) (\<lambda>(h, k2). Ret ((i, h), k2)))"

definition new_process :: "string \<Rightarrow> 'p \<Rightarrow> ('t, 'p) kernel \<Rightarrow> (u32 \<times> ('t, 'p) kernel) res" where
  "new_process name process k =
     (let pid = k_next_pid k in
      and_then (cadd pid 1) (\<lambda>next.
      Ret (pid, k\<lparr>k_next_pid := next,
        k_processes := k_processes k @
          [(\<lparr>cp_pid = pid, cp_name = name, cp_objects = table_new\<rparr>, process)]\<rparr>)))"

text \<open>\<open>new_thread_boxed\<close>, with \<open>HLEHooks::make_hle_thread_object\<close> of \<open>hle/src/lib.rs\<close>.\<close>

definition new_thread :: "u32 \<Rightarrow> 't \<Rightarrow> ('t, 'p) kernel \<Rightarrow> ((tid \<times> oid) \<times> ('t, 'p) kernel) res" where
  "new_thread pid thread k =
     (let tid = k_next_tid k in
      and_then (cadd tid 1) (\<lambda>next.
      let index = unat tid;
          (obj, k1) = new_object (ThreadObject (thread_object_new index)) (k\<lparr>k_next_tid := next\<rparr>) in
      Ret ((index, obj),
        k1\<lparr>sc_threads := sc_threads k1 @ [thread_new pid index obj],
           k_thread_boxes := k_thread_boxes k1 @ [(index, Some thread)]\<rparr>)))"

record thread_initializer =
  ti_entrypoint :: u32
  ti_stack_top :: u32
  ti_arg :: u32

text \<open>\<open>init_thread\<close> may change the process and what it shares with the caller, the memory \<open>mem\<close> of
  a guest.\<close>

definition create_thread ::
  "(nat \<Rightarrow> u32) \<Rightarrow> ('p \<Rightarrow> thread_initializer \<Rightarrow> 'm \<Rightarrow> ('t \<times> 'p \<times> 'm) res) \<Rightarrow> thread_initializer \<Rightarrow> 'm \<Rightarrow>
     ('t, 'p) kernel \<Rightarrow> ((tid \<times> handle) \<times> 'm \<times> ('t, 'p) kernel) res" where
  "create_thread draws init_thread init mem k =
     and_then (current_pid_tid k) (\<lambda>(pid, _).
     and_then (find_process pid (k_processes k)) (\<lambda>process.
     and_then (init_thread process init mem) (\<lambda>(thread, process', mem').
     let k1 = k\<lparr>k_processes :=
       update_first (\<lambda>(p, _). cp_pid p = pid) (\<lambda>(p, _). (p, process')) (k_processes k)\<rparr> in
     and_then (new_thread pid thread k1) (\<lambda>((index, obj), k2).
     and_then (kernel_new_handle draws obj k2) (\<lambda>(h, k3). Ret ((index, h), mem', k3))))))"

definition suspend_thread ::
  "oid list \<Rightarrow> u64 option \<Rightarrow> thread_wait_type \<Rightarrow> ('t, 'p) kernel \<Rightarrow> (waker \<times> ('t, 'p) kernel) res" where
  "suspend_thread objects timeout wt k =
     and_then (current_pid_tid k) (\<lambda>(_, i). suspend_current i objects timeout wt k)"

definition exit_thread :: "('t, 'p) kernel \<Rightarrow> ('t, 'p) kernel res" where
  "exit_thread k =
     and_then (current_pid_tid k) (\<lambda>(_, i).
     and_then (find_thread i (sc_threads k)) (\<lambda>t.
     thread_object_exit (ct_kobj t)
       (k\<lparr>sc_threads := put_thread i (t\<lparr>ct_state := Done\<rparr>) (sc_threads k)\<rparr>)))"

definition set_thread_ipc_data :: "u8 list \<Rightarrow> ('t, 'p) kernel \<Rightarrow> ('t, 'p) kernel res" where
  "set_thread_ipc_data data k =
     and_then (current_pid_tid k) (\<lambda>(_, i).
     and_then (find_thread i (sc_threads k)) (\<lambda>t.
     Ret (k\<lparr>sc_threads := put_thread i (t\<lparr>ct_ipc_data := data\<rparr>) (sc_threads k)\<rparr>)))"

definition get_thread_ipc_data :: "('t, 'p) kernel \<Rightarrow> u8 list res" where
  "get_thread_ipc_data k =
     and_then (current_pid_tid k) (\<lambda>(_, i).
     and_then (find_thread i (sc_threads k)) (\<lambda>t. Ret (ct_ipc_data t)))"

section \<open>Execution\<close>

definition schedule_next :: "tid \<Rightarrow> ('t, 'p) kernel \<Rightarrow> ('t, 'p) kernel" where
  "schedule_next i k = k\<lparr>k_next := Some i\<rparr>"

definition take_thread_box :: "tid \<Rightarrow> ('t, 'p) kernel \<Rightarrow> ('t \<times> ('t, 'p) kernel) res" where
  "take_thread_box i k =
     and_then (expect ''Couldn't find Box<Thread>'' (find (\<lambda>b. fst b = i) (k_thread_boxes k))) (\<lambda>(_, box).
     and_then (expect ''Thread is locked outside, unavailable to kernel. This means we have reentrant thread execution'' box)
       (\<lambda>thread.
     Ret (thread, k\<lparr>k_thread_boxes :=
       update_first (\<lambda>b. fst b = i) (\<lambda>(j, _). (j, None)) (k_thread_boxes k)\<rparr>)))"

definition replace_thread_box :: "tid \<Rightarrow> 't \<Rightarrow> ('t, 'p) kernel \<Rightarrow> ('t, 'p) kernel res" where
  "replace_thread_box i thread k =
     and_then (expect ''Couldn't find Box<Thread>'' (find (\<lambda>b. fst b = i) (k_thread_boxes k))) (\<lambda>(_, box).
     if box \<noteq> None
     then Panic (Expect ''Replacing thread box when thread is already available to kernel'')
     else Ret (k\<lparr>k_thread_boxes :=
       update_first (\<lambda>b. fst b = i) (\<lambda>(j, _). (j, Some thread)) (k_thread_boxes k)\<rparr>))"

definition run_thread ::
  "('t \<Rightarrow> thread_resume \<Rightarrow> ('t, 'p) kernel \<Rightarrow> ('t \<times> ('t, 'p) kernel) res) \<Rightarrow> tid \<Rightarrow> ('t, 'p) kernel \<Rightarrow>
     ('t, 'p) kernel res" where
  "run_thread run index k =
     and_then (find_thread index (sc_threads k)) (\<lambda>t.
     and_then (guard Assertion (ct_state t = Ready)) (\<lambda>_.
     let resume = ct_resume t;
         k1 = k\<lparr>sc_threads := put_thread index (t\<lparr>ct_state := Running, ct_resume := ResumeNormal\<rparr>)
                  (sc_threads k)\<rparr> in
     and_then (find_common_process (ct_pid t) (k_processes k1)) (\<lambda>_.
     let k2 = k1\<lparr>k_current := Some (ct_pid t, index)\<rparr> in
     and_then (take_thread_box index k2) (\<lambda>(thread, k3).
     and_then (run thread resume k3) (\<lambda>(thread', k4).
     and_then (replace_thread_box index thread' k4) (\<lambda>k5.
     and_then (expect ''Current execution thread is gone'' (k_current k5)) (\<lambda>(_, index').
     let k6 = k5\<lparr>k_current := None\<rparr> in
     and_then (find_thread index' (sc_threads k6)) (\<lambda>t'.
     let t'' = (if ct_state t' = Running then t'\<lparr>ct_state := Ready\<rparr> else t');
         k7 = k6\<lparr>sc_threads := put_thread index' t'' (sc_threads k6)\<rparr> in
     and_then (find_common_process (ct_pid t'') (k_processes k7)) (\<lambda>_. Ret k7)))))))))"

definition run_next ::
  "('t \<Rightarrow> thread_resume \<Rightarrow> ('t, 'p) kernel \<Rightarrow> ('t \<times> ('t, 'p) kernel) res) \<Rightarrow> ('t, 'p) kernel \<Rightarrow>
     ('t, 'p) kernel res" where
  "run_next run k =
     (let index = (case k_next k of Some i \<Rightarrow> Some i | None \<Rightarrow> next_thread (sc_threads k));
          k1 = k\<lparr>k_next := None\<rparr> in
      case index of Some i \<Rightarrow> run_thread run i k1 | None \<Rightarrow> Ret k1)"

section \<open>The tick\<close>

definition kernel_time :: "u64 \<Rightarrow> ('t, 'p) kernel \<Rightarrow> u64 res" where
  "kernel_time now k = csub now (k_start_time k)"

text \<open>One object of the sweep over \<open>ObjectManager\<close>'s weak references.\<close>

definition tick_object :: "(oid \<Rightarrow> bool) \<Rightarrow> u64 \<Rightarrow> oid \<Rightarrow> ('t, 'z) sched_scheme \<Rightarrow> ('t, 'z) sched_scheme res" where
  "tick_object alive time i s =
     (case upgrade alive i of
        None \<Rightarrow> Ret s
      | Some obj \<Rightarrow> (case object_at s obj of Some (Timer _) \<Rightarrow> timer_tick obj time s | _ \<Rightarrow> Ret s))"

definition tick_at :: "(oid \<Rightarrow> bool) \<Rightarrow> u64 \<Rightarrow> ('t, 'z) sched_scheme \<Rightarrow> ('t, 'z) sched_scheme res" where
  "tick_at alive time s =
     and_then (tick_threads time (sc_threads s) (sc_objects s)) (\<lambda>(threads, objects).
     fold_res (tick_object alive time) [0..<length objects]
       (s\<lparr>sc_threads := threads, sc_objects := objects\<rparr>))"

definition deliver_interrupt :: "u32 \<Rightarrow> ('t, 'p) kernel \<Rightarrow> ('t, 'p) kernel res" where
  "deliver_interrupt interrupt k =
     (case k_interrupts k interrupt of Some event \<Rightarrow> event_signal event k | None \<Rightarrow> Ret k)"

definition tick :: "(oid \<Rightarrow> bool) \<Rightarrow> u64 \<Rightarrow> ('t, 'p) kernel \<Rightarrow> ('t, 'p) kernel res" where
  "tick alive now k =
     and_then (kernel_time now k) (\<lambda>time.
     and_then (tick_at alive time k) (\<lambda>k1.
     fold_res deliver_interrupt (k_active_interrupts k1) (k1\<lparr>k_active_interrupts := []\<rparr>)))"

definition activate_interrupt :: "u32 \<Rightarrow> ('t, 'p) kernel \<Rightarrow> ('t, 'p) kernel" where
  "activate_interrupt interrupt k = k\<lparr>k_active_interrupts := k_active_interrupts k @ [interrupt]\<rparr>"

definition bind_interrupt :: "u32 \<Rightarrow> oid \<Rightarrow> ('t, 'p) kernel \<Rightarrow> ('t, 'p) kernel" where
  "bind_interrupt name event k = k\<lparr>k_interrupts := (k_interrupts k)(name \<mapsto> event)\<rparr>"

definition unbind_interrupt :: "u32 \<Rightarrow> ('t, 'p) kernel \<Rightarrow> ('t, 'p) kernel" where
  "unbind_interrupt name k = k\<lparr>k_interrupts := (k_interrupts k)(name := None)\<rparr>"

section \<open>The port registry\<close>

definition register_port :: "u8 list \<Rightarrow> oid \<Rightarrow> ('t, 'p) kernel \<Rightarrow> ('t, 'p) kernel res" where
  "register_port name port k =
     and_then (guard OutOfRange (length name \<le> 8)) (\<lambda>_.
     Ret (k\<lparr>k_ports := (k_ports k)(overwrite 0 name (replicate 8 0) \<mapsto> port)\<rparr>))"

definition lookup_port :: "u8 list \<Rightarrow> ('t, 'p) kernel \<Rightarrow> oid option" where
  "lookup_port name k =
     (if length name > 8 then None else k_ports k (overwrite 0 name (replicate 8 0)))"

section \<open>IPC translation\<close>

definition translate_handle ::
  "(nat \<Rightarrow> u32) \<Rightarrow> u32 \<Rightarrow> u32 \<Rightarrow> bool \<Rightarrow> handle option \<Rightarrow> (oid common_process \<times> 'p) list \<Rightarrow>
     (handle option \<times> (oid common_process \<times> 'p) list) res" where
  "translate_handle draws src dest moved handle ps =
     (case handle of
        None \<Rightarrow> Ret (None, ps)
      | Some h \<Rightarrow>
          and_then (find_common_process src ps) (\<lambda>sp.
          let (kobj, sp') = (if moved then process_lookup_close_handle h sp
                             else (process_lookup_handle h sp, sp));
              ps1 = put_process src sp' ps in
          case kobj of
            None \<Rightarrow> Ret (None, ps1)
          | Some obj \<Rightarrow>
              and_then (find_common_process dest ps1) (\<lambda>dp.
              and_then (process_new_handle draws obj dp) (\<lambda>(h', dp').
              Ret (Some h', put_process dest dp' ps1)))))"

primrec translate_handles ::
  "(nat \<Rightarrow> u32) \<Rightarrow> u32 \<Rightarrow> u32 \<Rightarrow> bool \<Rightarrow> handle option list \<Rightarrow> (oid common_process \<times> 'p) list \<Rightarrow>
     (handle option list \<times> (oid common_process \<times> 'p) list) res" where
  "translate_handles draws src dest moved [] ps = Ret ([], ps)"
| "translate_handles draws src dest moved (h # hs) ps =
     and_then (translate_handle draws src dest moved h ps) (\<lambda>(h', ps1).
     and_then (translate_handles draws src dest moved hs ps1) (\<lambda>(hs', ps2). Ret (h' # hs', ps2)))"

primrec translate_normals :: "nat \<Rightarrow> ipc_reader \<Rightarrow> ipc_writer \<Rightarrow> (ipc_reader \<times> ipc_writer) res" where
  "translate_normals 0 r w = Ret (r, w)"
| "translate_normals (Suc n) r w =
     and_then (reader_read_normal r) (\<lambda>(x, r1).
     and_then (writer_write_normal x w) (\<lambda>w1. translate_normals n r1 w1))"

text \<open>The loop over the translate parameters: handles are moved or copied between the two
  processes, any other parameter is skipped.  Reading a parameter uses up at least one of the
  announced words, so the loop ends.\<close>

function translate_params ::
  "(nat \<Rightarrow> u32) \<Rightarrow> u32 \<Rightarrow> u32 \<Rightarrow> ipc_reader \<Rightarrow> ipc_writer \<Rightarrow> (oid common_process \<times> 'p) list \<Rightarrow>
     (ipc_writer \<times> (oid common_process \<times> 'p) list) res" where
  "translate_params draws src dest r w ps =
     (if reader_has_more r
      then and_then (reader_read_translate r) (\<lambda>(param, r1).
           case param of
             TpHandle moved calling (HSingle h) \<Rightarrow>
               and_then (translate_handle draws src dest moved h ps) (\<lambda>(h', ps1).
               and_then (writer_write_translate (TpHandle moved calling (HSingle h')) w) (\<lambda>w1.
               translate_params draws src dest r1 w1 ps1))
           | TpHandle moved calling (HMultiple hs) \<Rightarrow>
               and_then (translate_handles draws src dest moved hs ps) (\<lambda>(hs', ps1).
               and_then (writer_write_translate (TpHandle moved calling (HMultiple hs')) w) (\<lambda>w1.
               translate_params draws src dest r1 w1 ps1))
           | TpStaticBuffer _ _ _ \<Rightarrow> translate_params draws src dest r1 w ps
           | TpBufferMapping _ _ _ \<Rightarrow> translate_params draws src dest r1 w ps)
      else Ret (w, ps))"
  by pat_completeness auto
termination
  by (relation "measure (\<lambda>(draws, src, dest, r, w, ps). unat (pc_translate r))")
    (auto simp: reader_read_translate_def dest: pc_read_translate_consumes)

declare translate_params.simps [simp del]

definition translate_ipc ::
  "(nat \<Rightarrow> u32) \<Rightarrow> tid \<Rightarrow> tid \<Rightarrow> bool \<Rightarrow> ('t, 'p) kernel \<Rightarrow> ('t, 'p) kernel res" where
  "translate_ipc draws src dest reply k =
     and_then (find_thread_pair (src, dest) (sc_threads k)) (\<lambda>(src_thread, thread).
     and_then (find_common_process (ct_pid src_thread) (k_processes k)) (\<lambda>_.
     and_then (find_common_process (ct_pid thread) (k_processes k)) (\<lambda>_.
     and_then (if reply then reader_new_response (ct_ipc_data src_thread)
               else reader_new_request (ct_ipc_data src_thread)) (\<lambda>r.
     let header = rd_header r in
     and_then (if reply
               then writer_new_response (hd_command header) (rd_result r) (ct_ipc_data thread)
               else writer_new_request (hd_command header) (ct_ipc_data thread)) (\<lambda>w.
     and_then (translate_normals (unat (hd_normal header)) r w) (\<lambda>(r1, w1).
     and_then (translate_params draws (ct_pid src_thread) (ct_pid thread) r1 w1 (k_processes k))
       (\<lambda>(w2, ps).
     and_then (writer_finish w2) (\<lambda>data.
     Ret (k\<lparr>k_processes := ps,
            sc_threads := put_thread dest (thread\<lparr>ct_ipc_data := data\<rparr>) (sc_threads k)\<rparr>)))))))))"

section \<open>Receiving and replying\<close>

definition session_receive ::
  "(nat \<Rightarrow> u32) \<Rightarrow> oid \<Rightarrow> tid \<Rightarrow> ('t, 'p) kernel \<Rightarrow> (bool \<times> ('t, 'p) kernel) res" where
  "session_receive draws this this_thread k =
     and_then (server_session_at k this) (\<lambda>x.
     case ss_requests x of
       request # _ \<Rightarrow> and_then (translate_ipc draws request this_thread False k) (\<lambda>k1. Ret (True, k1))
     | [] \<Rightarrow> Ret (False, k))"

definition session_reply ::
  "(oid \<Rightarrow> bool) \<Rightarrow> (nat \<Rightarrow> u32) \<Rightarrow> oid \<Rightarrow> tid \<Rightarrow> ('t, 'p) kernel \<Rightarrow> ('t, 'p) kernel res" where
  "session_reply alive draws this this_thread k =
     and_then (server_session_at k this) (\<lambda>x.
     case ss_requests x of
       [] \<Rightarrow> Panic (Expect ''Server replied to nobody'')
     | request # rest \<Rightarrow>
         let k1 = map_object this (map_server_session (\<lambda>x. x\<lparr>ss_requests := rest\<rparr>)) k in
         and_then (translate_ipc draws this_thread request True k1) (\<lambda>k2.
         and_then (expect ''Client disconnected before reply'' (Option.bind (ss_client x) (upgrade alive)))
           (\<lambda>client. enqueue_response client k2)))"

section \<open>Code sets\<close>

fun map_hle_codeset :: "('t hle_codeset \<Rightarrow> 't hle_codeset) \<Rightarrow> 't kobj \<Rightarrow> 't kobj" where
  "map_hle_codeset f (HleCodeSet c) = HleCodeSet (f c)"
| "map_hle_codeset f obj = obj"

text \<open>\<open>HLECodeSetImpl::create_process\<close>, the only code set that implements the method; the
  process is \<open>ProcessHLE\<close>.\<close>

definition codeset_create_process :: "'p \<Rightarrow> oid \<Rightarrow> ('t, 'p) kernel \<Rightarrow> ('t, 'p) kernel res" where
  "codeset_create_process process_hle this k =
     (case object_at k this of
        Some (HleCodeSet c) \<Rightarrow>
          and_then (new_process (hc_process_name c) process_hle k) (\<lambda>(pid, k1).
          and_then (expect ''CodeSet already used'' (hc_main_thread c)) (\<lambda>main.
          let k2 = map_object this (map_hle_codeset (\<lambda>c. c\<lparr>hc_main_thread := None\<rparr>)) k1 in
          and_then (new_thread pid main k2) (\<lambda>(_, k3). Ret k3)))
      | _ \<Rightarrow> Panic Unreachable)"

end
