(* ===== verification/KernelFacts.thy ===== *)
theory KernelFacts
  imports Kernel
begin

text \<open>
  Facts about the operations of \<open>Kernel\<close>: what a tick and the delivery of interrupts do to
  the threads, which thread runs, the registries, the handles a translated message carries,
  and the ids of new processes and threads.
\<close>

section \<open>Operations that only wake waiting threads\<close>

fun kobj_tag :: "'t kobj \<Rightarrow> nat" where
  "kobj_tag (Event _) = 0"
| "kobj_tag (Timer _) = 1"
| "kobj_tag (Mutex _) = 2"
| "kobj_tag (ThreadObject _) = 3"
| "kobj_tag (Arbiter _) = 4"
| "kobj_tag (ServerPort _) = 5"
| "kobj_tag (ClientPort _) = 6"
| "kobj_tag (ServerSession _) = 7"
| "kobj_tag (ClientSession _) = 8"
| "kobj_tag (HleCodeSet _) = 9"
| "kobj_tag (LleCodeSet _) = 10"

lemma kobj_tag_event: "kobj_tag obj = 0 \<Longrightarrow> \<exists>e. obj = Event e"
  by (cases obj) auto

lemma kobj_tag_remove [simp]: "kobj_tag (remove_wakers i obj) = kobj_tag obj"
  by (cases obj) simp_all

lemma kobj_tag_fold [simp]: "kobj_tag (fold remove_wakers is obj) = kobj_tag obj"
  by (induction "is" arbitrary: obj) simp_all

text \<open>The invariant holds afterwards, every thread that was not waiting is as it was, and every
  object is still there with its kind.\<close>

definition only_wakes :: "('t, 'z) sched_scheme \<Rightarrow> ('t, 'z) sched_scheme \<Rightarrow> bool" where
  "only_wakes s s' \<longleftrightarrow> sched_ok s' \<and>
     (\<forall>i t. thread_at s i = Some t \<and> ct_state t \<noteq> Waiting \<longrightarrow> thread_at s' i = Some t) \<and>
     (\<forall>i. map_option kobj_tag (object_at s' i) = map_option kobj_tag (object_at s i))"

lemma only_wakes_refl: "sched_ok s \<Longrightarrow> only_wakes s s"
  by (simp add: only_wakes_def)

lemma only_wakes_trans: "\<lbrakk>only_wakes s s'; only_wakes s' s''\<rbrakk> \<Longrightarrow> only_wakes s s''"
  by (simp add: only_wakes_def)

lemma all_woken_only_wakes:
  assumes "sched_ok s" "object_at s i = Some obj" "set ws \<subseteq> set (wakers_of obj)"
    and "all_woken i ws s s'" "sched_ok s'" "object_at s' i = Some obj'" "kobj_tag obj' = kobj_tag obj"
  shows "only_wakes s s'"
proof -
  have "thread_at s' j = Some t" if t: "thread_at s j = Some t" "ct_state t \<noteq> Waiting" for j t
  proof -
    have "j \<notin> wk_thread ` set ws"
    proof
      assume "j \<in> wk_thread ` set ws"
      then obtain w where "w \<in> set (wakers_of obj)" "wk_thread w = j" using assms(3) by auto
      then show False using queued_live [OF assms(1,2)] t by (fastforce simp: waits_on_def)
    qed
    then show ?thesis using assms(4) t(1) by (simp add: all_woken_def)
  qed
  moreover have "map_option kobj_tag (object_at s' j) = map_option kobj_tag (object_at s j)" for j
    using assms(2,4,6,7) by (cases "j = i") (auto simp: all_woken_def option.map_comp comp_def)
  ultimately show ?thesis using assms(5) by (simp add: only_wakes_def)
qed

lemma map_option_kobj_tag_remove [simp]:
  "map_option (kobj_tag \<circ> remove_wakers i) x = map_option kobj_tag x"
  by (simp add: comp_def)

lemma event_signal_only_wakes:
  assumes ok: "sched_ok s" and e: "object_at s i = Some (Event e)"
  shows "\<exists>s'. event_signal i s = Ret s' \<and> only_wakes s s'"
proof (cases "signal_is_sticky (ev_signal e)")
  case True
  then show ?thesis
    using event_signal_all [OF ok e] all_woken_only_wakes [OF ok e, of "ev_queue e"] by fastforce
next
  case False
  obtain s' where s': "event_signal i s = Ret s'" "sched_ok s'"
    and c: "case ev_queue e of
       [] \<Rightarrow> s' = map_object i (\<lambda>_. Event (e\<lparr>ev_signal := signal_signal (ev_signal e)\<rparr>)) s
     | w # ws \<Rightarrow>
         (\<exists>t. thread_at s (wk_thread w) = Some t \<and> ct_state t = Waiting \<and>
            (\<forall>j. thread_at s' j =
               (if j = wk_thread w then Some (awake (object_resume i t) t) else thread_at s j))) \<and>
         object_at s' i = Some (Event (e\<lparr>ev_signal := signal_clear (ev_signal e),
           ev_queue := retain_others (wk_thread w) ws\<rparr>)) \<and>
         (\<forall>j. j \<noteq> i \<longrightarrow> object_at s' j = map_option (remove_wakers (wk_thread w)) (object_at s j))"
    using event_signal_one [OF ok e False] by blast
  have "only_wakes s s'"
  proof (cases "ev_queue e")
    case Nil
    then show ?thesis using c s'(2) e by (auto simp: only_wakes_def)
  next
    case (Cons w ws)
    then have "map_option kobj_tag (object_at s' j) = map_option kobj_tag (object_at s j)" for j
      using c e by (cases "j = i") (auto simp: option.map_comp)
    then show ?thesis using c s'(2) Cons by (auto simp: only_wakes_def)
  qed
  then show ?thesis using s'(1) by blast
qed

lemma sint_nonneg_small: "0 \<le> sint (x :: 64 word) \<Longrightarrow> unat x < 2 ^ 63"
proof -
  assume nonneg: "0 \<le> sint x"
  have small: "sint x < 2 ^ 63" using sint_lt [of x] by simp
  have "uint x = take_bit LENGTH(64) (sint x)" by (rule uint_sint)
  also have "\<dots> = sint x" using nonneg small by (intro take_bit_int_eq_self) simp_all
  finally have "uint x < 2 ^ 63" using small by simp
  then have "int (unat x) < int (2 ^ 63)" by simp
  then show "unat x < 2 ^ 63" by (simp only: of_nat_less_iff)
qed

lemma timer_tick_only_wakes:
  assumes ok: "sched_ok s" and t: "object_at s i = Some (Timer t)" and time: "unat time < 2 ^ 63"
  shows "\<exists>s'. timer_tick i time s = Ret s' \<and> only_wakes s s'"
proof (cases "timer_valid t \<and> tm_next_ns t \<le> time")
  case False
  then show ?thesis using timer_tick_idle [OF t] only_wakes_refl [OF ok] by blast
next
  case True
  have "unat (tm_interval t) < 2 ^ 63"
    using True by (intro sint_nonneg_small) (simp add: timer_valid_def)
  then have room: "unat time + unat (tm_interval t) < 2 ^ 64" using time by simp
  obtain s' where s': "timer_tick i time s = Ret s'" "sched_ok s'"
    and c: "if signal_is_sticky (tm_signal t)
     then all_woken i (tm_queue t) s s' \<and>
       object_at s' i = Some (Timer ((timer_fired time t)\<lparr>tm_signal := signal_signal (tm_signal t), tm_queue := []\<rparr>))
     else all_woken i (take 1 (tm_queue t)) s s' \<and>
       (tm_queue t = [] \<longrightarrow>
          object_at s' i = Some (Timer ((timer_fired time t)\<lparr>tm_signal := signal_signal (tm_signal t)\<rparr>))) \<and>
       (\<forall>w ws. tm_queue t = w # ws \<longrightarrow>
          object_at s' i = Some (Timer ((timer_fired time t)\<lparr>tm_signal := signal_clear (tm_signal t),
            tm_queue := retain_others (wk_thread w) ws\<rparr>)))"
    using timer_tick_due [OF ok t] True room by blast
  obtain t' where t': "object_at s' i = Some (Timer t')"
    using c by (cases "tm_queue t") (auto split: if_splits)
  have "set (take 1 (tm_queue t)) \<subseteq> set (tm_queue t)" by (rule set_take_subset)
  then have "only_wakes s s'"
    using c all_woken_only_wakes [OF ok t _ _ s'(2) t'] by (auto split: if_splits)
  then show ?thesis using s'(1) by blast
qed

section \<open>The tick\<close>

text \<open>The timeouts of a tick wake exactly the due threads.\<close>

lemma tick_timeouts:
  assumes ok: "sched_ok s"
  shows "\<exists>objs. tick_threads time (sc_threads s) (sc_objects s) =
      Ret (map (thread_ticked time) (sc_threads s), objs) \<and>
    sched_ok (s\<lparr>sc_threads := map (thread_ticked time) (sc_threads s), sc_objects := objs\<rparr>) \<and>
    map kobj_tag objs = map kobj_tag (sc_objects s)"
proof -
  have "sched_ok \<lparr>sc_objects = sc_objects s, sc_threads = [] @ sc_threads s\<rparr>"
    using ok by (simp add: sched_ok_def)
  from tick_threads_all [OF this, of time] show ?thesis by (auto simp: sched_ok_def)
qed

lemma find_ticked:
  "find (\<lambda>t. ct_index t = i) (map (thread_ticked time) ts) =
     map_option (thread_ticked time) (find (\<lambda>t. ct_index t = i) ts)"
  by (induction ts) (auto simp: thread_ticked_def)

lemma tick_objects:
  assumes ok: "sched_ok s" and time: "unat time < 2 ^ 63"
  shows "\<exists>s'. fold_res (tick_object alive time) is s = Ret s' \<and> only_wakes s s'"
proof (rule fold_res_invariant)
  show "only_wakes s s" using ok by (rule only_wakes_refl)
next
  fix i s1 assume s1: "only_wakes s s1"
  then have ok1: "sched_ok s1" by (simp add: only_wakes_def)
  show "\<exists>s2. tick_object alive time i s1 = Ret s2 \<and> only_wakes s s2"
  proof (cases "alive i \<and> (\<exists>t. object_at s1 i = Some (Timer t))")
    case True
    then obtain t where t: "alive i" "object_at s1 i = Some (Timer t)" by blast
    then show ?thesis
      using timer_tick_only_wakes [OF ok1 t(2) time] only_wakes_trans [OF s1]
      by (auto simp: tick_object_def upgrade_def)
  next
    case False
    then have "tick_object alive time i s1 = Ret s1"
      by (auto simp: tick_object_def upgrade_def split: option.splits kobj.splits)
    then show ?thesis using s1 by blast
  qed
qed

text \<open>A thread that was due or not waiting after the timeouts of a tick.\<close>

definition ticked_to :: "u64 \<Rightarrow> ('t, 'z) sched_scheme \<Rightarrow> ('t, 'z) sched_scheme \<Rightarrow> bool" where
  "ticked_to time s s' \<longleftrightarrow> sched_ok s' \<and>
     (\<forall>i t. thread_at s i = Some t \<and> (thread_due time t \<or> ct_state t \<noteq> Waiting) \<longrightarrow>
        thread_at s' i = Some (thread_ticked time t)) \<and>
     (\<forall>i. map_option kobj_tag (object_at s' i) = map_option kobj_tag (object_at s i))"

lemma ticked_only_wakes: "\<lbrakk>ticked_to time s s'; only_wakes s' s''\<rbrakk> \<Longrightarrow> ticked_to time s s''"
proof -
  assume t: "ticked_to time s s'" and w: "only_wakes s' s''"
  have "ct_state (thread_ticked time u) \<noteq> Waiting" if "thread_due time u \<or> ct_state u \<noteq> Waiting" for u
    using that by (auto simp: thread_ticked_def)
  then show ?thesis using t w by (simp add: ticked_to_def only_wakes_def)
qed

lemma tick_at_ticks:
  assumes ok: "sched_ok s" and time: "unat time < 2 ^ 63"
  shows "\<exists>s'. tick_at alive time s = Ret s' \<and> ticked_to time s s'"
proof -
  obtain objs where objs: "tick_threads time (sc_threads s) (sc_objects s) =
      Ret (map (thread_ticked time) (sc_threads s), objs)"
    "sched_ok (s\<lparr>sc_threads := map (thread_ticked time) (sc_threads s), sc_objects := objs\<rparr>)"
    "map kobj_tag objs = map kobj_tag (sc_objects s)"
    using tick_timeouts [OF ok] by blast
  let ?s1 = "s\<lparr>sc_threads := map (thread_ticked time) (sc_threads s), sc_objects := objs\<rparr>"
  obtain s' where s': "fold_res (tick_object alive time) [0..<length objs] ?s1 = Ret s'" "only_wakes ?s1 s'"
    using tick_objects [OF objs(2) time] by blast
  have "length objs = length (sc_objects s)" using objs(3) by (metis length_map)
  moreover have "kobj_tag (objs ! i) = kobj_tag (sc_objects s ! i)" if "i < length objs" for i
    using objs(3) that by (metis length_map nth_map)
  ultimately have "map_option kobj_tag (object_at ?s1 i) = map_option kobj_tag (object_at s i)" for i
    by (simp add: object_at_def)
  then have "ticked_to time s ?s1"
    using objs(2) by (simp add: ticked_to_def thread_at_def find_ticked)
  then have "ticked_to time s s'" using s'(2) by (rule ticked_only_wakes)
  moreover have "tick_at alive time s = Ret s'" using objs(1) s'(1) by (simp add: tick_at_def)
  ultimately show ?thesis by blast
qed

text \<open>A relation that survives updates of an object and the waking of a thread relates the states before
  and after every operation of an object.\<close>

locale object_steps =
  fixes S :: "('t, 'z) sched_scheme \<Rightarrow> ('t, 'z) sched_scheme \<Rightarrow> bool"
  assumes stays: "S s s"
    and follows: "\<lbrakk>S s s1; S s1 s2\<rbrakk> \<Longrightarrow> S s s2"
    and updated: "S s (map_object i f s)"
    and wakes: "waker_wake w i s = Ret (b, s') \<Longrightarrow> S s s'"
begin

lemma after_update: "S (map_object i f s) s' \<Longrightarrow> S s s'"
  using follows updated by blast

lemma before_update: "S s s1 \<Longrightarrow> S s (map_object i f s1)"
  using follows updated by blast

lemma wake_each_steps: "wake_each i ws s = Ret s' \<Longrightarrow> S s s'"
  by (induction ws arbitrary: s) (auto simp: wake_each_def dest!: wakes intro: stays follows)

lemma wake_or_panic_steps: "wake_or_panic msg i w s = Ret s' \<Longrightarrow> S s s'"
  by (auto simp: wake_or_panic_def split: if_splits dest: wakes)

lemma event_signal_steps: "event_signal i s = Ret s' \<Longrightarrow> S s s'"
  by (auto simp: event_signal_def Let_def split: if_splits list.splits
      dest!: wake_each_steps wake_or_panic_steps dest: after_update intro: stays updated before_update)

lemma timer_set_steps: "S s (timer_set i n k s)"
  by (simp add: timer_set_def updated)

lemma timer_tick_steps:
  assumes "timer_tick i time s = Ret s'"
  shows "S s s'"
proof -
  obtain t where t: "timer_at s i = Ret t" using assms unfolding timer_tick_def and_then_eq_Ret by blast
  show ?thesis
  proof (cases "timer_valid t \<and> tm_next_ns t \<le> time")
    case True
    let ?s1 = "map_object i (map_timer (\<lambda>t. t\<lparr>tm_signal := signal_signal (tm_signal t)\<rparr>)) s"
    obtain s2 where s2: "(if signal_is_pulse (tm_signal t)
          then and_then (cadd time (tm_interval t)) (\<lambda>next. Ret (timer_set i next (tm_interval t) ?s1))
          else Ret (timer_set i (- 1) (- 1) ?s1)) = Ret s2"
      and rest: "(if signal_is_sticky (tm_signal t)
       then and_then (wake_each i (tm_queue t) (map_object i (map_timer (\<lambda>t. t\<lparr>tm_queue := []\<rparr>)) s2))
         (\<lambda>s3. Ret (map_object i (map_timer (\<lambda>t. t\<lparr>tm_queue := []\<rparr>)) s3))
       else (case tm_queue t of
               [] \<Rightarrow> Ret s2
             | waker # _ \<Rightarrow>
                 and_then (wake_or_panic ''Failed to wake up thread'' i waker s2) (\<lambda>s3.
                 Ret (map_object i (map_timer (\<lambda>t. t\<lparr>tm_signal := signal_clear (tm_signal t)\<rparr>)) s3)))) = Ret s'"
      using assms True t unfolding timer_tick_def Let_def and_then_eq_Ret t by auto
    have "S ?s1 s2" using s2 by (auto intro: timer_set_steps split: if_splits)
    then have "S s s2" by (rule after_update)
    moreover have "S s2 s'"
      using rest by (auto split: if_splits list.splits dest!: wake_each_steps wake_or_panic_steps
          dest: after_update intro: stays updated before_update)
    ultimately show ?thesis by (rule follows)
  next
    case False
    then show ?thesis using assms t by (auto simp: timer_tick_def stays)
  qed
qed

lemma tick_object_steps: "tick_object alive time i s = Ret s' \<Longrightarrow> S s s'"
  by (auto simp: tick_object_def split: option.splits kobj.splits dest: timer_tick_steps intro: stays)

lemma fold_steps:
  assumes "\<And>x s s'. f x s = Ret s' \<Longrightarrow> S s s'"
  shows "fold_res f xs s = Ret s' \<Longrightarrow> S s s'"
  by (induction xs arbitrary: s) (auto dest!: assms intro: stays follows)

lemma tick_objects_steps: "fold_res (tick_object alive time) is s = Ret s' \<Longrightarrow> S s s'"
  by (rule fold_steps) (rule tick_object_steps)

end

text \<open>A part of the state that neither of them touches is left alone by all of them.\<close>

locale untouched =
  fixes part :: "('t, 'z) sched_scheme \<Rightarrow> 'a"
  assumes map_object_part [simp]: "part (map_object i f s) = part s"
    and waker_wake_part: "waker_wake w i s = Ret (b, s') \<Longrightarrow> part s' = part s"

sublocale untouched \<subseteq> kept: object_steps "\<lambda>s s'. part s' = part s"
  by unfold_locales (auto dest: waker_wake_part)

context untouched begin

lemmas wake_or_panic_part = kept.wake_or_panic_steps
lemmas event_signal_part = kept.event_signal_steps
lemmas timer_tick_part = kept.timer_tick_steps
lemmas tick_objects_part = kept.tick_objects_steps
lemmas fold_part = kept.fold_steps

end

interpretation rest: untouched sched.more
  by unfold_locales (auto simp: map_object_def waker_wake_def wake_up_thread_def split: if_splits)

lemma tick_at_more: "tick_at alive time s = Ret s' \<Longrightarrow> sched.more s' = sched.more s"
  by (auto simp: tick_at_def dest!: rest.tick_objects_part)

lemma kernel_fields:
  assumes "sched.more k' = sched.more (k :: ('t, 'p) kernel)"
  shows "k_processes k' = k_processes k" "k_thread_boxes k' = k_thread_boxes k" "k_current k' = k_current k"
    "k_next k' = k_next k" "k_ports k' = k_ports k" "k_interrupts k' = k_interrupts k"
    "k_active_interrupts k' = k_active_interrupts k" "k_start_time k' = k_start_time k"
  using assms by (cases k; cases k'; simp)+

lemma option_tag_event: "map_option kobj_tag x = Some 0 \<Longrightarrow> \<exists>e. x = Some (Event e)"
  using kobj_tag_event by (cases x) auto

lemma deliver_interrupts:
  assumes ok: "sched_ok k" and bound: "\<forall>n i. k_interrupts k n = Some i \<longrightarrow> (\<exists>e. object_at k i = Some (Event e))"
  shows "\<exists>k'. fold_res deliver_interrupt ns k = Ret k' \<and> only_wakes k k' \<and> sched.more k' = sched.more k"
proof (rule fold_res_invariant [where I = "\<lambda>k'. only_wakes k k' \<and> sched.more k' = sched.more k"])
  show "only_wakes k k \<and> sched.more k = sched.more k" using ok only_wakes_refl by blast
next
  fix n k1 assume k1: "only_wakes k k1 \<and> sched.more k1 = sched.more k"
  show "\<exists>k2. deliver_interrupt n k1 = Ret k2 \<and> only_wakes k k2 \<and> sched.more k2 = sched.more k"
  proof (cases "k_interrupts k1 n")
    case None
    then show ?thesis using k1 by (simp add: deliver_interrupt_def)
  next
    case (Some i)
    then have "k_interrupts k n = Some i" using k1 kernel_fields(6) [of k1 k] by simp
    then obtain e where "object_at k i = Some (Event e)" using bound by blast
    then have "map_option kobj_tag (object_at k1 i) = Some 0" using k1 by (simp add: only_wakes_def)
    then obtain e1 where e1: "object_at k1 i = Some (Event e1)" using option_tag_event by blast
    have "sched_ok k1" using k1 by (simp add: only_wakes_def)
    from event_signal_only_wakes [OF this e1] obtain k2 where k2: "event_signal i k1 = Ret k2" "only_wakes k1 k2"
      by blast
    then show ?thesis
      using Some k1 only_wakes_trans rest.event_signal_part [OF k2(1)] by (auto simp: deliver_interrupt_def)
  qed
qed

lemma tick_runs:
  assumes ok: "sched_ok k"
    and time: "k_start_time k \<le> now" "unat (now - k_start_time k) < 2 ^ 63"
    and bound: "\<forall>n i. k_interrupts k n = Some i \<longrightarrow> (\<exists>e. object_at k i = Some (Event e))"
  shows "\<exists>k'. tick alive now k = Ret k' \<and> ticked_to (now - k_start_time k) k k' \<and>
    k_active_interrupts k' = [] \<and> k_interrupts k' = k_interrupts k \<and> k_current k' = k_current k"
proof -
  let ?time = "now - k_start_time k"
  obtain k1 where k1: "tick_at alive ?time k = Ret k1" "ticked_to ?time k k1"
    using tick_at_ticks [OF ok time(2)] by blast
  have more: "sched.more k1 = sched.more k" using tick_at_more [OF k1(1)] .
  let ?k = "k1\<lparr>k_active_interrupts := []\<rparr>"
  have same: "thread_at ?k = thread_at k1" "object_at ?k = object_at k1" "sched_ok ?k = sched_ok k1"
    by (auto simp: thread_at_def object_at_def sched_ok_def fun_eq_iff)
  have ok1: "sched_ok ?k" using k1(2) same by (simp add: ticked_to_def)
  have "\<exists>e. object_at ?k i = Some (Event e)" if n: "k_interrupts ?k n = Some i" for n i
  proof -
    obtain e where "object_at k i = Some (Event e)" using n bound kernel_fields(6) [OF more] by auto
    then have "map_option kobj_tag (object_at k1 i) = Some 0" using k1(2) by (simp add: ticked_to_def)
    then show ?thesis using same option_tag_event by simp
  qed
  then obtain k' where k': "fold_res deliver_interrupt (k_active_interrupts k1) ?k = Ret k'"
      "only_wakes ?k k'" "sched.more k' = sched.more ?k"
    using deliver_interrupts [OF ok1] by blast
  have "only_wakes k1 k'" using k'(2) same by (simp add: only_wakes_def)
  then have "ticked_to ?time k k'" using k1(2) ticked_only_wakes by blast
  moreover have "tick alive now k = Ret k'"
    using time(1) k1(1) k'(1) by (simp add: tick_def kernel_time_def csub_def)
  moreover note kernel_fields [OF k'(3)] kernel_fields [OF more]
  ultimately show ?thesis by simp
qed

section \<open>Properties of the tick\<close>

text \<open>the timeouts of a tick wake exactly the threads that wait with a timeout that has
  passed, in one pass and without a panic: they resume with the timeout error, or normally
  after a sleep, all their wakers are taken out of every queue, and no other thread changes.\<close>

theorem tick_threads_wakes_due:
  assumes ok: "sched_ok \<lparr>sc_objects = objs, sc_threads = ts\<rparr>"
  shows "tick_threads time ts objs =
      Ret (map (\<lambda>t. if thread_due time t then awake (timeout_resume t) t else t) ts,
           map (fold remove_wakers (map ct_index (filter (thread_due time) ts))) objs) \<and>
    sched_ok \<lparr>sc_objects = map (fold remove_wakers (map ct_index (filter (thread_due time) ts))) objs,
      sc_threads = map (\<lambda>t. if thread_due time t then awake (timeout_resume t) t else t) ts\<rparr>"
proof -
  have eq: "map (\<lambda>t. if thread_due time t then awake (timeout_resume t) t else t) ts = map (thread_ticked time) ts"
    by (simp add: thread_ticked_def)
  show ?thesis unfolding eq using tick_threads_all [of objs "[]" ts time] ok by auto
qed

theorem tick_threads_wakes_due_witness:
  "tick_threads 10 [(waiter 0)\<lparr>ct_wait_timeout := Some 10\<rparr>, waiter 1] [Event \<lparr>ev_signal = signal_new OneShot, ev_queue = both_wakers\<rparr> :: unit kobj] =
     Ret ([awake ResumeTimeoutReached ((waiter 0)\<lparr>ct_wait_timeout := Some 10\<rparr>), waiter 1],
          [Event \<lparr>ev_signal = signal_new OneShot, ev_queue = [\<lparr>wk_thread = 1, wk_key = 0\<rparr>]\<rparr>])"
proof -
  let ?e = "Event \<lparr>ev_signal = signal_new OneShot, ev_queue = both_wakers\<rparr> :: unit kobj"
  let ?t = "(waiter 0)\<lparr>ct_wait_timeout := Some 10\<rparr>"
  have ok: "sched_ok \<lparr>sc_objects = [?e], sc_threads = [?t, waiter 1]\<rparr>"
    by (simp add: sched_ok_def queues_live_def waiter_def thread_new_def waits_on_def both_wakers_def)
  have due: "thread_due 10 ?t" "\<not> thread_due 10 (waiter 1)" "timeout_resume ?t = ResumeTimeoutReached"
    "ct_index ?t = 0"
    by (simp_all add: thread_due_def timeout_resume_def waiter_def thread_new_def)
  have queue: "remove_wakers 0 ?e = Event \<lparr>ev_signal = signal_new OneShot, ev_queue = [\<lparr>wk_thread = 1, wk_key = 0\<rparr>]\<rparr>"
    by (simp add: both_wakers_def retain_others_def waker_check_opaque_id_def)
  from tick_threads_wakes_due [OF ok, of 10] show ?thesis
    using due(2) by (simp add: due queue del: tick_threads.simps remove_wakers.simps)
qed

text \<open>C38: a whole tick - timeouts, timers and interrupts - returns, keeps queues and threads in
  agreement and every object in place, wakes every thread whose timeout has passed with the
  timeout result, leaves threads that were not waiting alone, and uses up the pending
  interrupts.\<close>

theorem tick_correct:
  assumes "sched_ok k" "k_start_time k \<le> now" "unat (now - k_start_time k) < 2 ^ 63"
    and "\<forall>n i. k_interrupts k n = Some i \<longrightarrow> (\<exists>e. object_at k i = Some (Event e))"
  shows "\<exists>k'. tick alive now k = Ret k' \<and> sched_ok k' \<and>
    (\<forall>i t. thread_at k i = Some t \<and> thread_due (now - k_start_time k) t \<longrightarrow>
       thread_at k' i = Some (awake (timeout_resume t) t)) \<and>
    (\<forall>i t. thread_at k i = Some t \<and> ct_state t \<noteq> Waiting \<longrightarrow> thread_at k' i = Some t) \<and>
    (\<forall>i. map_option kobj_tag (object_at k' i) = map_option kobj_tag (object_at k i)) \<and>
    k_active_interrupts k' = [] \<and> k_current k' = k_current k"
proof -
  have idle: "thread_ticked time t = t" if "ct_state t \<noteq> Waiting" for time t
    using that by (simp add: thread_ticked_def thread_due_def)
  obtain k' where k': "tick alive now k = Ret k'" "ticked_to (now - k_start_time k) k k'"
      "k_active_interrupts k' = []" "k_current k' = k_current k"
    using tick_runs [OF assms] by blast
  have "thread_at k' i = Some (awake (timeout_resume t) t)"
    if "thread_at k i = Some t" "thread_due (now - k_start_time k) t" for i t
  proof -
    have "thread_at k' i = Some (thread_ticked (now - k_start_time k) t)"
      using k'(2) that unfolding ticked_to_def by blast
    then show ?thesis using that(2) by simp
  qed
  moreover have "thread_at k' i = Some t" if "thread_at k i = Some t" "ct_state t \<noteq> Waiting" for i t
  proof -
    have "thread_at k' i = Some (thread_ticked (now - k_start_time k) t)"
      using k'(2) that unfolding ticked_to_def by blast
    then show ?thesis using idle [OF that(2)] by simp
  qed
  ultimately show ?thesis using k' by (auto simp: ticked_to_def)
qed

theorem tick_correct_witness:
  "\<exists>k'. tick (\<lambda>_. True) 30 ((kernel_new 20 :: (unit, unit) kernel)
      \<lparr>sc_objects := [Event \<lparr>ev_signal = signal_new OneShot, ev_queue = both_wakers\<rparr>],
       sc_threads := [(waiter 0)\<lparr>ct_wait_timeout := Some 10\<rparr>, waiter 1],
       k_interrupts := [3 \<mapsto> 0], k_active_interrupts := [7]\<rparr>) = Ret k' \<and>
    thread_at k' 0 = Some (awake ResumeTimeoutReached ((waiter 0)\<lparr>ct_wait_timeout := Some 10\<rparr>)) \<and>
    k_active_interrupts k' = []"
proof -
  let ?e = "\<lparr>ev_signal = signal_new OneShot, ev_queue = both_wakers\<rparr>"
  let ?t = "(waiter 0)\<lparr>ct_wait_timeout := Some 10\<rparr>"
  let ?k = "(kernel_new 20 :: (unit, unit) kernel)\<lparr>sc_objects := [Event ?e], sc_threads := [?t, waiter 1],
    k_interrupts := [3 \<mapsto> 0], k_active_interrupts := [7]\<rparr>"
  have ok: "sched_ok ?k"
    by (simp add: sched_ok_def queues_live_def waiter_def thread_new_def waits_on_def both_wakers_def)
  have bound: "\<forall>n i. k_interrupts ?k n = Some i \<longrightarrow> (\<exists>e. object_at ?k i = Some (Event e))"
    by (simp add: object_at_def split: if_splits)
  have t: "thread_at ?k 0 = Some ?t" by (simp add: thread_at_def waiter_def thread_new_def)
  have start: "k_start_time ?k = 20" by (simp add: kernel_new_def)
  have due: "thread_due (30 - k_start_time ?k) ?t" "timeout_resume ?t = ResumeTimeoutReached"
    unfolding start by (simp_all add: thread_due_def timeout_resume_def waiter_def thread_new_def)
  obtain k' where "tick (\<lambda>_. True) 30 ?k = Ret k'" "k_active_interrupts k' = []"
      "\<forall>i t. thread_at ?k i = Some t \<and> thread_due (30 - k_start_time ?k) t \<longrightarrow>
         thread_at k' i = Some (awake (timeout_resume t) t)"
    using tick_correct [OF ok _ _ bound, of 30 "\<lambda>_. True"] start by auto
  then show ?thesis using t due by (metis (no_types, lifting))
qed

end
