(* ===== verification/Svc.thy ===== *)
theory Svc
  imports KernelFacts
begin

text \<open>
  \<open>hle/src/svc.rs\<close>: the system calls that high-level services and guests share.  Each takes the
  kernel and returns a \<open>KResult\<close> with the kernel; the caller is the current thread.

  \<open>dyn_cast\<close> is the conversion of an object reference to one of the \<open>K\<close> traits: it succeeds for
  the kinds of object that implement the trait.  \<open>Reschedule\<close> tells the caller that the thread
  now waits.
\<close>

section \<open>Looking up objects\<close>

datatype reschedule = Reschedule

definition lookup_object :: "handle option \<Rightarrow> ('t, 'p) kernel \<Rightarrow> oid option res" where
  "lookup_object handle k =
     (case handle of None \<Rightarrow> Ret None | Some h \<Rightarrow> kernel_lookup_handle h k)"

definition dyn_cast :: "('t kobj \<Rightarrow> bool) \<Rightarrow> ('t, 'z) sched_scheme \<Rightarrow> oid option \<Rightarrow> oid option" where
  "dyn_cast implements s object =
     Option.bind object (\<lambda>i. Option.bind (object_at s i) (\<lambda>obj. if implements obj then Some i else None))"

fun is_arbiter :: "'t kobj \<Rightarrow> bool" where
  "is_arbiter (Arbiter a) = True"
| "is_arbiter _ = False"

fun is_server_port :: "'t kobj \<Rightarrow> bool" where
  "is_server_port (ServerPort p) = True"
| "is_server_port _ = False"

fun is_client_port :: "'t kobj \<Rightarrow> bool" where
  "is_client_port (ClientPort p) = True"
| "is_client_port _ = False"

fun is_server_session :: "'t kobj \<Rightarrow> bool" where
  "is_server_session (ServerSession x) = True"
| "is_server_session _ = False"

fun is_client_session :: "'t kobj \<Rightarrow> bool" where
  "is_client_session (ClientSession x) = True"
| "is_client_session _ = False"

section \<open>Creating and signalling objects\<close>

definition create_mutex ::
  "(nat \<Rightarrow> u32) \<Rightarrow> bool \<Rightarrow> ('t, 'p) kernel \<Rightarrow> (handle kresult \<times> ('t, 'p) kernel) res" where
  "create_mutex draws initial_locked k =
     and_then (new_object_handle draws (Mutex (mutex_new initial_locked)) k) (\<lambda>((_, mutex), k1).
     Ret (Inr mutex, k1))"

definition release_mutex :: "handle option \<Rightarrow> ('t, 'p) kernel \<Rightarrow> (unit kresult \<times> ('t, 'p) kernel) res" where
  "release_mutex handle k =
     and_then (lookup_object handle k) (\<lambda>object.
     case dyn_cast is_mutex k object of
       Some mutex \<Rightarrow> and_then (mutex_release mutex k) (\<lambda>k1. Ret (Inr (), k1))
     | None \<Rightarrow> Ret (Inl HANDLE_TYPE_MISMATCH, k))"

definition create_event ::
  "(nat \<Rightarrow> u32) \<Rightarrow> reset_type \<Rightarrow> ('t, 'p) kernel \<Rightarrow> (handle kresult \<times> ('t, 'p) kernel) res" where
  "create_event draws reset_type k =
     and_then (new_object_handle draws (Event (event_new reset_type)) k) (\<lambda>((_, event), k1).
     Ret (Inr event, k1))"

definition signal_event :: "handle option \<Rightarrow> ('t, 'p) kernel \<Rightarrow> (unit kresult \<times> ('t, 'p) kernel) res" where
  "signal_event handle k =
     and_then (lookup_object handle k) (\<lambda>object.
     case dyn_cast is_event k object of
       Some event \<Rightarrow> and_then (event_signal event k) (\<lambda>k1. Ret (Inr (), k1))
     | None \<Rightarrow> Ret (Inl HANDLE_TYPE_MISMATCH, k))"

definition create_timer ::
  "(nat \<Rightarrow> u32) \<Rightarrow> reset_type \<Rightarrow> ('t, 'p) kernel \<Rightarrow> (handle kresult \<times> ('t, 'p) kernel) res" where
  "create_timer draws reset_type k =
     and_then (new_object_handle draws (Timer (timer_new reset_type)) k) (\<lambda>((_, timer), k1).
     Ret (Inr timer, k1))"

definition set_timer ::
  "handle option \<Rightarrow> 64 word \<Rightarrow> 64 word \<Rightarrow> ('t, 'p) kernel \<Rightarrow> (unit kresult \<times> ('t, 'p) kernel) res" where
  "set_timer handle initial interval k =
     and_then (lookup_object handle k) (\<lambda>object.
     Ret (case dyn_cast is_timer k object of
            Some timer \<Rightarrow> (Inr (), timer_set timer initial interval k)
          | None \<Rightarrow> (Inl HANDLE_TYPE_MISMATCH, k)))"

definition create_address_arbiter ::
  "(nat \<Rightarrow> u32) \<Rightarrow> ('t, 'p) kernel \<Rightarrow> (handle kresult \<times> ('t, 'p) kernel) res" where
  "create_address_arbiter draws k =
     and_then (new_object_handle draws (Arbiter arbiter_new) k) (\<lambda>((_, arbiter), k1).
     Ret (Inr arbiter, k1))"

section \<open>Waiting\<close>

definition wait_sync_1 ::
  "u64 \<Rightarrow> handle option \<Rightarrow> 64 word \<Rightarrow> ('t, 'p) kernel \<Rightarrow> (reschedule option kresult \<times> ('t, 'p) kernel) res" where
  "wait_sync_1 now handle timeout k =
     and_then (lookup_object handle k) (\<lambda>object.
     let time = make_timeout timeout in
     case dyn_cast is_sync k object of
       Some sync \<Rightarrow>
         and_then (kernel_time now k) (\<lambda>base.
         and_then (timeout_absolute time base) (\<lambda>absolute.
         and_then (suspend_thread [sync] absolute WaitSync1 k) (\<lambda>(waker, k1).
         and_then (sync_wait sync waker k1) (\<lambda>k2. Ret (Inr (Some Reschedule), k2)))))
     | None \<Rightarrow> Ret (Inl HANDLE_TYPE_MISMATCH, k))"

primrec lookup_objects :: "handle option list \<Rightarrow> ('t, 'p) kernel \<Rightarrow> oid list res" where
  "lookup_objects [] k = Ret []"
| "lookup_objects (h # hs) k =
     and_then (lookup_object h k) (\<lambda>object.
     and_then (expect ''null object in waitsync'' object) (\<lambda>i.
     and_then (lookup_objects hs k) (\<lambda>is. Ret (i # is))))"

definition wait_object :: "waker \<Rightarrow> oid \<Rightarrow> ('t, 'z) sched_scheme \<Rightarrow> ('t, 'z) sched_scheme res" where
  "wait_object waker i s =
     (case dyn_cast is_sync s (Some i) of
        Some sync \<Rightarrow> sync_wait sync waker s
      | None \<Rightarrow> Panic Unimplemented)"

definition wait_sync_n ::
  "u64 \<Rightarrow> handle option list \<Rightarrow> bool \<Rightarrow> 64 word \<Rightarrow> ('t, 'p) kernel \<Rightarrow>
     (reschedule option kresult \<times> ('t, 'p) kernel) res" where
  "wait_sync_n now handles wait_all timeout k =
     and_then (guard Unimplemented (\<not> wait_all)) (\<lambda>_.
     let time = make_timeout timeout in
     and_then (lookup_objects handles k) (\<lambda>objects.
     and_then (kernel_time now k) (\<lambda>base.
     and_then (timeout_absolute time base) (\<lambda>absolute.
     and_then (suspend_thread objects absolute WaitSyncN k) (\<lambda>(waker, k1).
     and_then (fold_res (wait_object waker) objects k1) (\<lambda>k2.
     Ret (Inr (Some Reschedule), k2)))))))"

definition reply_and_receive_pre ::
  "u64 \<Rightarrow> (oid \<Rightarrow> bool) \<Rightarrow> (nat \<Rightarrow> u32) \<Rightarrow> handle option list \<Rightarrow> handle option \<Rightarrow> ('t, 'p) kernel \<Rightarrow>
     (reschedule option kresult \<times> ('t, 'p) kernel) res" where
  "reply_and_receive_pre now alive draws handles reply_target k =
     (case reply_target of
        None \<Rightarrow> wait_sync_n now handles False (- 1) k
      | Some target \<Rightarrow>
          and_then (current_pid_tid k) (\<lambda>(_, i).
          and_then (kernel_lookup_handle target k) (\<lambda>object.
          case dyn_cast is_server_session k object of
            None \<Rightarrow> Ret (Inl HANDLE_TYPE_MISMATCH, k)
          | Some session \<Rightarrow>
              and_then (session_reply alive draws session i k) (\<lambda>k1.
              wait_sync_n now handles False (- 1) k1))))"

definition reply_and_receive_post ::
  "(nat \<Rightarrow> u32) \<Rightarrow> handle option list \<Rightarrow> thread_resume \<Rightarrow> ('t, 'p) kernel \<Rightarrow>
     ((nat \<times> unit kresult) \<times> ('t, 'p) kernel) res" where
  "reply_and_receive_post draws handles resume k =
     (case resume of
        ResumeWaitSyncN index \<Rightarrow>
          and_then (guard OutOfRange (index < length handles)) (\<lambda>_.
          and_then (lookup_object (handles ! index) k) (\<lambda>object.
          case dyn_cast is_server_session k object of
            None \<Rightarrow> Ret ((index, Inr ()), k)
          | Some session \<Rightarrow>
              and_then (current_pid_tid k) (\<lambda>(_, i).
              and_then (session_receive draws session i k) (\<lambda>(received, k1).
              Ret ((index, if received then Inr () else Inl 0xC920181A), k1)))))
      | _ \<Rightarrow> Panic Unreachable)"

section \<open>Handles, sessions and code sets\<close>

definition close_handle :: "handle option \<Rightarrow> ('t, 'p) kernel \<Rightarrow> (unit kresult \<times> ('t, 'p) kernel) res" where
  "close_handle handle k =
     (case handle of
        None \<Rightarrow> Ret (Inl HANDLE_TYPE_MISMATCH, k)
      | Some h \<Rightarrow>
          and_then (current_process k) (\<lambda>p.
          let (ok, p') = process_close_handle h p in
          Ret (if ok then Inr () else Inl HANDLE_TYPE_MISMATCH,
               k\<lparr>k_processes := put_process (cp_pid p) p' (k_processes k)\<rparr>)))"

definition send_sync_request ::
  "(oid \<Rightarrow> bool) \<Rightarrow> handle option \<Rightarrow> ('t, 'p) kernel \<Rightarrow> (reschedule option kresult \<times> ('t, 'p) kernel) res" where
  "send_sync_request alive handle k =
     and_then (lookup_object handle k) (\<lambda>object.
     case dyn_cast is_client_session k object of
       Some sync \<Rightarrow>
         and_then (suspend_thread [sync] None WaitSync1 k) (\<lambda>(waker, k1).
         and_then (sync_request alive sync waker k1) (\<lambda>(sent, k2).
         if sent then Ret (Inr (Some Reschedule), k2)
         else Panic (Expect ''TODO: Handle remote end disconnected'')))
     | None \<Rightarrow> Ret (Inl HANDLE_TYPE_MISMATCH, k))"

definition create_session_to_port ::
  "(oid \<Rightarrow> bool) \<Rightarrow> (nat \<Rightarrow> u32) \<Rightarrow> handle option \<Rightarrow> ('t, 'p) kernel \<Rightarrow>
     ((reschedule option \<times> handle) kresult \<times> ('t, 'p) kernel) res" where
  "create_session_to_port alive draws handle k =
     and_then (lookup_object handle k) (\<lambda>object.
     case dyn_cast is_client_port k object of
       Some port \<Rightarrow>
         let ((server, client), k1) = make_session_pair k in
         and_then (port_create_session alive port server k1) (\<lambda>k2.
         and_then (suspend_thread [port] None WaitSync1 k2) (\<lambda>(waker, k3).
         and_then (client_port_wait port waker k3) (\<lambda>k4.
         and_then (kernel_new_handle draws client k4) (\<lambda>(h, k5).
         Ret (Inr (Some Reschedule, h), k5)))))
     | None \<Rightarrow> Ret (Inl HANDLE_TYPE_MISMATCH, k))"

definition svc_accept_session ::
  "(oid \<Rightarrow> bool) \<Rightarrow> (nat \<Rightarrow> u32) \<Rightarrow> handle option \<Rightarrow> ('t, 'p) kernel \<Rightarrow>
     ((reschedule + handle) kresult \<times> ('t, 'p) kernel) res" where
  "svc_accept_session alive draws handle k =
     and_then (lookup_object handle k) (\<lambda>object.
     case dyn_cast is_server_port k object of
       Some port \<Rightarrow>
         and_then (accept_session alive port k) (\<lambda>(session, k1).
         case session of
           Some session \<Rightarrow>
             and_then (kernel_new_handle draws session k1) (\<lambda>(h, k2). Ret (Inr (Inr h), k2))
         | None \<Rightarrow>
             and_then (suspend_thread [port] None WaitSync1 k1) (\<lambda>(waker, k2).
             and_then (server_port_wait port waker k2) (\<lambda>k3. Ret (Inr (Inl Reschedule), k3))))
     | None \<Rightarrow> Ret (Inl HANDLE_TYPE_MISMATCH, k))"

record codeset_info =
  ci_name :: string
  ci_text :: codeset_section
  ci_rodata :: codeset_section
  ci_data :: codeset_section
  ci_bss :: u32
  ci_program_id :: u64

definition create_codeset ::
  "(nat \<Rightarrow> u32) \<Rightarrow> codeset_info \<Rightarrow> ('t, 'p) kernel \<Rightarrow> (handle kresult \<times> ('t, 'p) kernel) res" where
  "create_codeset draws info k =
     and_then (new_object_handle draws (LleCodeSet
       \<lparr>lc_text = ci_text info, lc_rodata = ci_rodata info, lc_data = ci_data info,
        lc_bss = ci_bss info, lc_process_name = ci_name info, lc_program_id = ci_program_id info\<rparr>) k)
       (\<lambda>((_, codeset), k1). Ret (Inr codeset, k1))"

definition create_hle_codeset ::
  "(nat \<Rightarrow> u32) \<Rightarrow> 't \<Rightarrow> string \<Rightarrow> ('t, 'p) kernel \<Rightarrow> (handle kresult \<times> ('t, 'p) kernel) res" where
  "create_hle_codeset draws main_thread name k =
     and_then (new_object_handle draws
       (HleCodeSet \<lparr>hc_main_thread = Some main_thread, hc_process_name = name\<rparr>) k)
       (\<lambda>((_, codeset), k1). Ret (Inr codeset, k1))"

section \<open>The current thread suspends itself\<close>

text \<open>The current thread is there and running.\<close>

definition running :: "('t, 'p) kernel \<Rightarrow> tid \<Rightarrow> common_thread \<Rightarrow> bool" where
  "running k i t \<longleftrightarrow>
     (\<exists>pid. k_current k = Some (pid, i)) \<and> thread_at k i = Some t \<and> ct_state t = Running"

text \<open>The thread \<open>t\<close> once it waits.\<close>

definition suspended :: "oid list \<Rightarrow> u64 option \<Rightarrow> thread_wait_type \<Rightarrow> common_thread \<Rightarrow> common_thread" where
  "suspended objects timeout wt t =
     t\<lparr>ct_wait_objects := objects, ct_state := Waiting, ct_wait_timeout := timeout, ct_wait_type := Some wt\<rparr>"

lemma suspended_simps [simp]:
  "ct_state (suspended objects timeout wt t) = Waiting"
  "ct_wait_objects (suspended objects timeout wt t) = objects"
  "ct_wait_type (suspended objects timeout wt t) = Some wt"
  "ct_wait_timeout (suspended objects timeout wt t) = timeout"
  "ct_wake_key (suspended objects timeout wt t) = ct_wake_key t"
  "ct_index (suspended objects timeout wt t) = ct_index t"
  by (simp_all add: suspended_def)

lemma suspend_thread_runs:
  assumes ok: "sched_ok k" and run: "running k i t"
  shows "\<exists>k1. suspend_thread objects timeout wt k = Ret (\<lparr>wk_thread = i, wk_key = ct_wake_key t\<rparr>, k1) \<and>
    sched_ok k1 \<and> thread_at k1 i = Some (suspended objects timeout wt t) \<and>
    (\<forall>j. j \<noteq> i \<longrightarrow> thread_at k1 j = thread_at k j) \<and> sc_objects k1 = sc_objects k \<and>
    sched.more k1 = sched.more k \<and>
    (\<forall>j obj. object_at k1 j = Some obj \<longrightarrow> i \<notin> wk_thread ` set (wakers_of obj))"
proof -
  obtain pid where cur: "k_current k = Some (pid, i)" "thread_at k i = Some t" "ct_state t = Running"
    using run by (auto simp: running_def)
  obtain k1 where k1: "suspend_current i objects timeout wt k = Ret (\<lparr>wk_thread = i, wk_key = ct_wake_key t\<rparr>, k1)"
      "sched_ok k1" "thread_at k1 i = Some (suspended objects timeout wt t)"
      "\<forall>j. j \<noteq> i \<longrightarrow> thread_at k1 j = thread_at k j" "sc_objects k1 = sc_objects k"
    using suspend_current_ok [OF ok cur(2,3), of objects timeout wt] by (auto simp: suspended_def)
  have "i \<notin> wk_thread ` set (wakers_of obj)" if obj: "object_at k1 j = Some obj" for j obj
  proof -
    have "j < length (sc_objects k)" "obj = sc_objects k ! j"
      using obj k1(5) by (simp_all add: object_at_def split: if_splits)
    then show ?thesis using thread_unqueued [OF ok cur(2)] cur(3) by simp
  qed
  moreover have "sched.more k1 = sched.more k"
    using k1(1) by (auto simp: suspend_current_def Let_def)
  ultimately show ?thesis
    using k1 cur(1) by (simp add: suspend_thread_def current_pid_tid_def)
qed

lemma suspended_on_waits:
  assumes "sched_ok k1" "thread_at k1 i = Some (suspended objects timeout wt t)" "ct_index t = i"
    and "\<forall>j obj. object_at k1 j = Some obj \<longrightarrow> i \<notin> wk_thread ` set (wakers_of obj)"
    and "j \<in> set objects" "wt \<noteq> WaitSleep"
  shows "suspended_on k1 j \<lparr>wk_thread = i, wk_key = ct_wake_key t\<rparr> (suspended objects timeout wt t)"
  using assms by (cases wt) (auto simp: suspended_on_def waits_on_def)

lemma running_index: "\<lbrakk>sched_ok k; running k i t\<rbrakk> \<Longrightarrow> ct_index t = i"
  by (auto simp: running_def sched_ok_def thread_at_iff)

lemma dyn_castI: "\<lbrakk>object_at s i = Some obj; implements obj\<rbrakk> \<Longrightarrow> dyn_cast implements s (Some i) = Some i"
  by (simp add: dyn_cast_def)

lemma wait_sync_1_runs:
  assumes ok: "sched_ok k" and run: "running k i t"
    and obj: "lookup_object h k = Ret (Some j)" "object_at k j = Some obj" "is_sync obj"
    and time: "kernel_time now k = Ret base" "timeout_absolute (make_timeout timeout) base = Ret absolute"
  shows "\<exists>k'. wait_sync_1 now h timeout k = Ret (Inr (Some Reschedule), k') \<and> sched_ok k' \<and>
    (\<forall>m. m \<noteq> i \<longrightarrow> thread_at k' m = thread_at k m) \<and>
    (let t' = suspended [j] absolute WaitSync1 t in
     if sync_ready obj
     then thread_at k' i = Some (awake ResumeNormal t') \<and> object_at k' j = Some (sync_taken obj)
     else thread_at k' i = Some t' \<and>
       object_at k' j = Some (sync_enqueue \<lparr>wk_thread = i, wk_key = ct_wake_key t\<rparr> obj))"
proof -
  let ?w = "\<lparr>wk_thread = i, wk_key = ct_wake_key t\<rparr>" and ?t = "suspended [j] absolute WaitSync1 t"
  obtain k1 where k1: "suspend_thread [j] absolute WaitSync1 k = Ret (?w, k1)" "sched_ok k1"
      "thread_at k1 i = Some ?t" "\<forall>m. m \<noteq> i \<longrightarrow> thread_at k1 m = thread_at k m"
      "sc_objects k1 = sc_objects k"
      "\<forall>j obj. object_at k1 j = Some obj \<longrightarrow> i \<notin> wk_thread ` set (wakers_of obj)"
    using suspend_thread_runs [OF ok run] by blast
  have s: "suspended_on k1 j ?w ?t"
    using suspended_on_waits [OF k1(2,3) running_index [OF ok run] k1(6)] by simp
  have "object_at k1 = object_at k" using k1(5) by (simp add: object_at_def fun_eq_iff)
  then have obj1: "object_at k1 j = Some obj" using obj(2) by simp
  have resume: "object_resume j ?t = ResumeNormal" by (simp add: object_resume_def)
  note c = sync.wait_correct [OF s obj1 obj(3), unfolded resume waker.simps]
  obtain k' where k': "sync_wait j ?w k1 = Ret k'" "sched_ok k'"
      "\<forall>m. m \<noteq> i \<longrightarrow> thread_at k' m = thread_at k1 m"
      "if sync_ready obj
       then thread_at k' i = Some (awake ResumeNormal ?t) \<and> object_at k' j = Some (sync_taken obj)
       else thread_at k' i = Some ?t \<and> object_at k' j = Some (sync_enqueue ?w obj)"
    using c by blast
  have "wait_sync_1 now h timeout k = Ret (Inr (Some Reschedule), k')"
    using obj time k1(1) k'(1) dyn_castI [of k j obj is_sync] by (simp add: wait_sync_1_def)
  then show ?thesis using k' k1(4) by (simp add: Let_def)
qed


section \<open>Waiting for several objects\<close>

lemma sched_ok_enqueue:
  assumes ok: "sched_ok s" and t: "thread_at s (wk_thread w) = Some t" "waits_on w i t"
    and f: "\<And>obj. object_at s i = Some obj \<Longrightarrow>
      set (wakers_of (f obj)) \<subseteq> insert w (set (wakers_of obj)) \<and> arbiter_queue_distinct (f obj)"
  shows "sched_ok (map_object i f s)"
proof -
  have "sc_threads (map_object i f s) = sc_threads s" by (simp add: map_object_def)
  then show ?thesis
    using ok t f unfolding sched_ok_observe by (auto split: if_splits) blast+
qed

text \<open>Server sessions never serve a wait at once.\<close>

lemma wait_sessions:
  assumes "sched_ok s" "thread_at s (wk_thread w) = Some t" "\<forall>i \<in> set is. waits_on w i t"
    and "\<forall>i \<in> set is. \<exists>x. object_at s i = Some (ServerSession x)"
  shows "\<exists>s'. fold_res (wait_object w) is s = Ret s' \<and> sched_ok s' \<and> thread_at s' = thread_at s \<and>
    (\<forall>i x. object_at s i = Some (ServerSession x) \<longrightarrow>
       (\<exists>x'. object_at s' i = Some (ServerSession x') \<and> ss_requests x' = ss_requests x))"
  using assms
proof (induction "is" arbitrary: s)
  case (Cons i "is")
  let ?f = "map_server_session (\<lambda>x. x\<lparr>ss_queue := ss_queue x @ [w]\<rparr>)"
  obtain x where x: "object_at s i = Some (ServerSession x)" using Cons.prems(4) by auto
  have step: "wait_object w i s = Ret (map_object i ?f s)"
    using x by (simp add: wait_object_def dyn_cast_def sync_wait_def server_session_wait_def)
  have ok: "sched_ok (map_object i ?f s)"
    using Cons.prems(1-3) by (intro sched_ok_enqueue) (auto simp: x)
  have th: "thread_at (map_object i ?f s) (wk_thread w) = Some t" using Cons.prems(2) by simp
  have waits: "\<forall>i \<in> set is. waits_on w i t" using Cons.prems(3) by simp
  have keeps: "\<exists>y'. object_at (map_object i ?f s) j = Some (ServerSession y') \<and> ss_requests y' = ss_requests y"
    if "object_at s j = Some (ServerSession y)" for j y
    using that by simp
  have sessions: "\<forall>j \<in> set is. \<exists>y. object_at (map_object i ?f s) j = Some (ServerSession y)"
    using Cons.prems(4) by auto
  obtain s' where s': "fold_res (wait_object w) is (map_object i ?f s) = Ret s'" "sched_ok s'"
      "thread_at s' = thread_at s"
      "\<forall>j x. object_at (map_object i ?f s) j = Some (ServerSession x) \<longrightarrow>
         (\<exists>x'. object_at s' j = Some (ServerSession x') \<and> ss_requests x' = ss_requests x)"
    using Cons.IH [OF ok th waits sessions] unfolding thread_at_map by blast
  have "\<exists>y'. object_at s' j = Some (ServerSession y') \<and> ss_requests y' = ss_requests y"
    if y: "object_at s j = Some (ServerSession y)" for j y
  proof -
    obtain y1 where y1: "object_at (map_object i ?f s) j = Some (ServerSession y1)" "ss_requests y1 = ss_requests y"
      using keeps [OF y] by blast
    then obtain y2 where "object_at s' j = Some (ServerSession y2)" "ss_requests y2 = ss_requests y1"
      using s'(4) by blast
    then show ?thesis using y1(2) by auto
  qed
  then show ?case using step s'(1-3) by simp
qed simp

lemma kernel_time_more: "sched.more k' = sched.more k \<Longrightarrow> kernel_time now k' = kernel_time now k"
  using kernel_fields(8) [of k' k] by (simp add: kernel_time_def)

section \<open>Properties of waiting\<close>

text \<open>C35: waiting for one object serves the wait at once if the object is ready - the thread
  resumes normally and the object is taken - and otherwise leaves the thread waiting with its
  timeout and at the end of the queue of the object.  No other thread changes, and queues and
  threads agree afterwards.\<close>

theorem wait_sync_1_correct:
  assumes ok: "sched_ok k" and run: "running k i t"
    and obj: "lookup_object h k = Ret (Some j)" "object_at k j = Some obj" "is_sync obj"
    and time: "kernel_time now k = Ret base" "timeout_absolute (make_timeout timeout) base = Ret absolute"
  shows "\<exists>k'. wait_sync_1 now h timeout k = Ret (Inr (Some Reschedule), k') \<and> sched_ok k' \<and>
    (\<forall>m. m \<noteq> i \<longrightarrow> thread_at k' m = thread_at k m) \<and>
    (let t' = suspended [j] absolute WaitSync1 t in
     if sync_ready obj
     then thread_at k' i = Some (awake ResumeNormal t') \<and> object_at k' j = Some (sync_taken obj)
     else thread_at k' i = Some t' \<and>
       object_at k' j = Some (sync_enqueue \<lparr>wk_thread = i, wk_key = ct_wake_key t\<rparr> obj))"
  using assms by (rule wait_sync_1_runs)

text \<open>C36: a server that waits for its sessions with nothing to reply to is suspended for ever -
  no timeout - even if every one of the sessions has requests pending: the wait looks only for
  requests that come later.\<close>

theorem receive_misses_pending_requests:
  assumes ok: "sched_ok k" and run: "running k i t"
    and time: "kernel_time now k = Ret base"
    and objs: "lookup_objects handles k = Ret objs"
    and pending: "\<forall>j \<in> set objs. \<exists>x. object_at k j = Some (ServerSession x) \<and> ss_requests x \<noteq> []"
  shows "\<exists>k'. reply_and_receive_pre now alive draws handles None k = Ret (Inr (Some Reschedule), k') \<and>
    sched_ok k' \<and> thread_at k' i = Some (suspended objs None WaitSyncN t) \<and>
    (\<forall>m. m \<noteq> i \<longrightarrow> thread_at k' m = thread_at k m) \<and>
    (\<forall>j \<in> set objs. \<exists>x. object_at k' j = Some (ServerSession x) \<and> ss_requests x \<noteq> [])"
proof -
  let ?w = "\<lparr>wk_thread = i, wk_key = ct_wake_key t\<rparr>" and ?t = "suspended objs None WaitSyncN t"
  obtain k1 where k1: "suspend_thread objs None WaitSyncN k = Ret (?w, k1)" "sched_ok k1"
      "thread_at k1 i = Some ?t" "\<forall>m. m \<noteq> i \<longrightarrow> thread_at k1 m = thread_at k m"
      "sc_objects k1 = sc_objects k"
    using suspend_thread_runs [OF ok run] by blast
  have same: "object_at k1 = object_at k" using k1(5) by (simp add: object_at_def fun_eq_iff)
  have waits: "\<forall>j \<in> set objs. waits_on ?w j ?t"
    using running_index [OF ok run] by (simp add: waits_on_def)
  have sessions: "\<forall>j \<in> set objs. \<exists>x. object_at k1 j = Some (ServerSession x)"
    using pending same by auto
  obtain k' where k': "fold_res (wait_object ?w) objs k1 = Ret k'" "sched_ok k'" "thread_at k' = thread_at k1"
      "\<forall>j x. object_at k1 j = Some (ServerSession x) \<longrightarrow>
         (\<exists>x'. object_at k' j = Some (ServerSession x') \<and> ss_requests x' = ss_requests x)"
    using wait_sessions [OF k1(2) _ waits sessions] k1(3) by auto
  have "make_timeout (- 1) = Forever" by (simp add: make_timeout_def)
  then have "reply_and_receive_pre now alive draws handles None k = Ret (Inr (Some Reschedule), k')"
    using objs time k1(1) k'(1) by (simp add: reply_and_receive_pre_def wait_sync_n_def timeout_absolute_def)
  moreover have "\<exists>x. object_at k' j = Some (ServerSession x) \<and> ss_requests x \<noteq> []" if "j \<in> set objs" for j
    using pending that k'(4) same by metis
  ultimately show ?thesis using k' k1(3,4) by auto
qed

lemma wait_object_unsignaled:
  "\<lbrakk>object_at s i = Some (Event e); \<not> sg_signaled (ev_signal e)\<rbrakk> \<Longrightarrow>
     wait_object w i s = Ret (map_object i (map_event (\<lambda>e. e\<lparr>ev_queue := ev_queue e @ [w]\<rparr>))
       (map_object i (map_event (\<lambda>e'. e'\<lparr>ev_signal := ev_signal e\<rparr>)) s))"
  by (simp add: wait_object_def dyn_cast_def sync_wait_def event_wait_def event_at_def Let_def)

text \<open>A stale waker at the front of the queue of an event makes signalling it panic.\<close>

lemma event_signal_stale:
  assumes e: "object_at s i = Some (Event e)" "ev_queue e = w # ws" "\<not> signal_is_sticky (ev_signal e)"
    and t: "thread_at s (wk_thread w) = Some t" "ct_wake_key t \<noteq> wk_key w"
  shows "event_signal i s = Panic (Expect ''Failed to wake up thread'')"
proof -
  let ?s1 = "map_object i (map_event (\<lambda>e. e\<lparr>ev_signal := signal_signal (ev_signal e)\<rparr>)) s"
  have "waker_wake w i ?s1 = Ret (False, ?s1)"
    using t by (intro waker_wake_stale) simp_all
  then show ?thesis
    using e by (simp add: event_signal_def event_at_def Let_def wake_or_panic_def)
qed

text \<open>C37: waiting for a signaled event and, behind it, an unsignaled one wakes the thread for
  the first but still queues its waker, now stale, on the second; the next signal of the second
  event panics.\<close>

theorem wait_sync_n_leaves_stale_waker:
  assumes ok: "sched_ok k" and run: "running k i t"
    and time: "kernel_time now k = Ret base" "timeout_absolute (make_timeout timeout) base = Ret absolute"
    and objs: "lookup_objects handles k = Ret [a, b]" "a \<noteq> b"
    and a: "object_at k a = Some (Event ea)" "sg_signaled (ev_signal ea)"
    and b: "object_at k b = Some (Event eb)" "\<not> sg_signaled (ev_signal eb)" "ev_queue eb = []"
      "\<not> signal_is_sticky (ev_signal eb)"
  shows "\<exists>k'. wait_sync_n now handles False timeout k = Ret (Inr (Some Reschedule), k') \<and>
    thread_at k' i = Some (awake (ResumeWaitSyncN 0) (suspended [a, b] absolute WaitSyncN t)) \<and>
    object_at k' b = Some (Event (eb\<lparr>ev_queue := [\<lparr>wk_thread = i, wk_key = ct_wake_key t\<rparr>]\<rparr>)) \<and>
    event_signal b k' = Panic (Expect ''Failed to wake up thread'')"
proof -
  let ?w = "\<lparr>wk_thread = i, wk_key = ct_wake_key t\<rparr>" and ?t = "suspended [a, b] absolute WaitSyncN t"
  obtain k1 where k1: "suspend_thread [a, b] absolute WaitSyncN k = Ret (?w, k1)" "sched_ok k1"
      "thread_at k1 i = Some ?t" "sc_objects k1 = sc_objects k"
      "\<forall>j obj. object_at k1 j = Some obj \<longrightarrow> i \<notin> wk_thread ` set (wakers_of obj)"
    using suspend_thread_runs [OF ok run] by blast
  have same: "object_at k1 = object_at k" using k1(4) by (simp add: object_at_def fun_eq_iff)
  have s: "suspended_on k1 a ?w ?t"
    using suspended_on_waits [OF k1(2,3) running_index [OF ok run] k1(5)] by simp
  have resume: "object_resume a ?t = ResumeWaitSyncN 0" by (simp add: object_resume_def)
  obtain k2 where k2: "wait_object ?w a k1 = Ret k2" "object_at k2 b = Some (Event eb)"
      "thread_at k2 i = Some (awake (ResumeWaitSyncN 0) ?t)"
  proof
    let ?k2 = "woken i (ResumeWaitSyncN 0) (map_object a sync_taken k1)"
    show "wait_object ?w a k1 = Ret ?k2"
      using sync.wait_ready [OF s, of "Event ea"] a same resume by (simp add: wait_object_def dyn_cast_def)
    show "object_at ?k2 b = Some (Event eb)" using b objs(2) same by (simp add: retain_others_def)
    show "thread_at ?k2 i = Some (awake (ResumeWaitSyncN 0) ?t)" using k1(3) by (simp add: thread_at_woken)
  qed
  let ?k3 = "map_object b (map_event (\<lambda>e. e\<lparr>ev_queue := ev_queue e @ [?w]\<rparr>))
    (map_object b (map_event (\<lambda>e. e\<lparr>ev_signal := ev_signal eb\<rparr>)) k2)"
  have second: "wait_object ?w b k2 = Ret ?k3" using k2(2) b(2) by (rule wait_object_unsignaled)
  have wait: "wait_sync_n now handles False timeout k = Ret (Inr (Some Reschedule), ?k3)"
    using objs time k1(1) k2(1) second by (simp add: wait_sync_n_def)
  have thread: "thread_at ?k3 i = Some (awake (ResumeWaitSyncN 0) ?t)" using k2(3) by simp
  have obj: "object_at ?k3 b = Some (Event (eb\<lparr>ev_queue := [?w]\<rparr>))" using k2(2) b(3) by simp
  have key: "ct_wake_key (awake (ResumeWaitSyncN 0) ?t) \<noteq> wk_key ?w"
    by (simp add: awake_def)
  have "event_signal b ?k3 = Panic (Expect ''Failed to wake up thread'')"
    by (rule event_signal_stale [OF obj _ _ _ key, of "[]"]) (use thread b(4) in simp_all)
  then show ?thesis using wait thread obj by blast
qed

section \<open>Witnesses\<close>

text \<open>Process 0 has the handles 1 and 2 for the objects 0 and 1, and its thread 5 runs.\<close>

definition sample_thread :: common_thread where
  "sample_thread = (thread_new 0 5 9)\<lparr>ct_state := Running\<rparr>"

definition sample_kernel :: "unit kobj list \<Rightarrow> (unit, unit) kernel" where
  "sample_kernel objs = (kernel_new 20)
     \<lparr>sc_objects := objs, sc_threads := [sample_thread],
      k_processes := [(\<lparr>cp_pid = 0, cp_name = ''p'',
        cp_objects = \<lparr>ot_objects = [(1, 0), (2, 1)], ot_drawn = 0\<rparr>\<rparr>, ())],
      k_current := Some (0, 5)\<rparr>"

lemma sample_kernel_ok:
  "list_all (\<lambda>obj. wakers_of obj = [] \<and> arbiter_queue_distinct obj) objs \<Longrightarrow> sched_ok (sample_kernel objs)"
  by (auto simp: sched_ok_def queues_live_def sample_kernel_def sample_thread_def list_all_iff)

lemma sample_kernel_at [simp]:
  "thread_at (sample_kernel objs) 5 = Some sample_thread"
  "i < length objs \<Longrightarrow> object_at (sample_kernel objs) i = Some (objs ! i)"
  "kernel_time 30 (sample_kernel objs) = Ret 10"
  "lookup_object (Some 1) (sample_kernel objs) = Ret (Some 0)"
  "lookup_object (Some 2) (sample_kernel objs) = Ret (Some 1)"
  "lookup_object (Some 2) (sample_kernel objs) = Ret (Some (Suc 0))"
  by (simp_all add: sample_kernel_def sample_thread_def thread_new_def thread_at_def object_at_def
      kernel_time_def csub_def kernel_new_def lookup_object_def kernel_lookup_handle_def current_process_def
      find_common_process_def process_lookup_handle_def table_lookup_def expect_def)

lemma sample_kernel_running: "running (sample_kernel objs) 5 sample_thread"
  by (simp add: running_def sample_thread_def) (simp add: sample_kernel_def)

theorem wait_sync_1_correct_witness:
  "\<exists>k'. wait_sync_1 30 (Some 1) 5 (sample_kernel [Event (event_new OneShot)]) = Ret (Inr (Some Reschedule), k') \<and>
     thread_at k' 5 = Some (suspended [0] (Some 15) WaitSync1 sample_thread)"
proof -
  have ok: "sched_ok (sample_kernel [Event (event_new OneShot)])"
    by (rule sample_kernel_ok) (simp add: event_new_def)
  have "timeout_absolute (make_timeout 5) 10 = Ret (Some 15)"
    by (simp add: timeout_absolute_def make_timeout_def cadd_def checked_add_def)
  from wait_sync_1_correct [OF ok sample_kernel_running, of "Some 1" 0 "Event (event_new OneShot)" 30 10 5 "Some 15"] this
  show ?thesis by (auto simp: event_new_def signal_new_def Let_def)
qed

theorem receive_misses_pending_requests_witness:
  "\<exists>k'. reply_and_receive_pre 30 (\<lambda>_. True) (\<lambda>_. 7) [Some 1] None
      (sample_kernel [ServerSession \<lparr>ss_queue = [], ss_requests = [3], ss_client = None\<rparr>]) =
        Ret (Inr (Some Reschedule), k') \<and>
     thread_at k' 5 = Some (suspended [0] None WaitSyncN sample_thread) \<and>
     (\<exists>x. object_at k' 0 = Some (ServerSession x) \<and> ss_requests x \<noteq> [])"
proof -
  let ?x = "ServerSession \<lparr>ss_queue = [], ss_requests = [3], ss_client = None\<rparr>"
  have ok: "sched_ok (sample_kernel [?x])" by (rule sample_kernel_ok) simp
  from receive_misses_pending_requests [OF ok sample_kernel_running, of 30 10 "[Some 1]" "[0]" "\<lambda>_. True" "\<lambda>_. 7"]
  show ?thesis by auto
qed

theorem wait_sync_n_leaves_stale_waker_witness:
  "\<exists>k'. wait_sync_n 30 [Some 1, Some 2] False (- 1) (sample_kernel
      [Event \<lparr>ev_signal = \<lparr>sg_reset_type = OneShot, sg_signaled = True\<rparr>, ev_queue = []\<rparr>, Event (event_new OneShot)]) =
        Ret (Inr (Some Reschedule), k') \<and>
     event_signal 1 k' = Panic (Expect ''Failed to wake up thread'')"
proof -
  let ?a = "\<lparr>ev_signal = \<lparr>sg_reset_type = OneShot, sg_signaled = True\<rparr>, ev_queue = []\<rparr>"
  let ?k = "sample_kernel [Event ?a, Event (event_new OneShot)]"
  have ok: "sched_ok ?k" by (rule sample_kernel_ok) (simp add: event_new_def)
  have time: "kernel_time 30 ?k = Ret 10" "timeout_absolute (make_timeout (- 1)) 10 = Ret None"
    by (simp_all add: timeout_absolute_def make_timeout_def)
  have objs: "lookup_objects [Some 1, Some 2] ?k = Ret [0, 1]" by simp
  from wait_sync_n_leaves_stale_waker [OF ok sample_kernel_running time objs, of ?a "event_new OneShot"]
  show ?thesis by (auto simp: event_new_def signal_new_def signal_is_sticky_def)
qed

end
