(* ===== verification/Translation.thy ===== *)
theory Translation
  imports KernelFacts
begin

text \<open>
  What \<open>translate_ipc\<close> does to a message: the handles of one process become handles of the
  other for the same objects, and the destination thread can read back the command the source
  thread wrote, with the handles translated.
\<close>

section \<open>The processes\<close>

definition process_at :: "(oid common_process \<times> 'p) list \<Rightarrow> u32 \<Rightarrow> oid common_process option" where
  "process_at ps pid = find (\<lambda>p. cp_pid p = pid) (map fst ps)"

definition tables_ok :: "(oid common_process \<times> 'p) list \<Rightarrow> bool" where
  "tables_ok ps \<longleftrightarrow> (\<forall>pid p. process_at ps pid = Some p \<longrightarrow> table_ok (cp_objects p))"

lemma find_common_process_iff [simp]: "find_common_process pid ps = Ret p \<longleftrightarrow> process_at ps pid = Some p"
  by (simp add: find_common_process_def process_at_def)

lemma process_at_put:
  assumes "cp_pid p = pid"
  shows "process_at (put_process pid p ps) q =
    (if q = pid then map_option (\<lambda>_. p) (process_at ps q) else process_at ps q)"
proof (induction ps)
  case (Cons a ps)
  then show ?case
    using assms by (cases a; cases "cp_pid (fst a) = pid"; cases "q = pid")
      (simp_all add: process_at_def put_process_def)
qed (simp add: process_at_def put_process_def)

lemma process_at_pid: "process_at ps pid = Some p \<Longrightarrow> cp_pid p = pid"
  by (auto simp: process_at_def dest: find_SomeD)

text \<open>The object a handle of a process stands for.\<close>

definition held :: "(oid common_process \<times> 'p) list \<Rightarrow> u32 \<Rightarrow> handle \<Rightarrow> oid option" where
  "held ps pid h = Option.bind (process_at ps pid) (process_lookup_handle h)"

lemma put_process_held:
  assumes "process_at ps pid = Some p0" "cp_pid p = pid"
  shows "held (put_process pid p ps) q h = (if q = pid then process_lookup_handle h p else held ps q h)"
  using assms by (simp add: held_def process_at_put)

lemma put_process_tables:
  assumes "tables_ok ps" "table_ok (cp_objects p)" "cp_pid p = pid"
  shows "tables_ok (put_process pid p ps)"
  using assms by (auto simp: tables_ok_def process_at_put split: if_splits)

lemma process_new_handle_held:
  assumes ok: "tables_ok ps" and p: "process_at ps pid = Some p"
    and new: "process_new_handle draws obj p = Ret (h, p')"
  shows "h \<noteq> 0 \<and> held ps pid h = None \<and> tables_ok (put_process pid p' ps) \<and>
    (\<forall>q. process_at (put_process pid p' ps) q = None \<longleftrightarrow> process_at ps q = None) \<and>
    (\<forall>q x. held (put_process pid p' ps) q x = (if q = pid \<and> x = h then Some obj else held ps q x))"
proof -
  obtain t where t: "table_insert draws obj (cp_objects p) = Ret (h, t)" "p' = p\<lparr>cp_objects := t\<rparr>"
    using new by (auto simp: process_new_handle_def)
  have tok: "table_ok (cp_objects p)" using ok p by (simp add: tables_ok_def)
  note ins = handles.insert_fresh [OF tok t(1)] handles.lookup_insert [OF tok t(1)]
  have pid: "cp_pid p' = pid" using process_at_pid [OF p] t(2) by simp
  have "tables_ok (put_process pid p' ps)"
    using put_process_tables [OF ok _ pid] ins(1) t(2) by simp
  moreover have "held (put_process pid p' ps) q x = (if q = pid \<and> x = h then Some obj else held ps q x)" for q x
    using put_process_held [OF p pid] ins(2) p t(2) by (simp add: process_lookup_handle_def held_def)
  moreover have "held ps pid h = None"
    using ins(1) p by (simp add: held_def process_lookup_handle_def)
  moreover have "process_at (put_process pid p' ps) q = None \<longleftrightarrow> process_at ps q = None" for q
    using process_at_put [OF pid, of ps q] by simp
  ultimately show ?thesis using ins(1) by blast
qed

lemma process_take_handle_held:
  assumes ok: "tables_ok ps" and p: "process_at ps pid = Some p"
    and take: "process_lookup_close_handle h p = (obj, p')"
  shows "obj = held ps pid h \<and> tables_ok (put_process pid p' ps) \<and>
    (\<forall>q. process_at (put_process pid p' ps) q = None \<longleftrightarrow> process_at ps q = None) \<and>
    (\<forall>q x. held (put_process pid p' ps) q x = (if q = pid \<and> x = h then None else held ps q x))"
proof -
  obtain t where t: "table_remove h (cp_objects p) = (obj, t)" "p' = p\<lparr>cp_objects := t\<rparr>"
    using take by (auto simp: process_lookup_close_handle_def split: prod.splits)
  have tok: "table_ok (cp_objects p)" using ok p by (simp add: tables_ok_def)
  have rem: "obj = table_lookup h (cp_objects p)" "table_ok t"
    "\<And>x. table_lookup x t = (if x = h then None else table_lookup x (cp_objects p))"
    using handles.remove_result [OF tok, of h] handles.lookup_remove [OF tok, of _ h] t(1) by simp_all
  have pid: "cp_pid p' = pid" using process_at_pid [OF p] t(2) by simp
  have "tables_ok (put_process pid p' ps)" using put_process_tables [OF ok _ pid] rem(2) t(2) by simp
  moreover have "held (put_process pid p' ps) q x = (if q = pid \<and> x = h then None else held ps q x)" for q x
    using put_process_held [OF p pid] rem(3) p t(2) by (simp add: process_lookup_handle_def held_def)
  moreover have "obj = held ps pid h" using rem(1) p by (simp add: held_def process_lookup_handle_def)
  moreover have "process_at (put_process pid p' ps) q = None \<longleftrightarrow> process_at ps q = None" for q
    using process_at_put [OF pid, of ps q] by simp
  ultimately show ?thesis by blast
qed

lemma put_process_same: "process_at ps pid = Some p \<Longrightarrow> put_process pid p ps = ps"
  by (induction ps) (auto simp: process_at_def put_process_def)

section \<open>One handle\<close>

text \<open>The outcome of translating a handle: nothing if there is no handle or it stands for nothing,
  else a new handle of the destination for the same object: one the destination did not use before,
  except that a handle a process moves to itself may be drawn again.\<close>

definition passed ::
  "u32 \<Rightarrow> u32 \<Rightarrow> bool \<Rightarrow> handle option \<Rightarrow> handle option \<Rightarrow> (oid common_process \<times> 'p) list \<Rightarrow>
     (oid common_process \<times> 'p) list \<Rightarrow> bool" where
  "passed src dest moved h h' ps ps' \<longleftrightarrow>
     (case Option.bind h (held ps src) of
        None \<Rightarrow> h' = None \<and> (\<forall>q x. held ps' q x = held ps q x)
      | Some obj \<Rightarrow> (\<exists>x. h' = Some x \<and> x \<noteq> 0 \<and>
          (held ps dest x = None \<or> moved \<and> src = dest \<and> h = Some x) \<and>
          held ps' dest x = Some obj \<and>
          (\<forall>q y. \<not> (q = dest \<and> y = x) \<longrightarrow>
             held ps' q y = (if moved \<and> q = src \<and> Some y = h then None else held ps q y))))"

lemma translate_handle_passes_lemma:
  assumes ok: "tables_ok ps" and tr: "translate_handle draws src dest moved h ps = Ret (h', ps')"
  shows "passed src dest moved h h' ps ps' \<and> tables_ok ps' \<and> h' \<noteq> Some 0 \<and>
    (\<forall>q. process_at ps' q = None \<longleftrightarrow> process_at ps q = None)"
proof (cases h)
  case None
  then show ?thesis using tr ok by (simp add: translate_handle_def passed_def)
next
  case (Some x)
  obtain sp where sp: "process_at ps src = Some sp" using tr Some by (auto simp: translate_handle_def)
  define r where "r = (if moved then process_lookup_close_handle x sp else (process_lookup_handle x sp, sp))"
  obtain obj sp' where r: "r = (obj, sp')" by (cases r)
  define ps1 where "ps1 = put_process src sp' ps"
  have ps1: "obj = held ps src x" "tables_ok ps1"
      "\<And>q. process_at ps1 q = None \<longleftrightarrow> process_at ps q = None"
      "\<And>q y. held ps1 q y = (if moved \<and> q = src \<and> y = x then None else held ps q y)"
  proof -
    have "obj = held ps src x \<and> tables_ok ps1 \<and>
      (\<forall>q. process_at ps1 q = None \<longleftrightarrow> process_at ps q = None) \<and>
      (\<forall>q y. held ps1 q y = (if moved \<and> q = src \<and> y = x then None else held ps q y))"
    proof (cases moved)
      case True
      then show ?thesis using process_take_handle_held [OF ok sp, of x obj sp'] r unfolding r_def ps1_def by simp
    next
      case False
      then show ?thesis using r sp ok put_process_same [OF sp] unfolding r_def ps1_def by (auto simp: held_def)
    qed
    then show "obj = held ps src x" "tables_ok ps1"
      "\<And>q. process_at ps1 q = None \<longleftrightarrow> process_at ps q = None"
      "\<And>q y. held ps1 q y = (if moved \<and> q = src \<and> y = x then None else held ps q y)" by blast+
  qed
  show ?thesis
  proof (cases obj)
    case None
    then have "h' = None" "ps' = ps1" using tr Some sp r unfolding r_def ps1_def by (auto simp: translate_handle_def Let_def)
    then show ?thesis using ps1 None Some by (auto simp: passed_def)
  next
    case (Some v)
    obtain dp y dp' where dp: "process_at ps1 dest = Some dp" "process_new_handle draws v dp = Ret (y, dp')"
        "h' = Some y" "ps' = put_process dest dp' ps1"
      using tr \<open>h = Some x\<close> sp r Some unfolding r_def ps1_def
      by (auto simp: translate_handle_def Let_def split: prod.splits)
    note new = process_new_handle_held [OF ps1(2) dp(1,2), folded dp(4)]
    have "Option.bind h (held ps src) = Some v" using Some ps1(1) \<open>h = Some x\<close> by simp
    then have "passed src dest moved h h' ps ps'"
      using new ps1(4) [of dest y] ps1(4) dp(3) \<open>h = Some x\<close> by (auto simp: passed_def split: if_split_asm)
    then show ?thesis using new ps1(3) dp(3) by auto
  qed
qed

section \<open>A whole parameter list\<close>

text \<open>What the translation of one parameter, and of a list of them, should be.\<close>

fun translate_param ::
  "(nat \<Rightarrow> u32) \<Rightarrow> u32 \<Rightarrow> u32 \<Rightarrow> ipc_translate \<Rightarrow> (oid common_process \<times> 'p) list \<Rightarrow>
     (ipc_translate \<times> (oid common_process \<times> 'p) list) res" where
  "translate_param draws src dest (TpHandle moved calling (HSingle h)) ps =
     and_then (translate_handle draws src dest moved h ps) (\<lambda>(h', ps'). Ret (TpHandle moved calling (HSingle h'), ps'))"
| "translate_param draws src dest (TpHandle moved calling (HMultiple hs)) ps =
     and_then (translate_handles draws src dest moved hs ps) (\<lambda>(hs', ps'). Ret (TpHandle moved calling (HMultiple hs'), ps'))"
| "translate_param draws src dest p ps = Ret (p, ps)"

primrec translate_list ::
  "(nat \<Rightarrow> u32) \<Rightarrow> u32 \<Rightarrow> u32 \<Rightarrow> ipc_translate list \<Rightarrow> (oid common_process \<times> 'p) list \<Rightarrow>
     (ipc_translate list \<times> (oid common_process \<times> 'p) list) res" where
  "translate_list draws src dest [] ps = Ret ([], ps)"
| "translate_list draws src dest (p # params) ps =
     and_then (translate_param draws src dest p ps) (\<lambda>(p', ps1).
     and_then (translate_list draws src dest params ps1) (\<lambda>(params', ps2). Ret (p' # params', ps2)))"

primrec plain_param :: "ipc_translate \<Rightarrow> bool" where
  "plain_param (TpHandle m c hs) \<longleftrightarrow> \<not> c"
| "plain_param (TpStaticBuffer i s p) \<longleftrightarrow> False"
| "plain_param (TpBufferMapping i s p) \<longleftrightarrow> False"

lemma translate_handles_wire:
  "\<lbrakk>tables_ok ps; translate_handles draws src dest moved hs ps = Ret (hs', ps')\<rbrakk> \<Longrightarrow>
     length hs' = length hs \<and> Some 0 \<notin> set hs' \<and> tables_ok ps'"
proof (induction hs arbitrary: ps hs' ps')
  case (Cons h hs)
  obtain h1 ps1 hs1 where step: "translate_handle draws src dest moved h ps = Ret (h1, ps1)"
      "translate_handles draws src dest moved hs ps1 = Ret (hs1, ps')" "hs' = h1 # hs1"
    using Cons.prems(2) by (auto split: prod.splits)
  have "tables_ok ps1" "h1 \<noteq> Some 0" using translate_handle_passes_lemma [OF Cons.prems(1) step(1)] by blast+
  then show ?case using Cons.IH [OF _ step(2)] step(3) by auto
qed simp

lemma translate_param_wire:
  assumes "tables_ok ps" "wire_param p" "plain_param p" "translate_param draws src dest p ps = Ret (p', ps')"
  shows "wire_param p' \<and> plain_param p' \<and> length (param_words p') = length (param_words p) \<and> tables_ok ps'"
proof -
  obtain m c hs where p: "p = TpHandle m c hs" "\<not> c" using assms(3) by (cases p) auto
  show ?thesis
  proof (cases hs)
    case (HSingle h)
    then obtain h' where "translate_handle draws src dest m h ps = Ret (h', ps')" "p' = TpHandle m c (HSingle h')"
      using assms(4) p by auto
    then show ?thesis using translate_handle_passes_lemma [OF assms(1)] p HSingle by auto
  next
    case (HMultiple l)
    then obtain l' where "translate_handles draws src dest m l ps = Ret (l', ps')" "p' = TpHandle m c (HMultiple l')"
      using assms(4) p by auto
    then show ?thesis using translate_handles_wire [OF assms(1)] assms(2) p HMultiple by auto
  qed
qed

lemma translate_list_wire:
  "\<lbrakk>tables_ok ps; list_all wire_param params; list_all plain_param params;
    translate_list draws src dest params ps = Ret (params', ps')\<rbrakk> \<Longrightarrow>
   list_all wire_param params' \<and>
   length (concat (map param_words params')) = length (concat (map param_words params))"
proof (induction params arbitrary: ps params')
  case (Cons p params)
  obtain p1 ps1 rest where step: "translate_param draws src dest p ps = Ret (p1, ps1)"
      "translate_list draws src dest params ps1 = Ret (rest, ps')" "params' = p1 # rest"
    using Cons.prems(4) by (auto split: prod.splits)
  note p1 = translate_param_wire [OF Cons.prems(1) _ _ step(1)]
  then show ?case using Cons.IH [OF _ _ _ step(2)] Cons.prems(2,3) step(3) by auto
qed simp

text \<open>The loop of \<open>translate_ipc\<close> reads, translates and writes one parameter at a time; the
  outcome is that of translating the whole list.\<close>

lemma translate_params_step:
  assumes "reader_has_more r" "reader_read_translate r = Ret (p, r1)" "plain_param p"
    "translate_param draws src dest p ps = Ret (p', ps1)" "writer_write_translate p' w = Ret w1"
  shows "translate_params draws src dest r w ps = translate_params draws src dest r1 w1 ps1"
  using assms
  by (subst translate_params.simps) (auto split: ipc_translate.splits ipc_handles.splits)

lemma translate_params_words:
  assumes "holds_words r (concat (map param_words params)) tail"
    "list_all wire_param params" "list_all plain_param params"
    "unat (pc_translate r) = length (concat (map param_words params))" "pc_normal r = 0"
    "tables_ok ps" "translate_list draws src dest params ps = Ret (params', ps')"
    "wrote w command n t ws d"
    "4 * length ws + 4 * length (concat (map param_words params)) \<le> length d"
    "t + length (concat (map param_words params)) < 256"
  shows "\<exists>w'. translate_params draws src dest r w ps = Ret (w', ps') \<and>
    wrote w' command n (t + length (concat (map param_words params'))) (ws @ concat (map param_words params')) d"
  using assms
proof (induction params arbitrary: r w t ws ps params')
  case Nil
  then show ?case by (subst translate_params.simps) (simp add: reader_has_more_def unat_eq_0)
next
  case (Cons p params)
  obtain p1 ps1 rest where step: "translate_param draws src dest p ps = Ret (p1, ps1)"
      "translate_list draws src dest params ps1 = Ret (rest, ps')" "params' = p1 # rest"
    using Cons.prems(7) by (auto split: prod.splits)
  have p: "wire_param p" "plain_param p" using Cons.prems(2,3) by simp_all
  have p1: "wire_param p1" "length (param_words p1) = length (param_words p)" "tables_ok ps1"
    using translate_param_wire [OF Cons.prems(6) p step(1)] by blast+
  have "holds_words r (param_words p @ concat (map param_words params)) tail"
    "unat (pc_translate r) = length (param_words p) + length (concat (map param_words params))"
    using Cons.prems(1,4) by simp_all
  from read_translate_param [OF this(1) p(1) this(2) Cons.prems(5)]
  obtain r1 where r1: "reader_read_translate r = Ret (p, r1)"
    "holds_words r1 (concat (map param_words params)) tail"
    "unat (pc_translate r1) = length (concat (map param_words params))" "pc_normal r1 = 0"
    unfolding reader_read_translate_def by blast
  have "param_words p \<noteq> []" using p(1) by (cases p) auto
  then have more: "reader_has_more r" using Cons.prems(4) by (auto simp: reader_has_more_def word_less_nat_alt)
  obtain w1 where w1: "writer_write_translate p1 w = Ret w1"
      "wrote w1 command n (t + length (param_words p1)) (ws @ param_words p1) d"
    using wrote_translate [OF Cons.prems(8) wire_param_handle_param [OF p1(1)]] Cons.prems(9,10) p1(2) by auto
  obtain w' where "translate_params draws src dest r1 w1 ps1 = Ret (w', ps')"
      "wrote w' command n (t + length (param_words p1) + length (concat (map param_words rest)))
         ((ws @ param_words p1) @ concat (map param_words rest)) d"
    using Cons.IH [OF r1(2) _ _ r1(3,4) p1(3) step(2) w1(2)] Cons.prems(2,3,9,10) p1(2) by auto
  then show ?case
    using translate_params_step [OF more r1(1) p(2) step(1) w1(1)] step(3) by (simp add: add.assoc)
qed

lemma translate_normals_words:
  assumes "holds_words r (ns @ ws) tail" "unat (pc_normal r) = length ns + n"
    "wrote w command m 0 vs d" "4 * length vs + 4 * length ns \<le> length d" "m + length ns < 256"
  shows "\<exists>r' w'. translate_normals (length ns) r w = Ret (r', w') \<and> holds_words r' ws tail \<and>
    unat (pc_normal r') = n \<and> pc_translate r' = pc_translate r \<and> wrote w' command (m + length ns) 0 (vs @ ns) d"
  using assms
proof (induction ns arbitrary: r w m vs)
  case (Cons x ns)
  obtain r1 where r1: "reader_read_normal r = Ret (x, r1)" "holds_words r1 (ns @ ws) tail"
    "unat (pc_normal r1) = length ns + n" "pc_translate r1 = pc_translate r"
    using read_normal_word [of r x "ns @ ws" tail "length ns + n"] Cons.prems(1,2)
    unfolding reader_read_normal_def by auto
  obtain w1 where w1: "writer_write_normal x w = Ret w1" "wrote w1 command (Suc m) 0 (vs @ [x]) d"
    using wrote_normal [OF Cons.prems(3)] Cons.prems(4,5) by auto
  show ?case using Cons.IH [OF r1(2,3) w1(2)] Cons.prems(4,5) r1(1,4) w1(1) by auto
qed simp

section \<open>A whole message\<close>

text \<open>A request or a reply, written and read with the functions of its kind.\<close>

definition write_command ::
  "bool \<Rightarrow> u16 \<Rightarrow> u32 \<Rightarrow> u32 list \<Rightarrow> ipc_translate list \<Rightarrow> u8 list \<Rightarrow> u8 list res" where
  "write_command reply command result ns ps d =
     (if reply then write_response command result ns ps d else write_request command ns ps d)"

definition reader_of :: "bool \<Rightarrow> u8 list \<Rightarrow> ipc_reader res" where
  "reader_of reply data = (if reply then reader_new_response data else reader_new_request data)"

definition writer_of :: "bool \<Rightarrow> u16 \<Rightarrow> u32 \<Rightarrow> u8 list \<Rightarrow> ipc_writer res" where
  "writer_of reply command result d =
     (if reply then writer_new_response command result d else writer_new_request command d)"

definition front_words :: "bool \<Rightarrow> u32 \<Rightarrow> u32 list" where
  "front_words reply result = (if reply then [result] else [])"

definition sent_result :: "bool \<Rightarrow> u32 \<Rightarrow> u32" where
  "sent_result reply result = (if reply then result else 0)"

lemma length_front_words [simp]: "length (front_words reply result) \<le> 1"
  by (simp add: front_words_def)

lemma writer_of_wrote:
  assumes "8 \<le> length d"
  shows "\<exists>w. writer_of reply command result d = Ret w \<and> wrote w command 0 0 (0 # front_words reply result) d"
  using wrote_new_request [of d command] wrote_new_response [of d command result] assms
  by (auto simp: writer_of_def front_words_def)

lemma write_command_layout:
  assumes "length ns < 64" "length (concat (map param_words ps)) < 64" "list_all wire_param ps"
    "4 * (2 + length ns + length (concat (map param_words ps))) \<le> length d"
  shows "write_command reply command result ns ps d =
    Ret (words_bytes (command_words command (front_words reply result) ns ps) @
      drop (4 * length (command_words command (front_words reply result) ns ps)) d)"
proof -
  obtain w where w: "writer_of reply command result d = Ret w"
      "wrote w command 0 0 (0 # front_words reply result) d"
    using writer_of_wrote [of d reply command result] assms(4) by auto
  have "4 * length (command_words command (front_words reply result) ns ps) \<le> length d"
    using assms(4) length_front_words [of reply result] by (simp add: command_words_def del: length_front_words)
  from write_params_layout [OF w(2) list_all_wire_handle_param [OF assms(3)] this] assms(1,2) w(1)
  show ?thesis by (simp add: write_command_def write_request_def write_response_def writer_of_def split: if_splits)
qed

definition command_header :: "u16 \<Rightarrow> u32 list \<Rightarrow> ipc_translate list \<Rightarrow> ipc_header" where
  "command_header command ns ps =
     \<lparr>hd_command = command, hd_normal = of_nat (length ns),
      hd_translate = of_nat (length (concat (map param_words ps)))\<rparr>"

lemma command_header_counts:
  assumes "length ns < 64" "length (concat (map param_words ps)) < 64"
  shows "unat (hd_normal (command_header command ns ps)) = length ns"
    "unat (hd_translate (command_header command ns ps)) = length (concat (map param_words ps))"
  using assms unfolding command_header_def by (simp_all add: unat_of_nat del: length_concat length_map)

lemma reader_of_command:
  assumes "length ns < 64" "length (concat (map param_words ps)) < 64"
  shows "\<exists>r. reader_of reply (words_bytes (command_words command (front_words reply result) ns ps) @ tail) = Ret r \<and>
    holds_words r (ns @ concat (map param_words ps)) tail \<and>
    rd_header r = command_header command ns ps \<and> rd_result r = sent_result reply result \<and>
    pc_normal r = hd_normal (rd_header r) \<and> pc_translate r = hd_translate (rd_header r)"
proof -
  let ?n = "length ns" and ?t = "length (concat (map param_words ps))"
  let ?h = "header_word command (of_nat ?n) (of_nat ?t)"
  let ?buf = "words_bytes (command_words command (front_words reply result) ns ps) @ tail"
  have "unat (of_nat ?n :: u8) = ?n" "unat (of_nat ?t :: u8) = ?t"
    using assms unfolding unat_of_nat by simp_all
  then have h: "header_from ?h = command_header command ns ps"
    using assms unfolding command_header_def by (intro header_from_word) (simp_all add: word_less_nat_alt)
  let ?r = "\<lparr>pc_data = ?buf, pc_pos = 4 * Suc (length (front_words reply result)),
    pc_normal = hd_normal (header_from ?h), pc_translate = hd_translate (header_from ?h),
    rd_header = header_from ?h, rd_result = sent_result reply result\<rparr>"
  have "reader_of reply ?buf = Ret ?r"
    by (simp add: reader_of_def reader_new_request_def reader_new_response_def cursor_read_def
        command_words_def front_words_def sent_result_def Let_def)
  moreover have "holds_words ?r (ns @ concat (map param_words ps)) tail"
    unfolding holds_words_def
    by (rule exI [of _ "words_bytes (?h # front_words reply result)"])
      (simp add: command_words_def)
  ultimately show ?thesis using h by (intro exI [of _ ?r]) simp
qed

lemma command_reads_back:
  assumes "length ns < 64" "length (concat (map param_words ps)) < 64" "list_all wire_param ps"
  shows "and_then (reader_of reply (words_bytes (command_words command (front_words reply result) ns ps) @ tail))
      read_params = Ret (command_header command ns ps, sent_result reply result, ns, ps)"
proof -
  obtain r where r: "reader_of reply (words_bytes (command_words command (front_words reply result) ns ps) @ tail) = Ret r"
      "holds_words r (ns @ concat (map param_words ps)) tail"
      "rd_header r = command_header command ns ps" "rd_result r = sent_result reply result"
      "pc_normal r = hd_normal (rd_header r)" "pc_translate r = hd_translate (rd_header r)"
    using reader_of_command [OF assms(1,2)] by blast
  have "read_params r = Ret (rd_header r, rd_result r, ns, ps)"
    using r(3,5,6) by (intro read_params_words [OF r(2) assms(3)]) (simp_all add: command_header_counts [OF assms(1,2)])
  then show ?thesis using r(1,3,4) by simp
qed

lemma find_thread_pair_two:
  assumes "distinct (map ct_index ts)" "a \<noteq> b"
    "find (\<lambda>t. ct_index t = a) ts = Some s" "find (\<lambda>t. ct_index t = b) ts = Some t"
  shows "find_thread_pair (a, b) ts = Ret (s, t)"
proof -
  have none: "filter (\<lambda>t. ct_index t = c) us = []" if "c \<notin> ct_index ` set us" for c us
    using that by (auto simp: filter_empty_conv)
  have one: "filter (\<lambda>t. ct_index t = a \<or> ct_index t = b) us = filter (\<lambda>t. ct_index t = b) us"
    if "a \<notin> ct_index ` set us" for us
    using that by (intro filter_cong) auto
  have two: "filter (\<lambda>t. ct_index t = a \<or> ct_index t = b) us = filter (\<lambda>t. ct_index t = a) us"
    if "b \<notin> ct_index ` set us" for us
    using that by (intro filter_cong) auto
  have single: "filter (\<lambda>t. ct_index t = c) us = [u]"
    if "distinct (map ct_index us)" "find (\<lambda>t. ct_index t = c) us = Some u" for c us u
    using that none by (induction us) (auto split: if_splits)
  show ?thesis
    using assms
  proof (induction ts)
    case (Cons x ts)
    show ?case
    proof (cases "ct_index x = a")
      case True
      then have "a \<notin> ct_index ` set ts" using Cons.prems(1) by auto
      then have "filter (\<lambda>t. ct_index t = a \<or> ct_index t = b) ts = [t]"
        using one [OF \<open>a \<notin> ct_index ` set ts\<close>] single [of ts b t] True Cons.prems by simp
      then show ?thesis using True Cons.prems by (simp add: find_thread_pair_def)
    next
      case False
      show ?thesis
      proof (cases "ct_index x = b")
        case True
        then have "b \<notin> ct_index ` set ts" using Cons.prems(1) by auto
        then have "filter (\<lambda>t. ct_index t = a \<or> ct_index t = b) ts = [s]"
          using two [OF \<open>b \<notin> ct_index ` set ts\<close>] single [of ts a s] True False Cons.prems by simp
        then show ?thesis using True False Cons.prems by (simp add: find_thread_pair_def)
      next
        case False
        then show ?thesis using \<open>ct_index x \<noteq> a\<close> Cons by (auto simp: find_thread_pair_def)
      qed
    qed
  qed simp
qed

lemma words_fit:
  assumes "4 * (2 + length ns + length (concat (map param_words ps))) \<le> length d"
  shows "4 * length (0 # front_words reply result) + 4 * length ns \<le> length d"
    "4 * length (0 # front_words reply result @ ns) + 4 * length (concat (map param_words ps)) \<le> length d"
    "8 \<le> length d"
  using assms length_front_words [of reply result] by (simp_all del: length_front_words)


lemma translate_ipc_delivers_lemma:
  assumes ok: "sched_ok k" "tables_ok (k_processes k)"
    and threads: "thread_at k src = Some s" "thread_at k dest = Some t" "src \<noteq> dest"
    and procs: "process_at (k_processes k) (ct_pid s) \<noteq> None" "process_at (k_processes k) (ct_pid t) \<noteq> None"
    and small: "length ns < 64" "length (concat (map param_words ps)) < 64"
    and params: "list_all wire_param ps" "list_all plain_param ps"
    and room: "4 * (2 + length ns + length (concat (map param_words ps))) \<le> length d"
      "4 * (2 + length ns + length (concat (map param_words ps))) \<le> length (ct_ipc_data t)"
    and sent: "write_command reply command result ns ps d = Ret (ct_ipc_data s)"
    and tr: "translate_list draws (ct_pid s) (ct_pid t) ps (k_processes k) = Ret (ps', procs')"
  shows "\<exists>data.
    translate_ipc draws src dest reply k =
      Ret (k\<lparr>k_processes := procs',
             sc_threads := put_thread dest (t\<lparr>ct_ipc_data := data\<rparr>) (sc_threads k)\<rparr>) \<and>
    write_command reply command (sent_result reply result) ns ps' (ct_ipc_data t) = Ret data \<and>
    and_then (reader_of reply data) read_params =
      Ret (command_header command ns ps, sent_result reply result, ns, ps')"
proof -
  let ?res = "sent_result reply result"
  let ?words = "concat (map param_words ps)" and ?words' = "concat (map param_words ps')"
  have front: "front_words reply ?res = front_words reply result"
    by (simp add: front_words_def sent_result_def)
  have pair: "find_thread_pair (src, dest) (sc_threads k) = Ret (s, t)"
    using find_thread_pair_two ok(1) threads by (auto simp: sched_ok_def thread_at_def)
  obtain sp tp where sp: "process_at (k_processes k) (ct_pid s) = Some sp"
      "process_at (k_processes k) (ct_pid t) = Some tp" using procs by auto
  note wire = translate_list_wire [OF ok(2) params tr]
  have buf: "ct_ipc_data s = words_bytes (command_words command (front_words reply result) ns ps) @
      drop (4 * length (command_words command (front_words reply result) ns ps)) d" (is "_ = _ @ ?tail")
    using write_command_layout [OF small params(1) room(1), of reply command result] sent by simp
  obtain r where r: "reader_of reply (ct_ipc_data s) = Ret r" "holds_words r (ns @ ?words) ?tail"
      "rd_header r = command_header command ns ps" "rd_result r = ?res"
      "pc_normal r = hd_normal (rd_header r)" "pc_translate r = hd_translate (rd_header r)"
    using reader_of_command [OF small, of reply command result ?tail] buf by auto
  note fits = words_fit(1,2) [OF room(2), of reply ?res] words_fit(3) [OF room(2)]
  obtain w where w: "writer_of reply command ?res (ct_ipc_data t) = Ret w"
      "wrote w command 0 0 (0 # front_words reply ?res) (ct_ipc_data t)"
    using writer_of_wrote [OF fits(3)] by blast
  obtain r1 w1 where n: "translate_normals (length ns) r w = Ret (r1, w1)" "holds_words r1 ?words ?tail"
      "unat (pc_normal r1) = 0" "pc_translate r1 = pc_translate r"
      "wrote w1 command (length ns) 0 (0 # front_words reply ?res @ ns) (ct_ipc_data t)"
    using translate_normals_words [OF r(2) _ w(2) fits(1), of 0] small(1) r(3,5)
    by (auto simp: command_header_counts [OF small])
  have counts: "unat (pc_translate r1) = length ?words" "pc_normal r1 = 0"
    using n(3,4) r(3,6) by (simp_all add: command_header_counts [OF small] unat_eq_0)
  obtain w2 where w2: "translate_params draws (ct_pid s) (ct_pid t) r1 w1 (k_processes k) = Ret (w2, procs')"
      "wrote w2 command (length ns) (length ?words') ((0 # front_words reply ?res @ ns) @ ?words') (ct_ipc_data t)"
    using translate_params_words [OF n(2) params counts ok(2) tr n(5) fits(2)] small(2) by auto
  obtain data where data: "writer_finish w2 = Ret data"
      "data = words_bytes (command_words command (front_words reply ?res) ns ps') @
        drop (4 * length (command_words command (front_words reply ?res) ns ps')) (ct_ipc_data t)"
    using wrote_finish [of w2 command "length ns" "length ?words'" 0 "front_words reply ?res @ ns @ ?words'"] w2(2)
    by (simp add: command_words_def)
  have h: "hd_command (rd_header r) = command" "unat (hd_normal (rd_header r)) = length ns"
    using r(3) command_header_counts [OF small] by (simp_all add: command_header_def)
  have run: "translate_ipc draws src dest reply k =
      Ret (k\<lparr>k_processes := procs',
             sc_threads := put_thread dest (t\<lparr>ct_ipc_data := data\<rparr>) (sc_threads k)\<rparr>)"
    using pair sp r(1,4) h w(1) n(1) w2(1) data(1)
    by (simp add: translate_ipc_def reader_of_def writer_of_def Let_def split: if_splits)
  have small': "length ?words' < 64" using wire small(2) by simp
  have header: "command_header command ns ps' = command_header command ns ps"
    using wire by (simp add: command_header_def)
  have result: "sent_result reply ?res = ?res" by (simp add: sent_result_def)
  have room': "4 * (2 + length ns + length ?words') \<le> length (ct_ipc_data t)" using room(2) wire by simp
  have rewritten: "write_command reply command ?res ns ps' (ct_ipc_data t) = Ret data"
    using write_command_layout [OF small(1) small' _ room', of reply command ?res] wire data(2) by simp
  have "and_then (reader_of reply data) read_params =
      Ret (command_header command ns ps, sent_result reply result, ns, ps')"
    using command_reads_back [OF small(1) small', of reply command ?res] wire data(2) header result by simp
  then show ?thesis using run rewritten by (intro exI [of _ data]) simp
qed

section \<open>Properties\<close>

text \<open>C34: translating a handle of the source process gives the destination a non-zero handle for the
  same object that the destination did not use before, so that no handle in use is taken over (only
  a handle that a process moves to itself may come back as the same number).  The source keeps its
  handle unless it is moved, and every other handle of every process stands for what it did.  A
  handle that stands for nothing becomes none.\<close>

theorem translate_handle_passes:
  assumes "tables_ok ps" "translate_handle draws src dest moved h ps = Ret (h', ps')"
  shows "passed src dest moved h h' ps ps' \<and> tables_ok ps'"
  using translate_handle_passes_lemma [OF assms] by blast

text \<open>C33: \<open>translate_ipc\<close> delivers a command: from a source thread whose buffer holds a command
  with handle parameters, the destination thread gets the command its own \<open>IPCWriter\<close> would have
  written with the translated parameters, and reads back the same header, result and normal
  parameters and the translated handles.  The processes are those of the translation of the
  parameters one by one, and no other thread changes.\<close>

theorem translate_ipc_delivers:
  assumes "sched_ok k" "tables_ok (k_processes k)"
    and "thread_at k src = Some s" "thread_at k dest = Some t" "src \<noteq> dest"
    and "process_at (k_processes k) (ct_pid s) \<noteq> None" "process_at (k_processes k) (ct_pid t) \<noteq> None"
    and "length ns < 64" "length (concat (map param_words ps)) < 64"
    and "list_all wire_param ps" "list_all plain_param ps"
    and "4 * (2 + length ns + length (concat (map param_words ps))) \<le> length d"
      "4 * (2 + length ns + length (concat (map param_words ps))) \<le> length (ct_ipc_data t)"
    and "write_command reply command result ns ps d = Ret (ct_ipc_data s)"
    and "translate_list draws (ct_pid s) (ct_pid t) ps (k_processes k) = Ret (ps', procs')"
  shows "\<exists>data.
    translate_ipc draws src dest reply k =
      Ret (k\<lparr>k_processes := procs',
             sc_threads := put_thread dest (t\<lparr>ct_ipc_data := data\<rparr>) (sc_threads k)\<rparr>) \<and>
    write_command reply command (sent_result reply result) ns ps' (ct_ipc_data t) = Ret data \<and>
    and_then (reader_of reply data) read_params =
      Ret (command_header command ns ps, sent_result reply result, ns, ps')"
  using assms by (rule translate_ipc_delivers_lemma)

section \<open>Witnesses\<close>

text \<open>Process 0 holds handle 4 for object 6, process 1 holds nothing; a thread of each.\<close>

definition sample_processes :: "(oid common_process \<times> unit) list" where
  "sample_processes =
     [(\<lparr>cp_pid = 0, cp_name = ''a'', cp_objects = \<lparr>ot_objects = [(4, 6)], ot_drawn = 0\<rparr>\<rparr>, ()),
      (\<lparr>cp_pid = 1, cp_name = ''b'', cp_objects = \<lparr>ot_objects = [], ot_drawn = 0\<rparr>\<rparr>, ())]"

lemma sample_processes_ok: "tables_ok sample_processes"
  by (auto simp: tables_ok_def process_at_def sample_processes_def table_ok_def split: if_splits)

definition passed_processes :: "(oid common_process \<times> unit) list" where
  "passed_processes =
     [(\<lparr>cp_pid = 0, cp_name = ''a'', cp_objects = \<lparr>ot_objects = [], ot_drawn = 0\<rparr>\<rparr>, ()),
      (\<lparr>cp_pid = 1, cp_name = ''b'', cp_objects = \<lparr>ot_objects = [(9, 6)], ot_drawn = 1\<rparr>\<rparr>, ())]"

lemma sample_insert: "table_insert (\<lambda>_. 9) 6 (\<lparr>ot_objects = [], ot_drawn = 0\<rparr> :: oid object_table) =
    Ret (9, \<lparr>ot_objects = [(9, 6)], ot_drawn = 1\<rparr>)"
  unfolding table_insert_def by (subst insert_loop.simps) (simp add: handle_from_raw_def)

lemma sample_pass:
  "translate_handle (\<lambda>_. 9) 0 1 True (Some 4) sample_processes = Ret (Some 9, passed_processes)"
  by (simp add: translate_handle_def sample_processes_def passed_processes_def process_at_def
      process_lookup_close_handle_def table_remove_def put_process_def process_new_handle_def btree_remove_def sample_insert)

theorem translate_handle_passes_witness:
  "translate_handle (\<lambda>_. 9) 0 1 True (Some 4) sample_processes = Ret (Some 9, passed_processes) \<and>
     held passed_processes 1 9 = Some 6 \<and> held passed_processes 0 4 = None"
proof -
  have "held sample_processes 0 4 = Some 6"
    by (simp add: held_def process_at_def sample_processes_def process_lookup_handle_def table_lookup_def)
  then show ?thesis using translate_handle_passes [OF sample_processes_ok sample_pass] sample_pass
    by (auto simp: passed_def)
qed

text \<open>Thread 3 of process 0 asks with command 5 and moves its handle; thread 4 of process 1 receives.\<close>

definition sample_message :: "u8 list" where
  "sample_message = words_bytes (command_words 5 [] [7] [TpHandle True False (HSingle (Some 4))]) @ replicate 240 0"

definition message_kernel :: "(unit, unit) kernel" where
  "message_kernel = (kernel_new 20)
     \<lparr>k_processes := sample_processes,
      sc_threads := [(thread_new 0 3 0)\<lparr>ct_ipc_data := sample_message\<rparr>, thread_new 1 4 1]\<rparr>"

theorem translate_ipc_delivers_witness:
  "\<exists>data. translate_ipc (\<lambda>_. 9) 3 4 False message_kernel =
      Ret (message_kernel\<lparr>k_processes := passed_processes,
        sc_threads := put_thread 4 ((thread_new 1 4 1)\<lparr>ct_ipc_data := data\<rparr>) (sc_threads message_kernel)\<rparr>) \<and>
    and_then (reader_of False data) read_params =
      Ret (command_header 5 [7] [TpHandle True False (HSingle (Some 4))], 0, [7], [TpHandle True False (HSingle (Some 9))])"
proof -
  let ?ps = "[TpHandle True False (HSingle (Some 4))]"
  have layout: "write_command False 5 0 [7] ?ps (replicate 256 0) = Ret sample_message"
    using write_command_layout [of "[7]" ?ps "replicate 256 0" False 5 0]
    by (simp add: sample_message_def front_words_def command_words_def)
  have ok: "sched_ok message_kernel"
    by (simp add: message_kernel_def sched_ok_def queues_live_def kernel_new_def thread_new_def)
  have tables: "tables_ok (k_processes message_kernel)"
    using sample_processes_ok by (simp add: message_kernel_def)
  have threads: "thread_at message_kernel 3 = Some ((thread_new 0 3 0)\<lparr>ct_ipc_data := sample_message\<rparr>)"
      "thread_at message_kernel 4 = Some (thread_new 1 4 1)"
    by (simp_all add: message_kernel_def thread_at_def thread_new_def)
  have list: "translate_list (\<lambda>_. 9) 0 1 ?ps (k_processes message_kernel) =
      Ret ([TpHandle True False (HSingle (Some 9))], passed_processes)"
    using sample_pass by (simp add: message_kernel_def)
  have procs: "process_at (k_processes message_kernel) 0 \<noteq> None" "process_at (k_processes message_kernel) 1 \<noteq> None"
    by (simp_all add: message_kernel_def process_at_def sample_processes_def)
  from translate_ipc_delivers [OF ok tables threads, where ns = "[7]" and ps = ?ps and d = "replicate 256 0"
      and reply = False and command = 5 and result = 0 and draws = "\<lambda>_. 9"
      and ps' = "[TpHandle True False (HSingle (Some 9))]" and procs' = passed_processes]
  show ?thesis using layout list procs by (auto simp: thread_new_def sent_result_def)
qed

end
