(* ===== verification/HleThread.thy ===== *)
theory HleThread
  imports Svc
begin

text \<open>
  \<open>hle/src/thread.rs\<close>: threads whose body is a Rust future.  An \<open>async fn\<close> is written as the state
  machine the compiler makes of it: a start function that runs to the first \<open>await\<close> and a resume
  function that goes on from there with the \<open>ThreadResume\<close> the scheduler left.  \<open>PollPending\<close> is the
  future suspended, \<open>PollReady\<close> its result.
\<close>

section \<open>Suspension\<close>

datatype 'a poll = PollReady 'a | PollPending

text \<open>\<open>HLESuspendFuture\<close>: its flag, with the resume value shared with the thread.\<close>

definition suspend_poll :: "bool \<Rightarrow> thread_resume \<Rightarrow> thread_resume poll \<times> bool \<times> thread_resume" where
  "suspend_poll polled shared =
     (if polled then (PollReady shared, polled, ResumeNormal) else (PollPending, True, shared))"

section \<open>The asynchronous system calls\<close>

definition hle_wait_sync_1 ::
  "u64 \<Rightarrow> handle \<Rightarrow> 64 word option \<Rightarrow> ('t, 'p) kernel \<Rightarrow> (unit kresult poll \<times> ('t, 'p) kernel) res" where
  "hle_wait_sync_1 now handle timeout k =
     and_then (wait_sync_1 now (Some handle) (case timeout of None \<Rightarrow> - 1 | Some t \<Rightarrow> t) k) (\<lambda>(res, k1).
     Ret (case res of Inl err \<Rightarrow> PollReady (Inl err) | Inr _ \<Rightarrow> PollPending, k1))"

definition hle_wait_sync_1_resumed :: "thread_resume \<Rightarrow> unit kresult res" where
  "hle_wait_sync_1_resumed resume =
     (case resume of
        ResumeNormal \<Rightarrow> Ret (Inr ())
      | ResumeTimeoutReached \<Rightarrow> Ret (Inl TIMEOUT_REACHED)
      | ResumeWaitSyncN _ \<Rightarrow> Panic Unreachable)"

definition hle_reply_and_receive ::
  "u64 \<Rightarrow> (oid \<Rightarrow> bool) \<Rightarrow> (nat \<Rightarrow> u32) \<Rightarrow> handle option list \<Rightarrow> handle option \<Rightarrow> u8 list \<Rightarrow> ('t, 'p) kernel \<Rightarrow>
     ((nat option \<times> unit kresult) poll \<times> ('t, 'p) kernel) res" where
  "hle_reply_and_receive now alive draws handles reply_target ipc_data k =
     and_then (set_thread_ipc_data ipc_data k) (\<lambda>k1.
     and_then (reply_and_receive_pre now alive draws handles reply_target k1) (\<lambda>(res, k2).
     case res of
       Inr (Some _) \<Rightarrow> Ret (PollPending, k2)
     | Inr None \<Rightarrow> Panic Unreachable
     | Inl err \<Rightarrow> Ret (PollReady (None, Inl err), k2)))"

text \<open>Resumed, it gives the result and the data of the slot.\<close>

definition hle_reply_and_receive_resumed ::
  "(nat \<Rightarrow> u32) \<Rightarrow> handle option list \<Rightarrow> thread_resume \<Rightarrow> ('t, 'p) kernel \<Rightarrow>
     (((nat option \<times> unit kresult) \<times> u8 list) \<times> ('t, 'p) kernel) res" where
  "hle_reply_and_receive_resumed draws handles resume k =
     and_then (reply_and_receive_post draws handles resume k) (\<lambda>((index, res), k1).
     and_then (get_thread_ipc_data k1) (\<lambda>data. Ret (((Some index, res), data), k1)))"

definition hle_send_sync_request ::
  "(oid \<Rightarrow> bool) \<Rightarrow> handle \<Rightarrow> u8 list \<Rightarrow> ('t, 'p) kernel \<Rightarrow> (unit kresult poll \<times> ('t, 'p) kernel) res" where
  "hle_send_sync_request alive handle ipc_data k =
     and_then (set_thread_ipc_data ipc_data k) (\<lambda>k1.
     and_then (send_sync_request alive (Some handle) k1) (\<lambda>(res, k2).
     Ret (case res of Inl err \<Rightarrow> PollReady (Inl err) | Inr _ \<Rightarrow> PollPending, k2)))"

definition hle_send_sync_request_resumed :: "thread_resume \<Rightarrow> ('t, 'p) kernel \<Rightarrow> u8 list res" where
  "hle_send_sync_request_resumed resume k =
     (case resume of ResumeNormal \<Rightarrow> get_thread_ipc_data k | _ \<Rightarrow> Panic Unreachable)"

text \<open>PollPending, it remembers the handle the system call gave.\<close>

datatype session_wait = SessionReady "handle kresult" | SessionPending handle

definition hle_create_session_to_port ::
  "(oid \<Rightarrow> bool) \<Rightarrow> (nat \<Rightarrow> u32) \<Rightarrow> handle \<Rightarrow> ('t, 'p) kernel \<Rightarrow> (session_wait \<times> ('t, 'p) kernel) res" where
  "hle_create_session_to_port alive draws handle k =
     and_then (create_session_to_port alive draws (Some handle) k) (\<lambda>(res, k1).
     Ret (case res of
            Inl err \<Rightarrow> SessionReady (Inl err)
          | Inr (reschedule, h) \<Rightarrow> if reschedule \<noteq> None then SessionPending h else SessionReady (Inr h), k1))"

definition resumed_normally :: "thread_resume \<Rightarrow> unit res" where
  "resumed_normally resume = guard Unreachable (resume = ResumeNormal)"

definition hle_accept_session ::
  "(oid \<Rightarrow> bool) \<Rightarrow> (nat \<Rightarrow> u32) \<Rightarrow> handle \<Rightarrow> ('t, 'p) kernel \<Rightarrow> (handle kresult poll \<times> ('t, 'p) kernel) res" where
  "hle_accept_session alive draws handle k =
     and_then (svc_accept_session alive draws (Some handle) k) (\<lambda>(res, k1).
     Ret (case res of
            Inl err \<Rightarrow> PollReady (Inl err)
          | Inr (Inr h) \<Rightarrow> PollReady (Inr h)
          | Inr (Inl _) \<Rightarrow> PollPending, k1))"

definition hle_accept_session_resumed ::
  "(oid \<Rightarrow> bool) \<Rightarrow> (nat \<Rightarrow> u32) \<Rightarrow> handle \<Rightarrow> thread_resume \<Rightarrow> ('t, 'p) kernel \<Rightarrow>
     (handle kresult poll \<times> ('t, 'p) kernel) res" where
  "hle_accept_session_resumed alive draws handle resume k =
     and_then (resumed_normally resume) (\<lambda>_. hle_accept_session alive draws handle k)"

section \<open>The thread\<close>

text \<open>
  \<open>'i\<close> is what the closure of the thread holds, \<open>'s\<close> the suspended future; \<open>begin_future\<close> calls the
  closure and \<open>poll_future\<close> polls, with the shared resume value, and tells whether the future is done.
\<close>

datatype ('i, 's) thread_runtime = RtInit 'i | RtRunning 's | RtIndeterminate

record ('i, 's) thread_hle =
  hl_runtime :: "('i, 's) thread_runtime"
  hl_resume :: thread_resume
  hl_ipc_data :: "u8 list"

definition thread_hle_new :: "'i \<Rightarrow> ('i, 's) thread_hle" where
  "thread_hle_new func = \<lparr>hl_runtime = RtInit func, hl_resume = ResumeNormal, hl_ipc_data = replicate 256 0\<rparr>"

definition thread_hle_resume ::
  "('i \<Rightarrow> 's) \<Rightarrow> (thread_resume \<Rightarrow> 's \<Rightarrow> ('t, 'p) kernel \<Rightarrow> ((bool \<times> thread_resume \<times> 's) \<times> ('t, 'p) kernel) res) \<Rightarrow>
     ('i, 's) thread_hle \<Rightarrow> thread_resume \<Rightarrow> ('t, 'p) kernel \<Rightarrow> (('i, 's) thread_hle \<times> ('t, 'p) kernel) res" where
  "thread_hle_resume begin_future poll_future t payload k =
     (let current = (case hl_runtime t of RtInit func \<Rightarrow> RtRunning (begin_future func) | runtime \<Rightarrow> runtime) in
      case current of
        RtRunning future \<Rightarrow>
          and_then (poll_future payload future k) (\<lambda>((finished, shared, future'), k1).
          let t' = t\<lparr>hl_runtime := RtRunning future', hl_resume := shared\<rparr> in
          if finished then and_then (exit_thread k1) (\<lambda>k2. Ret (t', k2)) else Ret (t', k1))
      | _ \<Rightarrow> Panic Unreachable)"

definition read_ipc_data :: "('i, 's) thread_hle \<Rightarrow> u8 list" where
  "read_ipc_data t = hl_ipc_data t"

definition write_ipc_data :: "u8 list \<Rightarrow> ('i, 's) thread_hle \<Rightarrow> ('i, 's) thread_hle" where
  "write_ipc_data data t = t\<lparr>hl_ipc_data := data\<rparr>"

end
