(* ===== verification/Services.thy ===== *)
theory Services
  imports HleThread
begin

text \<open>
  The high-level services: \<open>hle/src/service/helper.rs\<close> with the life of a service thread, and
  \<open>hle/src/service/srv.rs\<close>, the registry the services and guests find each other by.

  A service thread waits for its port and its sessions, accepts sessions and answers requests.
  Its future is a state machine over the points where it awaits.  What comes from outside is in
  \<open>outside\<close>: the clock, the reachability of weak references and the random handles.
\<close>

record outside =
  os_now :: u64
  os_alive :: "oid \<Rightarrow> bool"
  os_draws :: "nat \<Rightarrow> u32"

section \<open>Answering\<close>

text \<open>\<open>ipc.response(result)\<close> with parameters written to it, and dropped.\<close>

definition respond :: "u32 \<Rightarrow> u32 list \<Rightarrow> ipc_translate list \<Rightarrow> u8 list \<Rightarrow> u8 list res" where
  "respond result normals translates data =
     and_then (context_response result data) (\<lambda>w.
     and_then (fold_res response_write_normal normals w) (\<lambda>w.
     and_then (fold_res response_write_translate translates w) response_finish))"

definition moved_handle :: "handle \<Rightarrow> ipc_translate" where
  "moved_handle h = TpHandle True False (HSingle (Some h))"

definition is_command :: "u16 \<Rightarrow> u8 \<Rightarrow> u8 \<Rightarrow> ipc_header \<Rightarrow> bool" where
  "is_command command normal translate header \<longleftrightarrow>
     header = \<lparr>hd_command = command, hd_normal = normal, hd_translate = translate\<rparr>"

section \<open>The registry srv\<close>

record service =
  sv_name :: "u8 list"
  sv_name_len :: u8
  sv_max_sessions :: u32
  sv_client_port :: handle

record srv_context =
  sx_services :: "service list"
  sx_seen_notifications :: "u32 list"

definition srv_new :: srv_context where
  "srv_new = \<lparr>sx_services = [], sx_seen_notifications = []\<rparr>"

text \<open>The comparison of one service; the slices panic past the eight bytes of a name.\<close>

definition service_matches :: "u8 list \<Rightarrow> u8 \<Rightarrow> service \<Rightarrow> bool res" where
  "service_matches name name_len service =
     (if sv_name_len service = name_len
      then and_then (slice_get (sv_name service) 0 (unat (sv_name_len service))) (\<lambda>a.
           and_then (slice_get name 0 (unat name_len)) (\<lambda>b. Ret (a = b)))
      else Ret False)"

primrec find_in_services :: "u8 list \<Rightarrow> u8 \<Rightarrow> service list \<Rightarrow> service option res" where
  "find_in_services name name_len [] = Ret None"
| "find_in_services name name_len (s # ss) =
     and_then (service_matches name name_len s) (\<lambda>found.
     if found then Ret (Some s) else find_in_services name name_len ss)"

definition find_service :: "u8 list \<Rightarrow> u8 \<Rightarrow> srv_context \<Rightarrow> service option res" where
  "find_service name name_len srv = find_in_services name name_len (sx_services srv)"

definition register_service :: "service \<Rightarrow> srv_context \<Rightarrow> srv_context" where
  "register_service service srv = srv\<lparr>sx_services := sx_services srv @ [service]\<rparr>"

text \<open>The four words of a RegisterService or GetServiceHandle request, the first two the name.\<close>

definition read_name_request :: "u8 list \<Rightarrow> (u8 list \<times> u32 \<times> u32) res" where
  "read_name_request data =
     and_then (context_request data) (\<lambda>q.
     and_then (request_read_normal q) (\<lambda>(a, q).
     and_then (request_read_normal q) (\<lambda>(b, q).
     and_then (request_read_normal q) (\<lambda>(name_length, q).
     and_then (request_read_normal q) (\<lambda>(extra, q).
     Ret (le32 a @ le32 b, name_length, extra))))))"

definition read_one_normal :: "u8 list \<Rightarrow> u32 res" where
  "read_one_normal data =
     and_then (context_request data) (\<lambda>q. and_then (request_read_normal q) (\<lambda>(n, _). Ret n))"

text \<open>
  A handler is done with the answer in the buffer, or waits: then \<open>'w\<close> is what it waits with.
\<close>

datatype ('c, 'w) handled = Handled 'c "u8 list" | Waits 'c 'w

type_synonym ('c, 'w, 't, 'p) ipc_handler =
  "outside \<Rightarrow> 'c \<Rightarrow> u8 list \<Rightarrow> ('t, 'p) kernel \<Rightarrow> (('c, 'w) handled \<times> ('t, 'p) kernel) res"

definition srv_get_semaphore ::
  "outside \<Rightarrow> srv_context \<Rightarrow> u8 list \<Rightarrow> ('t, 'p) kernel \<Rightarrow> ((srv_context, u8 list \<times> handle) handled \<times> ('t, 'p) kernel) res" where
  "srv_get_semaphore os srv data k =
     and_then (context_response 0 data) (\<lambda>w.
     and_then (create_event (os_draws os) OneShot k) (\<lambda>(res, k1).
     and_then (case res of Inl _ \<Rightarrow> Panic Unwrap | Inr event \<Rightarrow> Ret event) (\<lambda>event.
     and_then (response_write_translate (moved_handle event) w) (\<lambda>w.
     and_then (response_finish w) (\<lambda>data'. Ret (Handled srv data', k1))))))"

definition srv_register ::
  "outside \<Rightarrow> srv_context \<Rightarrow> u8 list \<Rightarrow> ('t, 'p) kernel \<Rightarrow> ((srv_context, u8 list \<times> handle) handled \<times> ('t, 'p) kernel) res" where
  "srv_register os srv data k =
     and_then (read_name_request data) (\<lambda>(name, name_length, max_sessions).
     let ((server, client), k1) = make_port_pair k in
     and_then (kernel_new_handle (os_draws os) server k1) (\<lambda>(server_port, k2).
     and_then (kernel_new_handle (os_draws os) client k2) (\<lambda>(client_port, k3).
     let srv' = register_service
       \<lparr>sv_name = name, sv_name_len = ucast name_length, sv_max_sessions = max_sessions,
        sv_client_port = client_port\<rparr> srv in
     and_then (respond 0 [] [moved_handle server_port] data) (\<lambda>data'. Ret (Handled srv' data', k3)))))"

definition srv_get_service ::
  "outside \<Rightarrow> srv_context \<Rightarrow> u8 list \<Rightarrow> ('t, 'p) kernel \<Rightarrow> ((srv_context, u8 list \<times> handle) handled \<times> ('t, 'p) kernel) res" where
  "srv_get_service os srv data k =
     and_then (read_name_request data) (\<lambda>(name, name_length, flags).
     and_then (find_service name (ucast name_length) srv) (\<lambda>found.
     and_then (expect ''Service not found'' found) (\<lambda>service.
     and_then (hle_create_session_to_port (os_alive os) (os_draws os) (sv_client_port service) k) (\<lambda>(wait, k1).
     case wait of
       SessionPending session \<Rightarrow> Ret (Waits srv (data, session), k1)
     | SessionReady (Inl _) \<Rightarrow> Panic Unwrap
     | SessionReady (Inr session) \<Rightarrow>
         and_then (respond 0 [] [moved_handle session] data) (\<lambda>data'. Ret (Handled srv data', k1))))))"

definition srv_publish_to_subscriber :: "srv_context \<Rightarrow> u8 list \<Rightarrow> u8 list res" where
  "srv_publish_to_subscriber srv data =
     and_then (context_request data) (\<lambda>q.
     and_then (request_read_normal q) (\<lambda>(notification, q).
     and_then (request_read_normal q) (\<lambda>(flags, _).
     and_then (guard (Expect ''Not implemented'') (notification \<notin> set (sx_seen_notifications srv))) (\<lambda>_.
     respond 0 [] [] data))))"

definition srv_publish_and_get_subscriber :: "srv_context \<Rightarrow> u8 list \<Rightarrow> u8 list res" where
  "srv_publish_and_get_subscriber srv data =
     and_then (read_one_normal data) (\<lambda>notification.
     and_then (context_response 0 data) (\<lambda>w.
     and_then (guard (Expect ''Not implemented'') (notification \<notin> set (sx_seen_notifications srv))) (\<lambda>_.
     and_then (fold_res response_write_normal [1, 1] w) response_finish)))"

definition answered :: "'c \<Rightarrow> ('t, 'p) kernel \<Rightarrow> u8 list res \<Rightarrow> (('c, 'w) handled \<times> ('t, 'p) kernel) res" where
  "answered c k answer = and_then answer (\<lambda>data. Ret (Handled c data, k))"

definition srv_handle_ipc ::
  "outside \<Rightarrow> srv_context \<Rightarrow> u8 list \<Rightarrow> ('t, 'p) kernel \<Rightarrow> ((srv_context, u8 list \<times> handle) handled \<times> ('t, 'p) kernel) res" where
  "srv_handle_ipc os srv data k =
     and_then (context_header data) (\<lambda>header.
     if is_command 1 0 2 header then answered srv k (respond 0 [] [] data)
     else if is_command 2 0 0 header then srv_get_semaphore os srv data k
     else if is_command 3 4 0 header then srv_register os srv data k
     else if is_command 5 4 0 header then srv_get_service os srv data k
     else if is_command 9 1 0 header then
       and_then (read_one_normal data) (\<lambda>notification.
       answered (srv\<lparr>sx_seen_notifications := sx_seen_notifications srv @ [notification]\<rparr>) k (respond 0 [] [] data))
     else if is_command 11 0 0 header then answered srv k (respond 0 [0x206] [] data)
     else if is_command 12 2 0 header then answered srv k (srv_publish_to_subscriber srv data)
     else if is_command 13 1 0 header then answered srv k (srv_publish_and_get_subscriber srv data)
     else Panic Unimplemented)"

text \<open>GetServiceHandle once the session has been accepted.\<close>

definition srv_handle_resumed ::
  "thread_resume \<Rightarrow> u8 list \<times> handle \<Rightarrow> u8 list res" where
  "srv_handle_resumed resume waiting =
     (case waiting of (data, session) \<Rightarrow>
        and_then (resumed_normally resume) (\<lambda>_. respond 0 [] [moved_handle session] data))"

section \<open>The clients of srv\<close>

definition name_words :: "u8 list \<Rightarrow> (u32 \<times> u32) res" where
  "name_words name =
     and_then (guard (Expect ''Invalid name given'') (length name \<le> 8)) (\<lambda>_.
     let raw_name = overwrite 0 name (replicate 8 0) in
     Ret (le_word (take 4 raw_name), le_word (take 4 (drop 4 raw_name))))"

definition srv_request :: "u16 \<Rightarrow> u8 list \<Rightarrow> u32 \<Rightarrow> u8 list res" where
  "srv_request command name extra =
     and_then (name_words name) (\<lambda>(name_a, name_b).
     and_then (writer_new_request command (replicate 256 0)) (\<lambda>w.
     and_then (fold_res writer_write_normal [name_a, name_b, of_nat (length name), extra] w) writer_finish))"

definition srv_register_service ::
  "outside \<Rightarrow> handle \<Rightarrow> u8 list \<Rightarrow> u32 \<Rightarrow> ('t, 'p) kernel \<Rightarrow> (unit poll \<times> ('t, 'p) kernel) res" where
  "srv_register_service os srv name max_sessions k =
     and_then (srv_request 3 name max_sessions) (\<lambda>data.
     and_then (hle_send_sync_request (os_alive os) srv data k) (\<lambda>(poll, k1).
     case poll of
       PollPending \<Rightarrow> Ret (PollPending, k1)
     | PollReady (Inl _) \<Rightarrow> Panic (Expect ''Other end disconnected'')
     | PollReady (Inr _) \<Rightarrow> Panic Unreachable))"

definition srv_get_service_handle ::
  "outside \<Rightarrow> handle \<Rightarrow> u8 list \<Rightarrow> bool \<Rightarrow> ('t, 'p) kernel \<Rightarrow> (unit poll \<times> ('t, 'p) kernel) res" where
  "srv_get_service_handle os srv name no_wait k =
     and_then (srv_request 5 name (if no_wait then 1 else 0)) (\<lambda>data.
     and_then (hle_send_sync_request (os_alive os) srv data k) (\<lambda>(poll, k1).
     case poll of
       PollPending \<Rightarrow> Ret (PollPending, k1)
     | PollReady (Inl _) \<Rightarrow> Panic (Expect ''Other end disconnected'')
     | PollReady (Inr _) \<Rightarrow> Panic Unreachable))"

definition srv_read_handle :: "u8 list \<Rightarrow> handle kresult res" where
  "srv_read_handle data =
     and_then (reader_new_response data) (\<lambda>r.
     if rd_result r \<noteq> 0 then Ret (Inl (rd_result r))
     else and_then (reader_read_translate r) (\<lambda>(param, _).
       case param of
         TpHandle _ _ (HSingle handle) \<Rightarrow> and_then (case handle of None \<Rightarrow> Panic Unwrap | Some h \<Rightarrow> Ret h) (\<lambda>h. Ret (Inr h))
       | _ \<Rightarrow> Panic (Expect ''Got invalid response from SRV:GetServiceHandle'')))"

text \<open>The end of both, when the answer has come.\<close>

definition srv_call_resumed :: "thread_resume \<Rightarrow> ('t, 'p) kernel \<Rightarrow> handle kresult res" where
  "srv_call_resumed resume k = and_then (hle_send_sync_request_resumed resume k) srv_read_handle"

section \<open>The loop of a server thread\<close>

text \<open>
  The locals of the loop both kinds of service run, and the point it is suspended at: in
  \<open>reply_and_receive\<close>, in \<open>accept_session\<close>, or in the handler of the request of session \<open>index\<close>.
\<close>

record 'c server =
  se_self :: 'c
  se_port :: handle
  se_handles :: "handle option list"
  se_data :: "u8 list"

datatype 'w server_point = InReceive | InAccept | InHandler nat 'w

definition server_new :: "'c \<Rightarrow> handle \<Rightarrow> 'c server" where
  "server_new self port = \<lparr>se_self = self, se_port = port, se_handles = [Some port], se_data = replicate 256 0\<rparr>"

text \<open>The head of the loop: reply to the target, if any, and wait for all handles.\<close>

definition server_receive ::
  "outside \<Rightarrow> handle option \<Rightarrow> 'c server \<Rightarrow> ('t, 'p) kernel \<Rightarrow> (('c server \<times> 'w server_point) \<times> ('t, 'p) kernel) res" where
  "server_receive os reply_target se k =
     and_then (hle_reply_and_receive (os_now os) (os_alive os) (os_draws os) (se_handles se) reply_target (se_data se) k)
       (\<lambda>(poll, k1).
     case poll of
       PollPending \<Rightarrow> Ret ((se, InReceive), k1)
     | PollReady (None, Inl err) \<Rightarrow> Panic (Expect ''Failed somewhere'')
     | PollReady _ \<Rightarrow> Panic Unreachable)"

text \<open>A new client: its session joins the handles.\<close>

definition server_accepted ::
  "outside \<Rightarrow> 'c server \<Rightarrow> handle kresult poll \<times> ('t, 'p) kernel \<Rightarrow>
     (('c server \<times> 'w server_point) \<times> ('t, 'p) kernel) res" where
  "server_accepted os se outcome =
     (case outcome of (poll, k) \<Rightarrow>
        (case poll of
           PollPending \<Rightarrow> Ret ((se, InAccept), k)
         | PollReady (Inl err) \<Rightarrow> Panic Unwrap
         | PollReady (Inr session) \<Rightarrow>
             server_receive os None (se\<lparr>se_handles := se_handles se @ [Some session]\<rparr>) k))"

text \<open>An answered request: the session it came from is the target of the reply.\<close>

definition server_answer ::
  "outside \<Rightarrow> nat \<Rightarrow> 'c server \<Rightarrow> ('t, 'p) kernel \<Rightarrow> (('c server \<times> 'w server_point) \<times> ('t, 'p) kernel) res" where
  "server_answer os index se k =
     and_then (guard OutOfRange (index < length (se_handles se))) (\<lambda>_.
     server_receive os (se_handles se ! index) se k)"

definition server_handle ::
  "('c, 'w, 't, 'p) ipc_handler \<Rightarrow> outside \<Rightarrow> nat \<Rightarrow> 'c server \<Rightarrow> ('t, 'p) kernel \<Rightarrow>
     (('c server \<times> 'w server_point) \<times> ('t, 'p) kernel) res" where
  "server_handle handle_ipc os index se k =
     and_then (handle_ipc os (se_self se) (se_data se) k) (\<lambda>(handled, k1).
     case handled of
       Handled self data \<Rightarrow> server_answer os index (se\<lparr>se_self := self, se_data := data\<rparr>) k1
     | Waits self waiting \<Rightarrow> Ret ((se\<lparr>se_self := self\<rparr>, InHandler index waiting), k1))"

definition server_poll ::
  "('c, 'w, 't, 'p) ipc_handler \<Rightarrow> (thread_resume \<Rightarrow> 'w \<Rightarrow> u8 list res) \<Rightarrow> outside \<Rightarrow> thread_resume \<Rightarrow>
     'c server \<times> 'w server_point \<Rightarrow> ('t, 'p) kernel \<Rightarrow> (('c server \<times> 'w server_point) \<times> ('t, 'p) kernel) res" where
  "server_poll handle_ipc handle_resumed os resume state k =
     (case state of (se, point) \<Rightarrow>
        (case point of
           InReceive \<Rightarrow>
             and_then (hle_reply_and_receive_resumed (os_draws os) (se_handles se) resume k)
               (\<lambda>(((index, res), data), k1).
             let se1 = se\<lparr>se_data := data\<rparr> in
             case (index, res) of
               (None, Inr _) \<Rightarrow> Panic Unreachable
             | (None, Inl err) \<Rightarrow> Panic (Expect ''Failed somewhere'')
             | (Some i, Inl err) \<Rightarrow> Panic (Expect ''Disconnect?'')
             | (Some i, Inr _) \<Rightarrow>
                 if i = 0
                 then and_then (hle_accept_session (os_alive os) (os_draws os) (se_port se1) k1)
                        (server_accepted os se1)
                 else server_handle handle_ipc os i se1 k1)
         | InAccept \<Rightarrow>
             and_then (hle_accept_session_resumed (os_alive os) (os_draws os) (se_port se) resume k)
               (server_accepted os se)
         | InHandler index waiting \<Rightarrow>
             and_then (handle_resumed resume waiting) (\<lambda>data.
             server_answer os index (se\<lparr>se_data := data\<rparr>) k)))"

section \<open>The life of a service thread\<close>

text \<open>
  The future of \<open>declare_service!\<close>: it connects to srv, registers itself and serves.  Each point
  holds what is needed after it.
\<close>

datatype ('c, 'w) service_future =
    ServiceStart 'c "u8 list"
  | ServiceConnecting 'c "u8 list" handle
  | ServiceRegistering 'c
  | ServiceServing "'c server" "'w server_point"

definition serving ::
  "(('c server \<times> 'w server_point) \<times> ('t, 'p) kernel) res \<Rightarrow> (('c, 'w) service_future \<times> ('t, 'p) kernel) res" where
  "serving outcome = and_then outcome (\<lambda>((se, point), k). Ret (ServiceServing se point, k))"

definition service_register ::
  "outside \<Rightarrow> 'c \<Rightarrow> u8 list \<Rightarrow> handle \<Rightarrow> ('t, 'p) kernel \<Rightarrow> (('c, 'w) service_future \<times> ('t, 'p) kernel) res" where
  "service_register os self name srv_session k =
     and_then (srv_register_service os srv_session name 255 k) (\<lambda>(_, k1). Ret (ServiceRegistering self, k1))"

definition service_poll ::
  "('c, 'w, 't, 'p) ipc_handler \<Rightarrow> (thread_resume \<Rightarrow> 'w \<Rightarrow> u8 list res) \<Rightarrow> outside \<Rightarrow> thread_resume \<Rightarrow>
     ('c, 'w) service_future \<Rightarrow> ('t, 'p) kernel \<Rightarrow> (('c, 'w) service_future \<times> ('t, 'p) kernel) res" where
  "service_poll handle_ipc handle_resumed os resume future k =
     (case future of
        ServiceStart self name \<Rightarrow>
          and_then (expect ''Could not find srv: port'' (lookup_port [0x73, 0x72, 0x76, 0x3A] k)) (\<lambda>port.
          and_then (kernel_new_handle (os_draws os) port k) (\<lambda>(h, k1).
          and_then (hle_create_session_to_port (os_alive os) (os_draws os) h k1) (\<lambda>(wait, k2).
          case wait of
            SessionPending session \<Rightarrow> Ret (ServiceConnecting self name session, k2)
          | SessionReady (Inl err) \<Rightarrow> Panic Unwrap
          | SessionReady (Inr session) \<Rightarrow> service_register os self name session k2)))
      | ServiceConnecting self name session \<Rightarrow>
          and_then (resumed_normally resume) (\<lambda>_. service_register os self name session k)
      | ServiceRegistering self \<Rightarrow>
          and_then (srv_call_resumed resume k) (\<lambda>res.
          case res of
            Inl err \<Rightarrow> Panic Unwrap
          | Inr port \<Rightarrow> serving (server_receive os None (server_new self port) k))
      | ServiceServing se point \<Rightarrow>
          serving (server_poll handle_ipc handle_resumed os resume (se, point) k))"

definition service_start ::
  "string \<Rightarrow> 'p \<Rightarrow> 't \<Rightarrow> ('t, 'p) kernel \<Rightarrow> (u32 \<times> ('t, 'p) kernel) res" where
  "service_start name process_hle thread k =
     and_then (new_process name process_hle k) (\<lambda>(pid, k1).
     and_then (new_thread pid thread k1) (\<lambda>(_, k2). Ret (pid, k2)))"

section \<open>The thread of srv\<close>

datatype srv_future =
    SrvStart oid
  | SrvServing "srv_context server" "(u8 list \<times> handle) server_point"

definition srv_poll ::
  "outside \<Rightarrow> thread_resume \<Rightarrow> srv_future \<Rightarrow> ('t, 'p) kernel \<Rightarrow> (srv_future \<times> ('t, 'p) kernel) res" where
  "srv_poll os resume future k =
     (case future of
        SrvStart server \<Rightarrow>
          and_then (kernel_new_handle (os_draws os) server k) (\<lambda>(server_handle, k1).
          and_then (server_receive os None (server_new srv_new server_handle) k1) (\<lambda>((se, point), k2).
          Ret (SrvServing se point, k2)))
      | SrvServing se point \<Rightarrow>
          and_then (server_poll srv_handle_ipc srv_handle_resumed os resume (se, point) k) (\<lambda>((se', point'), k1).
          Ret (SrvServing se' point', k1)))"

definition srv_start ::
  "'p \<Rightarrow> (oid \<Rightarrow> 't) \<Rightarrow> ('t, 'p) kernel \<Rightarrow> ((u32 \<times> oid) \<times> ('t, 'p) kernel) res" where
  "srv_start process_hle thread_of k =
     and_then (new_process ''srv'' process_hle k) (\<lambda>(pid, k1).
     let ((server, client), k2) = make_port_pair k1 in
     and_then (new_thread pid (thread_of server) k2) (\<lambda>(_, k3). Ret ((pid, client), k3)))"

end
