(* ===== verification/GuestMemory.thy ===== *)
theory GuestMemory
  imports Prelude
begin

text \<open>
  The machine a guest runs on: the register file and the memory of
  \<open>guest/src/guest_abstraction.rs\<close> with their implementation \<open>ThreadRegs\<close> and \<open>DynarmicMemory\<close>
  in \<open>guest_dynarmic/src/lib.rs\<close>.

  The recompiler's \<open>MemoryImpl\<close> is a third-party type: a record of operations on a state \<open>'d\<close>.
\<close>

unbundle bit_operations_syntax

section \<open>Registers\<close>

record thread_regs =
  tr_cpsr :: u32
  tr_regs :: "u32 list"
  tr_ext_regs :: "u32 list"

definition regs_zero :: thread_regs where
  "regs_zero = \<lparr>tr_cpsr = 0, tr_regs = replicate 16 0, tr_ext_regs = replicate 64 0\<rparr>"

definition reg_r :: "u8 \<Rightarrow> thread_regs \<Rightarrow> u32" where
  "reg_r reg regs = tr_regs regs ! unat (reg AND 0xF)"

definition reg_sr :: "u8 \<Rightarrow> u32 \<Rightarrow> thread_regs \<Rightarrow> thread_regs" where
  "reg_sr reg value' regs = regs\<lparr>tr_regs := (tr_regs regs)[unat (reg AND 0xF) := value']\<rparr>"

definition regs_set_cpsr :: "u32 \<Rightarrow> thread_regs \<Rightarrow> thread_regs" where
  "regs_set_cpsr value' regs = regs\<lparr>tr_cpsr := value'\<rparr>"

text \<open>The arrays of the code have fixed lengths.\<close>

definition regs_ok :: "thread_regs \<Rightarrow> bool" where
  "regs_ok regs \<longleftrightarrow> length (tr_regs regs) = 16 \<and> length (tr_ext_regs regs) = 64"

lemma reg_index: "unat (reg AND 0xF :: u8) < 16"
proof -
  have "reg AND 0xF \<le> 0xF" by (rule word_and_le1)
  then show ?thesis by (simp add: word_le_nat_alt)
qed

lemma regs_ok_simps [simp]:
  "regs_ok regs_zero"
  "regs_ok (reg_sr reg v regs) = regs_ok regs"
  "regs_ok (regs_set_cpsr v regs) = regs_ok regs"
  by (simp_all add: regs_ok_def regs_zero_def reg_sr_def regs_set_cpsr_def)

lemma reg_r_sr [simp]:
  "regs_ok regs \<Longrightarrow> reg_r a (reg_sr b v regs) = (if a AND 0xF = b AND 0xF then v else reg_r a regs)"
  using reg_index [of a] reg_index [of b]
  by (auto simp: reg_r_def reg_sr_def regs_ok_def nth_list_update dest: unsigned_word_eqI)

lemma reg_r_set_cpsr [simp]: "reg_r a (regs_set_cpsr v regs) = reg_r a regs"
  by (simp add: reg_r_def regs_set_cpsr_def)

section \<open>Memory\<close>

datatype protection = ReadOnly | ReadWrite | ReadExecute

record 'm memory_map =
  mm_read :: "u32 \<Rightarrow> nat \<Rightarrow> 'm \<Rightarrow> u8 list res"
  mm_write :: "u32 \<Rightarrow> u8 list \<Rightarrow> 'm \<Rightarrow> 'm res"
  mm_map :: "u32 \<Rightarrow> u32 \<Rightarrow> string \<Rightarrow> u8 list option \<Rightarrow> protection \<Rightarrow> 'm \<Rightarrow> 'm res"

record 'd memory_impl =
  mi_read8 :: "u32 \<Rightarrow> 'd \<Rightarrow> u8 res"
  mi_read32 :: "u32 \<Rightarrow> 'd \<Rightarrow> u32 res"
  mi_write8 :: "u32 \<Rightarrow> u8 \<Rightarrow> 'd \<Rightarrow> 'd res"
  mi_write32 :: "u32 \<Rightarrow> u32 \<Rightarrow> 'd \<Rightarrow> 'd res"
  mi_map :: "u32 \<Rightarrow> u32 \<Rightarrow> bool \<Rightarrow> 'd \<Rightarrow> 'd res"

primrec collect_res :: "('i \<Rightarrow> 'a list res) \<Rightarrow> 'i list \<Rightarrow> 'a list res" where
  "collect_res f [] = Ret []"
| "collect_res f (i # is) =
     and_then (f i) (\<lambda>xs. and_then (collect_res f is) (\<lambda>ys. Ret (xs @ ys)))"

definition cmul :: "'a::len word \<Rightarrow> 'a word \<Rightarrow> 'a word res" where
  "cmul a b = (if unat a * unat b < 2 ^ LENGTH('a) then Ret (a * b) else Panic Overflow)"

text \<open>The addresses \<open>addr + i as u32 * 4\<close> and \<open>addr + i as u32\<close>.\<close>

definition word_addr :: "u32 \<Rightarrow> nat \<Rightarrow> u32 res" where
  "word_addr addr i = and_then (cmul (of_nat i) 4) (cadd addr)"

definition byte_addr :: "u32 \<Rightarrow> nat \<Rightarrow> u32 res" where
  "byte_addr addr i = cadd addr (of_nat i)"

definition word_aligned :: "u32 \<Rightarrow> nat \<Rightarrow> bool" where
  "word_aligned addr n \<longleftrightarrow> addr AND 3 = 0 \<and> n mod 4 = 0"

definition read_words :: "'d memory_impl \<Rightarrow> u32 \<Rightarrow> nat \<Rightarrow> 'd \<Rightarrow> u8 list res" where
  "read_words mi addr n d =
     collect_res (\<lambda>i. and_then (word_addr addr i) (\<lambda>a.
       and_then (mi_read32 mi a d) (\<lambda>v. Ret (le32 v)))) [0..<n div 4]"

definition read_bytes :: "'d memory_impl \<Rightarrow> u32 \<Rightarrow> nat \<Rightarrow> 'd \<Rightarrow> u8 list res" where
  "read_bytes mi addr n d =
     collect_res (\<lambda>i. and_then (byte_addr addr i) (\<lambda>a.
       and_then (mi_read8 mi a d) (\<lambda>b. Ret [b]))) [0..<n]"

definition dynarmic_read :: "'d memory_impl \<Rightarrow> u32 \<Rightarrow> nat \<Rightarrow> 'd \<Rightarrow> u8 list res" where
  "dynarmic_read mi addr n d =
     (if word_aligned addr n then read_words mi addr n d else read_bytes mi addr n d)"

definition write_words :: "'d memory_impl \<Rightarrow> u32 \<Rightarrow> u8 list \<Rightarrow> 'd \<Rightarrow> 'd res" where
  "write_words mi addr bytes d =
     fold_res (\<lambda>i d. and_then (word_addr addr i) (\<lambda>a.
       mi_write32 mi a (le_word (take 4 (drop (i * 4) bytes))) d)) [0..<length bytes div 4] d"

definition write_bytes :: "'d memory_impl \<Rightarrow> u32 \<Rightarrow> u8 list \<Rightarrow> 'd \<Rightarrow> 'd res" where
  "write_bytes mi addr bytes d =
     fold_res (\<lambda>i d. and_then (byte_addr addr i) (\<lambda>a. mi_write8 mi a (bytes ! i) d)) [0..<length bytes] d"

definition dynarmic_write :: "'d memory_impl \<Rightarrow> u32 \<Rightarrow> u8 list \<Rightarrow> 'd \<Rightarrow> 'd res" where
  "dynarmic_write mi addr bytes d =
     (if word_aligned addr (length bytes) then write_words mi addr bytes d else write_bytes mi addr bytes d)"

definition dynarmic_map ::
  "'d memory_impl \<Rightarrow> u32 \<Rightarrow> u32 \<Rightarrow> string \<Rightarrow> u8 list option \<Rightarrow> protection \<Rightarrow> 'd \<Rightarrow> 'd res" where
  "dynarmic_map mi addr sz name init prot d =
     and_then (mi_map mi addr (drop_bit 12 sz) (prot \<noteq> ReadWrite) d) (\<lambda>d1.
     case init of
       None \<Rightarrow> Ret d1
     | Some data \<Rightarrow>
         and_then (guard Assertion (length data \<le> unat sz)) (\<lambda>_. dynarmic_write mi addr data d1))"

definition dynarmic_memory :: "'d memory_impl \<Rightarrow> 'd memory_map" where
  "dynarmic_memory mi =
     \<lparr>mm_read = dynarmic_read mi, mm_write = dynarmic_write mi, mm_map = dynarmic_map mi\<rparr>"

section \<open>Words and bytes\<close>

text \<open>
  A memory whose 32-bit accesses are the four byte accesses of the little-endian order, as the flat
  memory below has it.
\<close>

definition words_are_bytes :: "'d memory_impl \<Rightarrow> bool" where
  "words_are_bytes mi \<longleftrightarrow>
     (\<forall>a d. mi_read32 mi a d =
        and_then (collect_res (\<lambda>i. and_then (mi_read8 mi (a + of_nat i) d) (\<lambda>b. Ret [b])) [0..<4])
          (\<lambda>bs. Ret (le_word bs))) \<and>
     (\<forall>a v d. mi_write32 mi a v d = fold_res (\<lambda>i. mi_write8 mi (a + of_nat i) (le32 v ! i)) [0..<4] d)"

lemma collect_res_append:
  "collect_res f (xs @ ys) = and_then (collect_res f xs) (\<lambda>a. and_then (collect_res f ys) (\<lambda>b. Ret (a @ b)))"
proof (induction xs)
  case (Cons x xs)
  then show ?case by (cases "f x") (simp_all add: comp_def)
qed (cases "collect_res f ys"; simp)

lemma collect_res_cong:
  "(\<And>i. i \<in> set is \<Longrightarrow> f i = g i) \<Longrightarrow> collect_res f is = collect_res g is"
  by (induction "is") simp_all

lemma fold_res_cong:
  "(\<And>i s. i \<in> set is \<Longrightarrow> f i s = g i s) \<Longrightarrow> fold_res f is s = fold_res g is s"
proof (induction "is" arbitrary: s)
  case (Cons i "is")
  then show ?case by (cases "g i s") simp_all
qed simp

lemma upt_words: "[0..<4 * Suc m] = [0..<4 * m] @ [4 * m, 4 * m + 1, 4 * m + 2, 4 * m + 3]"
proof -
  have "4 * Suc m = Suc (Suc (Suc (Suc (4 * m))))" by simp
  then show ?thesis by (simp only: upt_Suc_append) (simp add: numeral_3_eq_3)
qed

lemma upt_four: "[0..<4] = [0, 1, 2, 3 :: nat]"
  by (simp add: upt_rec)

lemma collect_by_words:
  "collect_res f [0..<4 * m] = collect_res (\<lambda>i. collect_res (\<lambda>j. f (4 * i + j)) [0..<4]) [0..<m]"
  by (induction m) (simp_all add: upt_words collect_res_append upt_four del: mult_Suc_right)

lemma fold_res_fun: "fold_res f [] = Ret" "fold_res f (x # xs) = (\<lambda>s. and_then (f x s) (fold_res f xs))"
  by (rule ext, simp)+

lemma fold_by_words:
  "fold_res f [0..<4 * m] s = fold_res (\<lambda>i. fold_res (\<lambda>j. f (4 * i + j)) [0..<4]) [0..<m] s"
proof (induction m)
  case (Suc m)
  have "fold_res f [4 * m, 4 * m + 1, 4 * m + 2, 4 * m + 3] =
      fold_res (\<lambda>i. fold_res (\<lambda>j. f (4 * i + j)) [0..<4]) [m]"
    by (simp add: upt_four fold_res_fun)
  then show ?case using Suc.IH by (simp add: upt_words del: mult_Suc_right fold_res.simps)
qed simp

lemma collect_length:
  "\<lbrakk>collect_res f is = Ret xs; \<And>i ys. f i = Ret ys \<Longrightarrow> length ys = 1\<rbrakk> \<Longrightarrow> length xs = length is"
  by (induction "is" arbitrary: xs) auto

lemma aligned_mod:
  assumes "addr AND 3 = (0 :: u32)"
  shows "unat addr mod 4 = 0"
proof -
  have "addr AND mask 2 = 0" using assms by (simp add: mask_eq_decr_exp)
  then have "unat (take_bit 2 addr) = 0" by (simp add: take_bit_eq_mask)
  then show ?thesis by (simp add: take_bit_eq_mod unat_mod)
qed

lemma word_addr_small: "4 * i < 2 ^ 32 \<Longrightarrow> word_addr addr i = cadd addr (of_nat (4 * i))"
  by (simp add: word_addr_def cmul_def unat_of_nat mult.commute)

lemma unat_of_small: "n < 2 ^ 32 \<Longrightarrow> unat (of_nat n :: u32) = n"
  unfolding unat_of_nat by simp

lemma cadd_cases: "cadd x y = Panic Overflow \<or> (\<exists>a. cadd x y = Ret a)"
  by (auto simp: cadd_def split: option.splits)

text \<open>At an aligned address the four bytes of a word are addressable when the first one is.\<close>

lemma word_byte_addrs:
  assumes "addr AND 3 = 0" "4 * i < 2 ^ 32 - 3" "cadd addr (of_nat (4 * i)) = Ret a" "j < 4"
  shows "byte_addr addr (4 * i + j) = Ret (a + of_nat j)"
proof -
  have "unat addr + unat (of_nat (4 * i) :: u32) < 2 ^ LENGTH(32)" and a: "a = addr + of_nat (4 * i)"
    using assms(3) unfolding cadd_eq_Ret by blast+
  then have "unat addr + 4 * i < 2 ^ 32"
    using unat_of_small [of "4 * i"] assms(2) by simp
  moreover obtain q where q: "unat addr = 4 * q" using aligned_mod [OF assms(1)] by auto
  ultimately have "q + i < 2 ^ 30" by simp
  then have "unat addr + (4 * i + j) < 2 ^ 32" using assms(4) q by simp
  moreover have "unat (of_nat (4 * i + j) :: u32) = 4 * i + j"
    using assms(2,4) by (intro unat_of_small) simp
  ultimately show ?thesis using a by (simp add: byte_addr_def add.assoc)
qed

lemma word_addr_overflows:
  assumes "4 * i < 2 ^ 32" "cadd addr (of_nat (4 * i)) = Panic Overflow"
  shows "byte_addr addr (4 * i) = Panic Overflow" "word_addr addr i = Panic Overflow"
  using assms unfolding byte_addr_def word_addr_small [OF assms(1)] by simp_all

lemma read_one_word:
  assumes "words_are_bytes mi" "addr AND 3 = 0" "4 * i < 2 ^ 32 - 3"
  shows "collect_res (\<lambda>j. and_then (byte_addr addr (4 * i + j)) (\<lambda>a. and_then (mi_read8 mi a d) (\<lambda>b. Ret [b]))) [0..<4] =
    and_then (word_addr addr i) (\<lambda>a. and_then (mi_read32 mi a d) (\<lambda>v. Ret (le32 v)))" (is "collect_res ?f _ = _")
proof (cases "cadd addr (of_nat (4 * i)) = Panic Overflow")
  case False
  then obtain a where a: "cadd addr (of_nat (4 * i)) = Ret a" using cadd_cases by blast
  let ?g = "\<lambda>j. and_then (mi_read8 mi (a + of_nat j) d) (\<lambda>b. Ret [b])"
  have "collect_res ?f [0..<4] = collect_res ?g [0..<4]"
    using word_byte_addrs [OF assms(2,3) a] by (intro collect_res_cong) auto
  moreover have "and_then (collect_res ?g [0..<4]) (\<lambda>bs. Ret (le32 (le_word bs))) = collect_res ?g [0..<4]"
  proof (cases "collect_res ?g [0..<4]")
    case (Ret bs)
    have "length bs = length [0..<4]" by (rule collect_length [OF Ret]) auto
    then have "le32 (le_word bs) = bs" using le_bytes_le_word [of bs, where 'a = 32] by simp
    then show ?thesis using Ret by simp
  qed simp_all
  moreover have "word_addr addr i = Ret a" using a word_addr_small [of i addr] assms(3) by simp
  ultimately show ?thesis using assms(1) by (simp add: words_are_bytes_def)
next
  case True
  then show ?thesis
    using word_addr_overflows [of i addr] assms(3) by (simp add: upt_rec)
qed

lemma read_words_bytes:
  assumes "words_are_bytes mi" "word_aligned addr n" "n < 2 ^ 32"
  shows "read_words mi addr n d = read_bytes mi addr n d"
proof -
  obtain m where n: "n = 4 * m" using assms(2) by (auto simp: word_aligned_def)
  have aligned: "addr AND 3 = 0" using assms(2) by (simp add: word_aligned_def)
  have m: "n div 4 = m" using n by simp
  show ?thesis
    unfolding read_words_def read_bytes_def m unfolding n collect_by_words
  proof (rule collect_res_cong [OF sym])
    fix i assume "i \<in> set [0..<m]"
    then have "4 * i < 2 ^ 32 - 3" using assms(3) n by simp
    then show "collect_res (\<lambda>j. and_then (byte_addr addr (4 * i + j))
        (\<lambda>a. and_then (mi_read8 mi a d) (\<lambda>b. Ret [b]))) [0..<4] =
      and_then (word_addr addr i) (\<lambda>a. and_then (mi_read32 mi a d) (\<lambda>v. Ret (le32 v)))"
      by (rule read_one_word [OF assms(1) aligned])
  qed
qed

lemma write_one_word:
  assumes "words_are_bytes mi" "addr AND 3 = 0" "4 * i < 2 ^ 32 - 3" "4 * i + 4 \<le> length bytes"
  shows "fold_res (\<lambda>j d. and_then (byte_addr addr (4 * i + j)) (\<lambda>a. mi_write8 mi a (bytes ! (4 * i + j)) d)) [0..<4] d =
    and_then (word_addr addr i) (\<lambda>a. mi_write32 mi a (le_word (take 4 (drop (i * 4) bytes))) d)"
    (is "fold_res ?f _ _ = _")
proof (cases "cadd addr (of_nat (4 * i)) = Panic Overflow")
  case False
  then obtain a where a: "cadd addr (of_nat (4 * i)) = Ret a" using cadd_cases by blast
  let ?bs = "take 4 (drop (i * 4) bytes)"
  have "length ?bs = 4" using assms(4) by simp
  then have bs: "le32 (le_word ?bs) = ?bs" using le_bytes_le_word [of ?bs, where 'a = 32] by simp
  have "fold_res ?f [0..<4] d = fold_res (\<lambda>j. mi_write8 mi (a + of_nat j) (?bs ! j)) [0..<4] d"
    using word_byte_addrs [OF assms(2,3) a] assms(4) by (intro fold_res_cong) (auto simp: mult.commute)
  moreover have "word_addr addr i = Ret a" using a word_addr_small [of i addr] assms(3) by simp
  ultimately show ?thesis using assms(1) bs by (simp add: words_are_bytes_def)
next
  case True
  then show ?thesis
    using word_addr_overflows [of i addr] assms(3) by (simp add: upt_rec)
qed

lemma write_words_bytes:
  assumes "words_are_bytes mi" "word_aligned addr (length bytes)" "length bytes < 2 ^ 32"
  shows "write_words mi addr bytes d = write_bytes mi addr bytes d"
proof -
  obtain m where n: "length bytes = 4 * m" using assms(2) by (auto simp: word_aligned_def)
  have aligned: "addr AND 3 = 0" using assms(2) by (simp add: word_aligned_def)
  have m: "length bytes div 4 = m" using n by simp
  show ?thesis
    unfolding write_words_def write_bytes_def m unfolding n fold_by_words
  proof (rule fold_res_cong [OF sym])
    fix i d assume "i \<in> set [0..<m]"
    then have "4 * i < 2 ^ 32 - 3" "4 * i + 4 \<le> length bytes" using assms(3) n by simp_all
    then show "fold_res (\<lambda>j d. and_then (byte_addr addr (4 * i + j))
        (\<lambda>a. mi_write8 mi a (bytes ! (4 * i + j)) d)) [0..<4] d =
      and_then (word_addr addr i) (\<lambda>a. mi_write32 mi a (le_word (take 4 (drop (i * 4) bytes))) d)"
      by (rule write_one_word [OF assms(1) aligned])
  qed
qed

text \<open>A flat memory, its words in little-endian order.\<close>

definition flat_memory :: "(u32 \<Rightarrow> u8) memory_impl" where
  "flat_memory =
     \<lparr>mi_read8 = (\<lambda>a d. Ret (d a)),
      mi_read32 = (\<lambda>a d. Ret (le_word [d a, d (a + 1), d (a + 2), d (a + 3)])),
      mi_write8 = (\<lambda>a v d. Ret (d(a := v))),
      mi_write32 = (\<lambda>a v d. Ret (d(a := le32 v ! 0, a + 1 := le32 v ! 1, a + 2 := le32 v ! 2, a + 3 := le32 v ! 3))),
      mi_map = (\<lambda>a n r d. Ret d)\<rparr>"

lemma flat_memory_words: "words_are_bytes flat_memory"
  by (simp add: words_are_bytes_def flat_memory_def upt_four)

text \<open>The flat memory reads and writes any range that does not run past the end.\<close>

lemma byte_addr_small: "unat addr + i < 2 ^ 32 \<Longrightarrow> byte_addr addr i = Ret (addr + of_nat i)"
  using unat_of_small [of i] by (simp add: byte_addr_def)

lemma flat_read:
  assumes "unat addr + n \<le> 2 ^ 32" "n < 2 ^ 32"
  shows "mm_read (dynarmic_memory flat_memory) addr n d = Ret (map (\<lambda>i. d (addr + of_nat i)) [0..<n])"
proof -
  have "m \<le> n \<Longrightarrow> read_bytes flat_memory addr m d = Ret (map (\<lambda>i. d (addr + of_nat i)) [0..<m])" for m
  proof (induction m)
    case (Suc m)
    then show ?case
      using byte_addr_small [of addr m] assms(1)
      by (simp add: read_bytes_def collect_res_append flat_memory_def)
  qed (simp add: read_bytes_def)
  then show ?thesis
    using read_words_bytes [OF flat_memory_words _ assms(2), of addr]
    by (simp add: dynarmic_memory_def dynarmic_read_def)
qed

lemma flat_write:
  assumes "unat addr + length bytes \<le> 2 ^ 32" "length bytes < 2 ^ 32"
  shows "\<exists>d'. mm_write (dynarmic_memory flat_memory) addr bytes d = Ret d' \<and>
    (\<forall>a. unat a < unat addr \<longrightarrow> d' a = d a)"
proof -
  let ?f = "\<lambda>i d. and_then (byte_addr addr i) (\<lambda>a. mi_write8 flat_memory a (bytes ! i) d)"
  have "m \<le> length bytes \<Longrightarrow> \<exists>d'. fold_res ?f [0..<m] d = Ret d' \<and> (\<forall>a. unat a < unat addr \<longrightarrow> d' a = d a)" for m
  proof (induction m)
    case (Suc m)
    then obtain d' where d': "fold_res ?f [0..<m] d = Ret d'" "\<forall>a. unat a < unat addr \<longrightarrow> d' a = d a" by auto
    have fit: "unat addr + m < 2 ^ 32" using Suc.prems assms(1) by simp
    then have "unat (addr + of_nat m) = unat addr + m"
      using unat_of_small [of m] by (simp add: unat_add_small)
    then have "a \<noteq> addr + of_nat m" if "unat a < unat addr" for a using that by auto
    then show ?case using d' byte_addr_small [OF fit] by (simp add: flat_memory_def)
  qed simp
  from this [of "length bytes"] show ?thesis
    using write_words_bytes [OF flat_memory_words _ assms(2), of addr d]
    by (simp add: dynarmic_memory_def dynarmic_write_def write_bytes_def)
qed

section \<open>Which accesses are made\<close>

text \<open>An access of \<open>n\<close> bytes is made in steps of \<open>access_width\<close> bytes, at the addresses \<open>accesses\<close>,
  counted without wrap-around.\<close>

definition access_width :: "u32 \<Rightarrow> nat \<Rightarrow> nat" where
  "access_width addr n = (if word_aligned addr n then 4 else 1)"

definition accesses :: "u32 \<Rightarrow> nat \<Rightarrow> nat list" where
  "accesses addr n = map (\<lambda>i. unat addr + access_width addr n * i) [0..<n div access_width addr n]"

lemma collect_res_map: "collect_res f (map g xs) = collect_res (\<lambda>x. f (g x)) xs"
  by (induction xs) simp_all

lemma fold_res_map: "fold_res f (map g xs) s = fold_res (\<lambda>x. f (g x)) xs s"
proof -
  have "fold_res f (map g xs) = fold_res (\<lambda>x. f (g x)) xs" by (induction xs) (simp_all add: fold_res_fun)
  then show ?thesis by simp
qed

lemma addr_without_wrap:
  assumes "i < 2 ^ 32"
  shows "byte_addr addr i = (if unat addr + i < 2 ^ 32 then Ret (of_nat (unat addr + i)) else Panic Overflow)"
    and "word_addr addr i = (if unat addr + 4 * i < 2 ^ 32 then Ret (of_nat (unat addr + 4 * i)) else Panic Overflow)"
proof -
  have i: "unat (of_nat i :: u32) = i" using assms by (rule unat_of_small)
  show "byte_addr addr i = (if unat addr + i < 2 ^ 32 then Ret (of_nat (unat addr + i)) else Panic Overflow)"
    by (simp add: byte_addr_def cadd_def checked_add_def i)
  show "word_addr addr i = (if unat addr + 4 * i < 2 ^ 32 then Ret (of_nat (unat addr + 4 * i)) else Panic Overflow)"
  proof (cases "4 * i < 2 ^ 32")
    case True
    then have "unat (of_nat (4 * i) :: u32) = 4 * i" by (rule unat_of_small)
    then show ?thesis unfolding word_addr_small [OF True] cadd_def checked_add_def by simp
  next
    case False
    then show ?thesis using i by (simp add: word_addr_def cmul_def)
  qed
qed

lemma accesses_tile:
  "concat (map (\<lambda>a. [a..<a + access_width addr n]) (accesses addr n)) = [unat addr..<unat addr + n]"
proof -
  have "concat (map (\<lambda>i. [a + w * i..<a + w * i + w]) [0..<m]) = [a..<a + w * m]" for a w m :: nat
  proof (induction m)
    case (Suc m)
    have "[a..<a + w * Suc m] = [a..<a + w * m] @ [a + w * m..<a + w * m + w]"
      using upt_add_eq_append [of a "a + w * m" w] by (simp add: algebra_simps)
    then show ?case using Suc.IH by (simp del: mult_Suc_right)
  qed simp
  moreover have "access_width addr n * (n div access_width addr n) = n"
    by (auto simp: access_width_def word_aligned_def)
  ultimately show ?thesis by (simp add: accesses_def comp_def)
qed

text \<open>C15: \<open>DynarmicMemory::read\<close> and \<open>write\<close> touch exactly the range they are asked for, once and in
  ascending order: word by word with the memory's 32-bit accesses if address and length are
  multiples of four, else byte by byte; each word and byte read goes to, and each written comes
  from, its place in the buffer, in little-endian order; and the first access beyond the address
  space is an arithmetic panic, never one that wraps around to address 0.  No law of the memory is
  assumed.\<close>

theorem dynarmic_accesses_range:
  assumes "n \<le> 2 ^ 32" "length bytes \<le> 2 ^ 32"
  shows "dynarmic_read mi addr n d =
      collect_res (\<lambda>a.
        if 2 ^ 32 \<le> a then Panic Overflow
        else if word_aligned addr n then and_then (mi_read32 mi (of_nat a) d) (\<lambda>v. Ret (le32 v))
        else and_then (mi_read8 mi (of_nat a) d) (\<lambda>b. Ret [b])) (accesses addr n) \<and>
    dynarmic_write mi addr bytes d =
      fold_res (\<lambda>a d.
        if 2 ^ 32 \<le> a then Panic Overflow
        else if word_aligned addr (length bytes)
        then mi_write32 mi (of_nat a) (le_word (take 4 (drop (a - unat addr) bytes))) d
        else mi_write8 mi (of_nat a) (bytes ! (a - unat addr)) d) (accesses addr (length bytes)) d \<and>
    concat (map (\<lambda>a. [a..<a + access_width addr n]) (accesses addr n)) = [unat addr..<unat addr + n]"
    (is "?r \<and> ?w \<and> _")
proof (intro conjI accesses_tile)
  note plan = accesses_def access_width_def collect_res_map fold_res_map
  show ?r
  proof (cases "word_aligned addr n")
    case True
    show ?thesis
      unfolding dynarmic_read_def read_words_def plan
      by (simp only: True if_True, rule collect_res_cong)
        (use assms(1) in \<open>simp add: addr_without_wrap(2) not_le\<close>)
  next
    case False
    show ?thesis
      unfolding dynarmic_read_def read_bytes_def plan
      by (simp only: False if_False div_by_1 mult_1, rule collect_res_cong)
        (use assms(1) in \<open>simp add: addr_without_wrap(1) not_le\<close>)
  qed
  show ?w
  proof (cases "word_aligned addr (length bytes)")
    case True
    show ?thesis
      unfolding dynarmic_write_def write_words_def plan
      by (simp only: True if_True, rule fold_res_cong)
        (use assms(2) in \<open>simp add: addr_without_wrap(2) not_le mult.commute\<close>)
  next
    case False
    show ?thesis
      unfolding dynarmic_write_def write_bytes_def plan
      by (simp only: False if_False div_by_1 mult_1, rule fold_res_cong)
        (use assms(2) in \<open>simp add: addr_without_wrap(1) not_le\<close>)
  qed
qed

theorem dynarmic_accesses_range_witness:
  "dynarmic_read flat_memory 0x1000 8 (\<lambda>a. ucast a) =
     collect_res (\<lambda>a. and_then (mi_read32 flat_memory (of_nat a) (\<lambda>a. ucast a)) (\<lambda>v. Ret (le32 v))) [0x1000, 0x1004]"
  using dynarmic_accesses_range [of 8 "[]" flat_memory "0x1000" "\<lambda>a. ucast a"]
  by (simp add: word_aligned_def accesses_def access_width_def upt_rec)

end
