(* ===== verification/Guest.thy ===== *)
theory Guest
  imports Svc GuestMemory
begin

text \<open>
  \<open>guest/src/lib.rs\<close>: the processes and threads of emulated code and their system calls, and
  \<open>DynarmicGuest\<close> of \<open>guest_dynarmic/src/lib.rs\<close>, which runs them.

  A system call gets the registers, the thread-local storage address, the memory of its process
  and the kernel, and returns them changed.  \<open>world\<close> collects what comes from outside: the memory
  operations, the random handles, the clock, the reachability of weak references, \<open>init_thread\<close>
  of the current process and the conversion of nanoseconds to ticks, which the code does in
  floating point.  The executor of the recompiler is a function from the callback for system
  calls to the change of the machine.
\<close>

section \<open>Threads and their local storage\<close>

record thread_context =
  th_tls :: u32
  th_ctx :: thread_regs

definition thread_context_new :: thread_context where
  "thread_context_new = \<lparr>th_tls = 0, th_ctx = regs_zero\<rparr>"

definition set_arg :: "u32 \<Rightarrow> thread_context \<Rightarrow> thread_context" where
  "set_arg v t = t\<lparr>th_ctx := reg_sr 0 v (th_ctx t)\<rparr>"

definition thread_pc :: "thread_context \<Rightarrow> u32" where
  "thread_pc t = reg_r 15 (th_ctx t)"

definition set_pc :: "u32 \<Rightarrow> thread_context \<Rightarrow> thread_context" where
  "set_pc v t = t\<lparr>th_ctx := reg_sr 15 v (th_ctx t)\<rparr>"

definition set_sp :: "u32 \<Rightarrow> thread_context \<Rightarrow> thread_context" where
  "set_sp v t = t\<lparr>th_ctx := reg_sr 13 v (th_ctx t)\<rparr>"

definition set_cpsr :: "u32 \<Rightarrow> thread_context \<Rightarrow> thread_context" where
  "set_cpsr v t = t\<lparr>th_ctx := regs_set_cpsr v (th_ctx t)\<rparr>"

record process_tls =
  pt_free :: "u8 list"
  pt_next_offset :: u8

definition process_tls_new :: process_tls where
  "process_tls_new = \<lparr>pt_free = [], pt_next_offset = 0\<rparr>"

definition USERLAND_TLS_BASE :: u32 where "USERLAND_TLS_BASE = 0x1FF82000"
definition USERLAND_STACK_BASE :: u32 where "USERLAND_STACK_BASE = 0x10000000"
definition STACK_SIZE :: u32 where "STACK_SIZE = 0x00002000"

text \<open>The free list is a stack, its top at the end.  The shift \<open>next_offset << 3\<close> is one of bytes.\<close>

definition allocate_tls :: "'m memory_map \<Rightarrow> process_tls \<Rightarrow> 'm \<Rightarrow> (u32 \<times> process_tls \<times> 'm) res" where
  "allocate_tls mm tls mem =
     and_then
       (if pt_free tls = []
        then and_then (cadd USERLAND_TLS_BASE (push_bit 12 (ucast (pt_next_offset tls)))) (\<lambda>page.
             and_then (mm_map mm page 0x1000 ''tls'' None ReadWrite mem) (\<lambda>mem1.
             let free = map (\<lambda>offset. push_bit 3 (pt_next_offset tls) OR offset) [7, 6, 5, 4, 3, 2, 1, 0] in
             and_then (cadd (pt_next_offset tls) 1) (\<lambda>next.
             Ret (\<lparr>pt_free = free, pt_next_offset = next\<rparr>, mem1))))
        else Ret (tls, mem))
       (\<lambda>(tls1, mem1).
     and_then (expect ''Failed to allocate TLS'' (if pt_free tls1 = [] then None else Some (last (pt_free tls1))))
       (\<lambda>slot.
     and_then (cadd USERLAND_TLS_BASE (push_bit 9 (ucast slot))) (\<lambda>addr.
     Ret (addr, tls1\<lparr>pt_free := butlast (pt_free tls1)\<rparr>, mem1))))"

definition guest_new_thread ::
  "'m memory_map \<Rightarrow> u32 \<Rightarrow> u32 \<Rightarrow> u32 \<Rightarrow> process_tls \<Rightarrow> 'm \<Rightarrow> (thread_context \<times> process_tls \<times> 'm) res" where
  "guest_new_thread mm entrypoint stack_top arg tls mem =
     and_then (allocate_tls mm tls mem) (\<lambda>(addr, tls1, mem1).
     let t = set_sp stack_top thread_context_new;
         t = set_pc entrypoint (t\<lparr>th_tls := addr\<rparr>);
         t = set_arg arg t in
     Ret (set_cpsr (0b10000 OR (if entrypoint AND 1 \<noteq> 0 then 0b100000 else 0)) t, tls1, mem1))"

definition guest_init_thread ::
  "'m memory_map \<Rightarrow> process_tls \<Rightarrow> thread_initializer \<Rightarrow> 'm \<Rightarrow> (thread_context \<times> process_tls \<times> 'm) res" where
  "guest_init_thread mm tls init mem =
     guest_new_thread mm (ti_entrypoint init) (ti_stack_top init) (ti_arg init) tls mem"

section \<open>System calls\<close>

record ('m, 't, 'p) world =
  w_memory :: "'m memory_map"
  w_draws :: "nat \<Rightarrow> u32"
  w_now :: u64
  w_alive :: "oid \<Rightarrow> bool"
  w_init_thread :: "'p \<Rightarrow> thread_initializer \<Rightarrow> 'm \<Rightarrow> ('t \<times> 'p \<times> 'm) res"
  w_ticks :: "u64 \<Rightarrow> u64"

datatype svc_result = SvcContinue | SvcReschedule

type_synonym ('m, 't, 'p) svc_outcome = "(svc_result \<times> thread_regs \<times> 'm \<times> ('t, 'p) kernel) res"

definition get_svc :: "'m memory_map \<Rightarrow> thread_regs \<Rightarrow> 'm \<Rightarrow> u32 res" where
  "get_svc mm regs mem =
     and_then (csub (reg_r 15 regs) 4) (\<lambda>addr.
     and_then (mm_read mm addr 4 mem) (\<lambda>bytes. Ret (le_word bytes AND 0xFFFFFF)))"

definition join_words :: "u32 \<Rightarrow> u32 \<Rightarrow> u64" where
  "join_words low high = push_bit 32 (ucast high) OR ucast low"

definition guest_make_timeout :: "u32 \<Rightarrow> u32 \<Rightarrow> timeout" where
  "guest_make_timeout low high =
     (let ns = join_words low high in
      if ns AND 0x8000000000000000 = 0 then if ns = 0 then Instant else After ns else Forever)"

text \<open>The words a result leaves in registers 0 and 1.\<close>

definition result_word :: "'a kresult \<Rightarrow> u32" where
  "result_word res = (case res of Inl err \<Rightarrow> err | Inr _ \<Rightarrow> 0)"

definition result_handle :: "handle kresult \<Rightarrow> u32" where
  "result_handle res = (case res of Inl err \<Rightarrow> 0 | Inr h \<Rightarrow> h)"

text \<open>The handles a guest passes as an array of words in memory.\<close>

definition handles_of :: "u8 list \<Rightarrow> nat \<Rightarrow> handle option list" where
  "handles_of bytes n = map (\<lambda>i. handle_from_raw (le_word (take 4 (drop (4 * i) bytes)))) [0..<n]"

definition svc_control_memory :: "('m, 't, 'p) world \<Rightarrow> thread_regs \<Rightarrow> 'm \<Rightarrow> ('t, 'p) kernel \<Rightarrow> ('m, 't, 'p) svc_outcome" where
  "svc_control_memory w regs mem k =
     and_then (mm_map (w_memory w) (reg_r 1 regs) (reg_r 3 regs) ''ControlMemory'' None ReadWrite mem) (\<lambda>mem1.
     Ret (SvcContinue, reg_sr 0 0 regs, mem1, k))"

definition svc_query_memory :: "thread_regs \<Rightarrow> 'm \<Rightarrow> ('t, 'p) kernel \<Rightarrow> ('m, 't, 'p) svc_outcome" where
  "svc_query_memory regs mem k =
     (let addr = reg_r 2 regs;
          answer = (\<lambda>base sz permission state flags.
            reg_sr 5 flags (reg_sr 4 state (reg_sr 3 permission (reg_sr 2 sz (reg_sr 1 base (reg_sr 0 0 regs)))))) in
      if USERLAND_STACK_BASE - STACK_SIZE \<le> addr \<and> addr < USERLAND_STACK_BASE
      then Ret (SvcContinue, answer (USERLAND_STACK_BASE - STACK_SIZE) STACK_SIZE 3 3 0, mem, k)
      else if 0x08000000 < addr \<and> addr < USERLAND_STACK_BASE - STACK_SIZE
      then Ret (SvcContinue, answer 0x08000000 (0x08000000 - STACK_SIZE) 0 0 0, mem, k)
      else Panic Unimplemented)"

definition svc_create_thread :: "('m, 't, 'p) world \<Rightarrow> thread_regs \<Rightarrow> 'm \<Rightarrow> ('t, 'p) kernel \<Rightarrow> ('m, 't, 'p) svc_outcome" where
  "svc_create_thread w regs mem k =
     and_then (create_thread (w_draws w) (w_init_thread w)
         \<lparr>ti_entrypoint = reg_r 1 regs, ti_stack_top = reg_r 3 regs, ti_arg = reg_r 2 regs\<rparr> mem k)
       (\<lambda>((index, h), mem1, k1).
     Ret (SvcReschedule, reg_sr 1 h (reg_sr 0 0 regs), mem1, schedule_next index k1))"

definition svc_exit_thread :: "thread_regs \<Rightarrow> 'm \<Rightarrow> ('t, 'p) kernel \<Rightarrow> ('m, 't, 'p) svc_outcome" where
  "svc_exit_thread regs mem k = and_then (exit_thread k) (\<lambda>k1. Ret (SvcReschedule, regs, mem, k1))"

definition svc_sleep_thread :: "('m, 't, 'p) world \<Rightarrow> thread_regs \<Rightarrow> 'm \<Rightarrow> ('t, 'p) kernel \<Rightarrow> ('m, 't, 'p) svc_outcome" where
  "svc_sleep_thread w regs mem k =
     and_then (kernel_time (w_now w) k) (\<lambda>base.
     and_then (timeout_absolute (guest_make_timeout (reg_r 0 regs) (reg_r 1 regs)) base) (\<lambda>absolute.
     and_then (suspend_thread [] absolute WaitSleep k) (\<lambda>(_, k1).
     Ret (SvcReschedule, regs, mem, k1))))"

definition svc_create_mutex :: "('m, 't, 'p) world \<Rightarrow> thread_regs \<Rightarrow> 'm \<Rightarrow> ('t, 'p) kernel \<Rightarrow> ('m, 't, 'p) svc_outcome" where
  "svc_create_mutex w regs mem k =
     and_then (create_mutex (w_draws w) (reg_r 1 regs \<noteq> 0) k) (\<lambda>(res, k1).
     Ret (SvcContinue, reg_sr 1 (result_handle res) (reg_sr 0 (result_word res) regs), mem, k1))"

definition svc_release_mutex :: "thread_regs \<Rightarrow> 'm \<Rightarrow> ('t, 'p) kernel \<Rightarrow> ('m, 't, 'p) svc_outcome" where
  "svc_release_mutex regs mem k =
     and_then (release_mutex (handle_from_raw (reg_r 0 regs)) k) (\<lambda>(res, k1).
     Ret (SvcContinue, reg_sr 0 (result_word res) regs, mem, k1))"

definition svc_create_event :: "('m, 't, 'p) world \<Rightarrow> thread_regs \<Rightarrow> 'm \<Rightarrow> ('t, 'p) kernel \<Rightarrow> ('m, 't, 'p) svc_outcome" where
  "svc_create_event w regs mem k =
     and_then (reset_type_from_raw (reg_r 1 regs)) (\<lambda>event_type.
     and_then (create_event (w_draws w) event_type k) (\<lambda>(res, k1).
     Ret (SvcContinue, reg_sr 1 (result_handle res) (reg_sr 0 (result_word res) regs), mem, k1)))"

definition svc_signal_event :: "thread_regs \<Rightarrow> 'm \<Rightarrow> ('t, 'p) kernel \<Rightarrow> ('m, 't, 'p) svc_outcome" where
  "svc_signal_event regs mem k =
     and_then (lookup_object (handle_from_raw (reg_r 0 regs)) k) (\<lambda>object.
     case dyn_cast is_event k object of
       Some event \<Rightarrow>
         and_then (event_signal event k) (\<lambda>k1. Ret (SvcReschedule, reg_sr 0 0 regs, mem, k1))
     | None \<Rightarrow> Ret (SvcContinue, reg_sr 0 HANDLE_TYPE_MISMATCH regs, mem, k))"

definition svc_clear_event :: "('m, 't, 'p) world \<Rightarrow> thread_regs \<Rightarrow> 'm \<Rightarrow> ('t, 'p) kernel \<Rightarrow> ('m, 't, 'p) svc_outcome" where
  "svc_clear_event w regs mem k =
     and_then (mm_read (w_memory w) (reg_r 13 regs) 12 mem) (\<lambda>_.
     and_then (lookup_object (handle_from_raw (reg_r 0 regs)) k) (\<lambda>object.
     Ret (case dyn_cast is_event k object of
            Some event \<Rightarrow> (SvcContinue, reg_sr 0 0 regs, mem, event_clear event k)
          | None \<Rightarrow> (SvcContinue, reg_sr 0 HANDLE_TYPE_MISMATCH regs, mem, k))))"

definition svc_create_timer :: "('m, 't, 'p) world \<Rightarrow> thread_regs \<Rightarrow> 'm \<Rightarrow> ('t, 'p) kernel \<Rightarrow> ('m, 't, 'p) svc_outcome" where
  "svc_create_timer w regs mem k =
     and_then (reset_type_from_raw (reg_r 1 regs)) (\<lambda>event_type.
     and_then (create_timer (w_draws w) event_type k) (\<lambda>(res, k1).
     Ret (SvcContinue, reg_sr 1 (result_handle res) (reg_sr 0 0 regs), mem, k1)))"

definition svc_set_timer :: "thread_regs \<Rightarrow> 'm \<Rightarrow> ('t, 'p) kernel \<Rightarrow> ('m, 't, 'p) svc_outcome" where
  "svc_set_timer regs mem k =
     and_then (lookup_object (handle_from_raw (reg_r 0 regs)) k) (\<lambda>object.
     Ret (case dyn_cast is_timer k object of
            Some timer \<Rightarrow> (SvcContinue, reg_sr 0 0 regs, mem,
              timer_set timer (join_words (reg_r 2 regs) (reg_r 3 regs)) (join_words (reg_r 1 regs) (reg_r 4 regs)) k)
          | None \<Rightarrow> (SvcContinue, reg_sr 0 HANDLE_TYPE_MISMATCH regs, mem, k)))"

definition svc_cancel_timer :: "('m, 't, 'p) world \<Rightarrow> thread_regs \<Rightarrow> 'm \<Rightarrow> ('t, 'p) kernel \<Rightarrow> ('m, 't, 'p) svc_outcome" where
  "svc_cancel_timer w regs mem k =
     and_then (mm_read (w_memory w) (reg_r 13 regs) 12 mem) (\<lambda>_.
     and_then (lookup_object (handle_from_raw (reg_r 0 regs)) k) (\<lambda>object.
     Ret (case dyn_cast is_timer k object of
            Some timer \<Rightarrow> (SvcContinue, reg_sr 0 0 regs, mem, timer_cancel timer k)
          | None \<Rightarrow> (SvcContinue, reg_sr 0 HANDLE_TYPE_MISMATCH regs, mem, k))))"

definition svc_create_memory_block :: "thread_regs \<Rightarrow> 'm \<Rightarrow> ('t, 'p) kernel \<Rightarrow> ('m, 't, 'p) svc_outcome" where
  "svc_create_memory_block regs mem k = Ret (SvcContinue, reg_sr 1 0xA000 (reg_sr 0 0 regs), mem, k)"

definition svc_map_memory_block :: "('m, 't, 'p) world \<Rightarrow> thread_regs \<Rightarrow> 'm \<Rightarrow> ('t, 'p) kernel \<Rightarrow> ('m, 't, 'p) svc_outcome" where
  "svc_map_memory_block w regs mem k =
     and_then (mm_map (w_memory w) (reg_r 1 regs) 0x22000 ''MapMemoryBlock'' None ReadWrite mem) (\<lambda>mem1.
     Ret (SvcContinue, reg_sr 0 0 regs, mem1, k))"

definition svc_create_address_arbiter ::
  "('m, 't, 'p) world \<Rightarrow> thread_regs \<Rightarrow> 'm \<Rightarrow> ('t, 'p) kernel \<Rightarrow> ('m, 't, 'p) svc_outcome" where
  "svc_create_address_arbiter w regs mem k =
     and_then (create_address_arbiter (w_draws w) k) (\<lambda>(res, k1).
     Ret (SvcContinue, reg_sr 1 (result_handle res) (reg_sr 0 (result_word res) regs), mem, k1))"

definition finish_arbitration ::
  "oid \<Rightarrow> u32 \<Rightarrow> (arbitration_fail + unit) \<Rightarrow> thread_regs \<Rightarrow> 'm \<Rightarrow> ('t, 'p) kernel \<Rightarrow> ('m, 't, 'p) svc_outcome" where
  "finish_arbitration arb addr arb_result regs mem k =
     (case arb_result of
        Inr _ \<Rightarrow> Ret (SvcContinue, reg_sr 0 0 regs, mem, k)
      | Inl FailWait \<Rightarrow>
          and_then (suspend_thread [arb] None WaitArbiter k) (\<lambda>(waker, k1).
          Ret (SvcReschedule, reg_sr 0 0 regs, mem, arbiter_wait arb waker addr k1))
      | Inl FailWaitTimeout \<Rightarrow> Panic Unimplemented)"

definition svc_arbitrate_address ::
  "('m, 't, 'p) world \<Rightarrow> thread_regs \<Rightarrow> 'm \<Rightarrow> ('t, 'p) kernel \<Rightarrow> ('m, 't, 'p) svc_outcome" where
  "svc_arbitrate_address w regs mem k =
     (let addr = reg_r 1 regs; value = reg_r 3 regs in
      and_then (arbitration_from_raw (reg_r 2 regs)) (\<lambda>typ.
      and_then (lookup_object (handle_from_raw (reg_r 0 regs)) k) (\<lambda>object.
      case dyn_cast is_arbiter k object of
        None \<Rightarrow> Ret (SvcContinue, reg_sr 0 HANDLE_TYPE_MISMATCH regs, mem, k)
      | Some arb \<Rightarrow>
          and_then (mm_read (w_memory w) addr 4 mem) (\<lambda>data.
          let memory_value = le_word data :: 32 word in
          and_then (arbitrate typ (Ret memory_value) value) (\<lambda>(action, arb_result).
          and_then
            (case action of
               Some ActDecrement \<Rightarrow>
                 and_then (mm_write (w_memory w) addr (le32 (memory_value - 1)) mem) (\<lambda>mem1. Ret (mem1, k))
             | Some ActSignal \<Rightarrow> and_then (arbiter_signal arb value addr k) (\<lambda>(_, k1). Ret (mem, k1))
             | None \<Rightarrow> Ret (mem, k)) (\<lambda>(mem1, k1).
          finish_arbitration arb addr arb_result regs mem1 k1))))))"

definition svc_close_handle :: "thread_regs \<Rightarrow> 'm \<Rightarrow> ('t, 'p) kernel \<Rightarrow> ('m, 't, 'p) svc_outcome" where
  "svc_close_handle regs mem k =
     (case handle_from_raw (reg_r 0 regs) of
        None \<Rightarrow> Ret (SvcContinue, regs, mem, k)
      | Some h \<Rightarrow>
          and_then (current_process k) (\<lambda>p.
          let (ok, p') = process_close_handle h p in
          Ret (SvcContinue, if ok then reg_sr 0 0 regs else regs, mem,
               k\<lparr>k_processes := put_process (cp_pid p) p' (k_processes k)\<rparr>)))"

definition svc_wait_synchronization_1 ::
  "('m, 't, 'p) world \<Rightarrow> thread_regs \<Rightarrow> 'm \<Rightarrow> ('t, 'p) kernel \<Rightarrow> ('m, 't, 'p) svc_outcome" where
  "svc_wait_synchronization_1 w regs mem k =
     and_then (mm_read (w_memory w) (reg_r 13 regs) 32 mem) (\<lambda>_.
     and_then (lookup_object (handle_from_raw (reg_r 0 regs)) k) (\<lambda>object.
     let time = guest_make_timeout (reg_r 2 regs) (reg_r 3 regs) in
     case dyn_cast is_sync k object of
       Some sync \<Rightarrow>
         and_then (kernel_time (w_now w) k) (\<lambda>base.
         and_then (timeout_absolute time base) (\<lambda>absolute.
         and_then (suspend_thread [sync] absolute WaitSync1 k) (\<lambda>(waker, k1).
         and_then (sync_wait sync waker k1) (\<lambda>k2.
         Ret (SvcReschedule, reg_sr 0 0 regs, mem, k2)))))
     | None \<Rightarrow> Ret (SvcContinue, reg_sr 0 HANDLE_TYPE_MISMATCH regs, mem, k)))"

definition svc_wait_synchronization_n ::
  "('m, 't, 'p) world \<Rightarrow> thread_regs \<Rightarrow> 'm \<Rightarrow> ('t, 'p) kernel \<Rightarrow> ('m, 't, 'p) svc_outcome" where
  "svc_wait_synchronization_n w regs mem k =
     (let handle_count = unat (reg_r 2 regs);
          time = guest_make_timeout (reg_r 4 regs) (reg_r 0 regs) in
      and_then (mm_read (w_memory w) (reg_r 1 regs) (handle_count * 4) mem) (\<lambda>bytes.
      and_then (lookup_objects (handles_of bytes handle_count) k) (\<lambda>objects.
      and_then (kernel_time (w_now w) k) (\<lambda>base.
      and_then (timeout_absolute time base) (\<lambda>absolute.
      and_then (suspend_thread objects absolute WaitSyncN k) (\<lambda>(waker, k1).
      and_then (fold_res (wait_object waker) objects k1) (\<lambda>k2.
      and_then (mm_read (w_memory w) 0x1FF81060 8 mem) (\<lambda>_.
      Ret (SvcReschedule, reg_sr 1 (- 1) (reg_sr 0 0 regs), mem, k2)))))))))"

definition svc_duplicate_handle :: "thread_regs \<Rightarrow> 'm \<Rightarrow> ('t, 'p) kernel \<Rightarrow> ('m, 't, 'p) svc_outcome" where
  "svc_duplicate_handle regs mem k =
     (let handle = reg_r 1 regs in Ret (SvcContinue, reg_sr 1 handle (reg_sr 0 0 regs), mem, k))"

definition svc_get_system_tick ::
  "('m, 't, 'p) world \<Rightarrow> thread_regs \<Rightarrow> 'm \<Rightarrow> ('t, 'p) kernel \<Rightarrow> ('m, 't, 'p) svc_outcome" where
  "svc_get_system_tick w regs mem k =
     and_then (kernel_time (w_now w) k) (\<lambda>time.
     let ticks = w_ticks w time in
     and_then (mm_read (w_memory w) (reg_r 13 regs) 12 mem) (\<lambda>_.
     Ret (SvcContinue,
       reg_sr 1 (ucast (drop_bit 32 (ticks AND 0xFFFFFFFF00000000))) (reg_sr 0 (ucast (ticks AND 0xFFFFFFFF)) regs),
       mem, k)))"

definition svc_get_process_info :: "thread_regs \<Rightarrow> 'm \<Rightarrow> ('t, 'p) kernel \<Rightarrow> ('m, 't, 'p) svc_outcome" where
  "svc_get_process_info regs mem k =
     (if reg_r 1 regs = 0xFFFF8001 \<and> reg_r 2 regs = 20
      then Ret (SvcContinue, reg_sr 2 0 (reg_sr 1 0xA0000000 (reg_sr 0 0 regs)), mem, k)
      else Panic Unimplemented)"

text \<open>The bytes of the port name ''srv:'', the only one accepted.\<close>

definition srv_name :: "u8 list" where "srv_name = [0x73, 0x72, 0x76, 0x3A]"

definition svc_connect_to_port ::
  "('m, 't, 'p) world \<Rightarrow> thread_regs \<Rightarrow> 'm \<Rightarrow> ('t, 'p) kernel \<Rightarrow> ('m, 't, 'p) svc_outcome" where
  "svc_connect_to_port w regs mem k =
     and_then (mm_read (w_memory w) (reg_r 1 regs) 11 mem) (\<lambda>bytes.
     let name = takeWhile (\<lambda>b. b \<noteq> 0) bytes in
     and_then (guard (Expect ''Looking up invalid port'') (name = srv_name)) (\<lambda>_.
     and_then
       (case lookup_port name k of
          None \<Rightarrow> Ret (None, k)
        | Some obj \<Rightarrow> and_then (kernel_new_handle (w_draws w) obj k) (\<lambda>(h, k1). Ret (Some h, k1)))
       (\<lambda>(port, k1).
     and_then (create_session_to_port (w_alive w) (w_draws w) port k1) (\<lambda>(res, k2).
     let (result, word, handle) =
       (case res of
          Inr (reschedule, h) \<Rightarrow> (if reschedule \<noteq> None then SvcReschedule else SvcContinue, 0, Some h)
        | Inl err \<Rightarrow> (SvcContinue, err, None)) in
     Ret (result, reg_sr 1 (handle_raw handle) (reg_sr 0 word regs), mem, k2)))))"

text \<open>Copying the command of the guest into the slot of its kernel thread.\<close>

definition take_command ::
  "('m, 't, 'p) world \<Rightarrow> u32 \<Rightarrow> 'm \<Rightarrow> ('t, 'p) kernel \<Rightarrow> ('t, 'p) kernel res" where
  "take_command w tls mem k =
     and_then (cadd tls 0x80) (\<lambda>addr.
     and_then (mm_read (w_memory w) addr 256 mem) (\<lambda>command. set_thread_ipc_data command k))"

definition svc_send_sync_request ::
  "('m, 't, 'p) world \<Rightarrow> u32 \<Rightarrow> thread_regs \<Rightarrow> 'm \<Rightarrow> ('t, 'p) kernel \<Rightarrow> ('m, 't, 'p) svc_outcome" where
  "svc_send_sync_request w tls regs mem k =
     and_then (take_command w tls mem k) (\<lambda>k1.
     and_then (send_sync_request (w_alive w) (handle_from_raw (reg_r 0 regs)) k1) (\<lambda>(res, k2).
     Ret (case res of
            Inr (Some _) \<Rightarrow> (SvcReschedule, reg_sr 0 0 regs, mem, k2)
          | Inr None \<Rightarrow> (SvcContinue, reg_sr 0 0 regs, mem, k2)
          | Inl err \<Rightarrow> (SvcContinue, reg_sr 0 err regs, mem, k2))))"

definition svc_get_resource_limit :: "thread_regs \<Rightarrow> 'm \<Rightarrow> ('t, 'p) kernel \<Rightarrow> ('m, 't, 'p) svc_outcome" where
  "svc_get_resource_limit regs mem k = Ret (SvcContinue, reg_sr 1 0 (reg_sr 0 0 regs), mem, k)"

definition resource_limit_value :: "('m, 't, 'p) world \<Rightarrow> u32 \<Rightarrow> u32 \<Rightarrow> nat \<Rightarrow> 'm \<Rightarrow> 'm res" where
  "resource_limit_value w values names index mem =
     and_then (cmul (of_nat index) 4) (\<lambda>o4.
     and_then (cadd names o4) (\<lambda>name_addr.
     and_then (mm_read (w_memory w) name_addr 4 mem) (\<lambda>bytes.
     and_then (res_limit_from_raw (le_word bytes)) (\<lambda>_.
     and_then (cmul (of_nat index) 8) (\<lambda>o8.
     and_then (cadd values o8) (\<lambda>value_addr.
     mm_write (w_memory w) value_addr (le_bytes 8 (0 :: u64)) mem))))))"

definition svc_get_resource_limit_current_values ::
  "('m, 't, 'p) world \<Rightarrow> thread_regs \<Rightarrow> 'm \<Rightarrow> ('t, 'p) kernel \<Rightarrow> ('m, 't, 'p) svc_outcome" where
  "svc_get_resource_limit_current_values w regs mem k =
     and_then (fold_res (resource_limit_value w (reg_r 0 regs) (reg_r 2 regs)) [0..<unat (reg_r 3 regs)] mem) (\<lambda>mem1.
     Ret (SvcContinue, reg_sr 0 0 regs, mem1, k))"

definition svc_accept_session_call ::
  "('m, 't, 'p) world \<Rightarrow> thread_regs \<Rightarrow> 'm \<Rightarrow> ('t, 'p) kernel \<Rightarrow> ('m, 't, 'p) svc_outcome" where
  "svc_accept_session_call w regs mem k =
     and_then (svc_accept_session (w_alive w) (w_draws w) (handle_from_raw (reg_r 1 regs)) k) (\<lambda>(res, k1).
     case res of
       Inr (Inr h) \<Rightarrow> Ret (SvcContinue, reg_sr 1 h (reg_sr 0 0 regs), mem, k1)
     | Inr (Inl _) \<Rightarrow> Panic (Expect ''Unimplemented'')
     | Inl err \<Rightarrow> Ret (SvcContinue, reg_sr 0 err regs, mem, k1))"

definition svc_reply_and_receive ::
  "('m, 't, 'p) world \<Rightarrow> u32 \<Rightarrow> thread_regs \<Rightarrow> 'm \<Rightarrow> ('t, 'p) kernel \<Rightarrow> ('m, 't, 'p) svc_outcome" where
  "svc_reply_and_receive w tls regs mem k =
     (let handle_count = unat (reg_r 2 regs) in
      and_then (take_command w tls mem k) (\<lambda>k1.
      and_then (mm_read (w_memory w) (reg_r 1 regs) (handle_count * 4) mem) (\<lambda>bytes.
      and_then (reply_and_receive_pre (w_now w) (w_alive w) (w_draws w) (handles_of bytes handle_count)
          (handle_from_raw (reg_r 3 regs)) k1) (\<lambda>(res, k2).
      case res of
        Inr (Some _) \<Rightarrow> Ret (SvcReschedule, regs, mem, k2)
      | Inr None \<Rightarrow> Panic Unreachable
      | Inl err \<Rightarrow> Ret (SvcContinue, reg_sr 0 err regs, mem, k2)))))"

text \<open>The host thread that waits for the interrupt is not modelled: what it does to the kernel is
  \<open>activate_interrupt\<close>.\<close>

definition svc_bind_interrupt :: "thread_regs \<Rightarrow> 'm \<Rightarrow> ('t, 'p) kernel \<Rightarrow> ('m, 't, 'p) svc_outcome" where
  "svc_bind_interrupt regs mem k =
     and_then (lookup_object (handle_from_raw (reg_r 1 regs)) k) (\<lambda>object.
     Ret (case dyn_cast is_event k object of
            Some event \<Rightarrow> (SvcContinue, reg_sr 0 0 regs, mem, bind_interrupt (reg_r 0 regs) event k)
          | None \<Rightarrow> (SvcContinue, reg_sr 0 HANDLE_TYPE_MISMATCH regs, mem, k)))"

definition svc_unbind_interrupt :: "thread_regs \<Rightarrow> 'm \<Rightarrow> ('t, 'p) kernel \<Rightarrow> ('m, 't, 'p) svc_outcome" where
  "svc_unbind_interrupt regs mem k = Ret (SvcContinue, reg_sr 0 0 regs, mem, k)"

definition run_svc ::
  "('m, 't, 'p) world \<Rightarrow> u32 \<Rightarrow> u32 \<Rightarrow> thread_regs \<Rightarrow> 'm \<Rightarrow> ('t, 'p) kernel \<Rightarrow> ('m, 't, 'p) svc_outcome" where
  "run_svc w svc tls regs mem k =
     (if svc = 0x01 then svc_control_memory w regs mem k
      else if svc = 0x02 then svc_query_memory regs mem k
      else if svc = 0x08 then svc_create_thread w regs mem k
      else if svc = 0x09 then svc_exit_thread regs mem k
      else if svc = 0x0A then svc_sleep_thread w regs mem k
      else if svc = 0x13 then svc_create_mutex w regs mem k
      else if svc = 0x14 then svc_release_mutex regs mem k
      else if svc = 0x17 then svc_create_event w regs mem k
      else if svc = 0x18 then svc_signal_event regs mem k
      else if svc = 0x19 then svc_clear_event w regs mem k
      else if svc = 0x1A then svc_create_timer w regs mem k
      else if svc = 0x1B then svc_set_timer regs mem k
      else if svc = 0x1C then svc_cancel_timer w regs mem k
      else if svc = 0x1E then svc_create_memory_block regs mem k
      else if svc = 0x1F then svc_map_memory_block w regs mem k
      else if svc = 0x21 then svc_create_address_arbiter w regs mem k
      else if svc = 0x22 then svc_arbitrate_address w regs mem k
      else if svc = 0x23 then svc_close_handle regs mem k
      else if svc = 0x24 then svc_wait_synchronization_1 w regs mem k
      else if svc = 0x25 then svc_wait_synchronization_n w regs mem k
      else if svc = 0x27 then svc_duplicate_handle regs mem k
      else if svc = 0x28 then svc_get_system_tick w regs mem k
      else if svc = 0x2B then svc_get_process_info regs mem k
      else if svc = 0x2D then svc_connect_to_port w regs mem k
      else if svc = 0x32 then svc_send_sync_request w tls regs mem k
      else if svc = 0x38 then svc_get_resource_limit regs mem k
      else if svc = 0x3A then svc_get_resource_limit_current_values w regs mem k
      else if svc = 0x4A then svc_accept_session_call w regs mem k
      else if svc = 0x4F then svc_reply_and_receive w tls regs mem k
      else if svc = 0x50 then svc_bind_interrupt regs mem k
      else if svc = 0x51 then svc_unbind_interrupt regs mem k
      else if svc = 0x53 \<or> svc = 0x54 then Ret (SvcContinue, regs, mem, k)
      else Panic (Expect ''Unknown''))"

definition handle_svc ::
  "('m, 't, 'p) world \<Rightarrow> u32 \<Rightarrow> thread_regs \<Rightarrow> 'm \<Rightarrow> ('t, 'p) kernel \<Rightarrow> ('m, 't, 'p) svc_outcome" where
  "handle_svc w tls regs mem k =
     and_then (get_svc (w_memory w) regs mem) (\<lambda>svc. run_svc w svc tls regs mem k)"

section \<open>Resuming a thread\<close>

definition finish_receive ::
  "('m, 't, 'p) world \<Rightarrow> thread_resume \<Rightarrow> thread_regs \<Rightarrow> 'm \<Rightarrow> ('t, 'p) kernel \<Rightarrow>
     (thread_regs \<times> 'm \<times> ('t, 'p) kernel) res" where
  "finish_receive w resume regs mem k =
     (let index_out = reg_r 0 regs; handle_count = unat (reg_r 2 regs) in
      and_then (mm_read (w_memory w) (reg_r 1 regs) (handle_count * 4) mem) (\<lambda>bytes.
      and_then (reply_and_receive_post (w_draws w) (handles_of bytes handle_count) resume k) (\<lambda>((index, res), k1).
      and_then (mm_write (w_memory w) index_out (le32 (of_nat index)) mem) (\<lambda>mem1.
      Ret (reg_sr 0 (result_word res) regs, mem1, k1)))))"

definition handle_resume ::
  "('m, 't, 'p) world \<Rightarrow> thread_resume \<Rightarrow> thread_regs \<Rightarrow> 'm \<Rightarrow> ('t, 'p) kernel \<Rightarrow>
     (thread_regs \<times> 'm \<times> ('t, 'p) kernel) res" where
  "handle_resume w resume regs mem k =
     and_then (get_svc (w_memory w) regs mem) (\<lambda>svc.
     and_then (if svc = 0x4F then finish_receive w resume regs mem k else Ret (regs, mem, k)) (\<lambda>(regs1, mem1, k1).
     Ret (case resume of
            ResumeNormal \<Rightarrow> regs1
          | ResumeTimeoutReached \<Rightarrow> reg_sr 0 TIMEOUT_REACHED regs1
          | ResumeWaitSyncN index \<Rightarrow> reg_sr 1 (of_nat index) regs1, mem1, k1)))"

section \<open>The guest machine\<close>

text \<open>
  \<open>DynarmicGuest\<close>: the registers of its executor, whether a system call asked it to halt, the
  memory, and the two cells of \<open>ServiceContext\<close>; with the kernel it gets for a run.  One guest
  serves every thread of its process.
\<close>

record ('m, 't, 'p) machine =
  mc_regs :: thread_regs
  mc_halt :: bool
  mc_mem :: 'm
  mc_ran_svc :: bool
  mc_tls :: u32
  mc_kernel :: "('t, 'p) kernel"

type_synonym ('m, 't, 'p) executor =
  "(('m, 't, 'p) machine \<Rightarrow> ('m, 't, 'p) machine res) \<Rightarrow> ('m, 't, 'p) machine \<Rightarrow> ('m, 't, 'p) machine res"

definition dynarmic_handle_svc ::
  "('m, 't, 'p) world \<Rightarrow> ('m, 't, 'p) machine \<Rightarrow> ('m, 't, 'p) machine res" where
  "dynarmic_handle_svc w m =
     and_then (handle_svc w (mc_tls m) (mc_regs m) (mc_mem m) (mc_kernel m)) (\<lambda>(result, regs, mem, k).
     Ret (m\<lparr>mc_ran_svc := True, mc_halt := mc_halt m \<or> result = SvcReschedule,
            mc_regs := regs, mc_mem := mem, mc_kernel := k\<rparr>))"

definition guest_restore :: "thread_regs \<Rightarrow> u32 \<Rightarrow> ('m, 't, 'p) machine \<Rightarrow> ('m, 't, 'p) machine" where
  "guest_restore regs tls m = m\<lparr>mc_regs := regs, mc_tls := tls\<rparr>"

text \<open>The executor runs until a system call has been made; it may never be.\<close>

partial_function (option) run_executor ::
  "('m, 't, 'p) executor \<Rightarrow> ('m, 't, 'p) world \<Rightarrow> ('m, 't, 'p) machine \<Rightarrow> ('m, 't, 'p) machine res option" where
  "run_executor exec w m =
     (case exec (dynarmic_handle_svc w) m of
        Ret m1 \<Rightarrow> if mc_ran_svc m1 then Some (Ret m1) else run_executor exec w m1
      | Panic p \<Rightarrow> Some (Panic p)
      | Diverge \<Rightarrow> None)"

definition guest_run ::
  "('m, 't, 'p) executor \<Rightarrow> ('m, 't, 'p) world \<Rightarrow> thread_resume \<Rightarrow> ('m, 't, 'p) machine \<Rightarrow>
     ('m, 't, 'p) machine res" where
  "guest_run exec w resume m =
     (let m1 = m\<lparr>mc_ran_svc := False\<rparr> in
      and_then
        (if mc_ran_svc m
         then and_then (handle_resume w resume (mc_regs m1) (mc_mem m1) (mc_kernel m1)) (\<lambda>(regs, mem, k).
              Ret (guest_restore regs (mc_tls m1) (m1\<lparr>mc_mem := mem, mc_kernel := k\<rparr>)))
         else Ret m1) (\<lambda>m2.
      case run_executor exec w m2 of Some result \<Rightarrow> result | None \<Rightarrow> Diverge))"

text \<open>\<open>kernel::Thread::resume\<close> of a guest thread.\<close>

definition guest_thread_resume ::
  "('m, 't, 'p) executor \<Rightarrow> ('m, 't, 'p) world \<Rightarrow> thread_resume \<Rightarrow> thread_context \<Rightarrow> ('m, 't, 'p) machine \<Rightarrow>
     (thread_context \<times> ('m, 't, 'p) machine) res" where
  "guest_thread_resume exec w payload t m =
     and_then (get_thread_ipc_data (mc_kernel m)) (\<lambda>ipc_data.
     and_then (cadd (th_tls t) 0x80) (\<lambda>addr.
     and_then (mm_write (w_memory w) addr ipc_data (mc_mem m)) (\<lambda>mem.
     and_then (guest_run exec w payload (guest_restore (th_ctx t) (th_tls t) (m\<lparr>mc_mem := mem\<rparr>))) (\<lambda>m1.
     Ret (t\<lparr>th_ctx := mc_regs m1\<rparr>, m1)))))"

end
