(* ===== verification/Formats.thy ===== *)
theory Formats
  imports Prelude
begin

text \<open>
  \<open>formats/src/\<close>: the extended header and the header of a NCCH file, \<open>repr(C)\<close> structs that are laid
  over the bytes of the file.  A struct is the list of its fields with their types; size, alignment
  and offsets follow from it by the rules of C.  The loader reads
  fields of the extended header by their names.
\<close>

section \<open>The layout of a struct\<close>

text \<open>A type is an unsigned number of a width in bytes, an array or a struct.\<close>

datatype layout = Num nat | Rep nat layout | Struct fields
  and fields = NoField | Field string layout fields

definition round_up :: "nat \<Rightarrow> nat \<Rightarrow> nat" where
  "round_up n alignment = (n + alignment - 1) div alignment * alignment"

primrec align_of :: "layout \<Rightarrow> nat" and align_of_fields :: "fields \<Rightarrow> nat" where
  "align_of (Num n) = n"
| "align_of (Rep n l) = align_of l"
| "align_of (Struct fs) = align_of_fields fs"
| "align_of_fields NoField = 1"
| "align_of_fields (Field x l fs) = max (align_of l) (align_of_fields fs)"

text \<open>\<open>end_of_fields\<close> is where the fields end that start at or after an offset.\<close>

primrec size_of :: "layout \<Rightarrow> nat" and end_of_fields :: "fields \<Rightarrow> nat \<Rightarrow> nat" where
  "size_of (Num n) = n"
| "size_of (Rep n l) = n * size_of l"
| "size_of (Struct fs) = round_up (end_of_fields fs 0) (align_of_fields fs)"
| "end_of_fields NoField offset = offset"
| "end_of_fields (Field x l fs) offset = end_of_fields fs (round_up offset (align_of l) + size_of l)"

primrec find_field :: "string \<Rightarrow> fields \<Rightarrow> nat \<Rightarrow> (nat \<times> layout) option" where
  "find_field name NoField offset = None"
| "find_field name (Field x l fs) offset =
     (if x = name then Some (round_up offset (align_of l), l)
      else find_field name fs (round_up offset (align_of l) + size_of l))"

text \<open>Where the place \<open>a.b.c\<close> is.\<close>

primrec locate :: "string list \<Rightarrow> layout \<Rightarrow> (nat \<times> layout) option" where
  "locate [] l = Some (0, l)"
| "locate (x # path) l =
     (case l of
        Struct fs \<Rightarrow>
          Option.bind (find_field x fs 0) (\<lambda>(offset, l').
          map_option (\<lambda>(offset', l''). (offset + offset', l'')) (locate path l'))
      | _ \<Rightarrow> None)"

abbreviation "byte_type \<equiv> Num 1"

section \<open>The structs\<close>

definition code_set_info :: layout where
  "code_set_info = Struct
     (Field ''address'' (Num 4) (Field ''size_in_pages'' (Num 4) (Field ''size_in_bytes'' (Num 4) NoField)))"

definition system_info :: layout where
  "system_info = Struct
     (Field ''savedata_size'' (Num 8) (Field ''jump_id'' (Num 8) (Field ''_0'' (Rep 0x30 byte_type) NoField)))"

definition system_control_info :: layout where
  "system_control_info = Struct
     (Field ''title'' (Rep 8 byte_type)
     (Field ''_0'' (Rep 5 byte_type)
     (Field ''flag'' byte_type
     (Field ''remaster_version'' (Num 2)
     (Field ''text_csi'' code_set_info
     (Field ''stack_size'' (Num 4)
     (Field ''rodata_csi'' code_set_info
     (Field ''_1'' (Rep 4 byte_type)
     (Field ''data_csi'' code_set_info
     (Field ''bss_size'' (Num 4)
     (Field ''dependency_list'' (Rep 48 (Rep 8 byte_type))
     (Field ''system_info'' system_info NoField))))))))))))"

definition storage_info :: layout where
  "storage_info = Struct
     (Field ''extdata_id'' (Num 8)
     (Field ''system_savedata_id'' (Num 8)
     (Field ''storage_accessible_unique_id'' (Num 8)
     (Field ''flags'' (Num 8) NoField))))"

definition arm11_local_caps :: layout where
  "arm11_local_caps = Struct
     (Field ''program_id'' (Num 8)
     (Field ''core_version'' (Num 4)
     (Field ''flag1'' byte_type
     (Field ''flag2'' byte_type
     (Field ''flag0'' byte_type
     (Field ''priority'' byte_type
     (Field ''resource_limits'' (Rep 16 (Rep 2 byte_type))
     (Field ''storage_info'' storage_info
     (Field ''service_access_control'' (Rep 32 (Rep 8 byte_type))
     (Field ''extended_service_access_control'' (Rep 2 (Rep 8 byte_type))
     (Field ''_0'' (Rep 0xF byte_type)
     (Field ''resource_limit_category'' byte_type NoField))))))))))))"

definition arm11_kernel_caps :: layout where
  "arm11_kernel_caps = Struct
     (Field ''descriptors'' (Rep 28 (Num 4)) (Field ''_0'' (Rep 0x10 byte_type) NoField))"

definition arm9_access_control :: layout where
  "arm9_access_control = Struct
     (Field ''descriptors'' (Rep 15 byte_type) (Field ''descriptor_version'' byte_type NoField))"

definition access_control_info :: layout where
  "access_control_info = Struct
     (Field ''arm11_local_caps'' arm11_local_caps
     (Field ''arm11_kernel_caps'' arm11_kernel_caps
     (Field ''arm9_access_control'' arm9_access_control NoField)))"

definition ex_header :: layout where
  "ex_header = Struct
     (Field ''sci'' system_control_info
     (Field ''aci'' access_control_info
     (Field ''access_desc_sig'' (Rep 0x100 byte_type)
     (Field ''ncch_hdr_public_key'' (Rep 0x100 byte_type)
     (Field ''acli'' access_control_info NoField)))))"

definition ncch_header :: layout where
  "ncch_header = Struct
     (Field ''sig'' (Rep 0x100 byte_type)
     (Field ''magic'' (Rep 4 byte_type)
     (Field ''content_size'' (Num 4)
     (Field ''partition_id'' (Num 8)
     (Field ''maker_code'' (Num 2)
     (Field ''version'' (Num 2)
     (Field ''verification_word'' (Num 4)
     (Field ''program_id'' (Num 8)
     (Field ''_0'' (Rep 0x10 byte_type)
     (Field ''logo_region_hash'' (Rep 0x20 byte_type)
     (Field ''product_code'' (Rep 0x10 byte_type)
     (Field ''exheader_hash'' (Rep 0x20 byte_type)
     (Field ''exheader_size'' (Num 4)
     (Field ''_1'' (Rep 4 byte_type)
     (Field ''flags'' (Rep 8 byte_type)
     (Field ''plain_region_offset'' (Num 4)
     (Field ''plain_region_size'' (Num 4)
     (Field ''logo_region_offset'' (Num 4)
     (Field ''logo_region_size'' (Num 4)
     (Field ''exefs_offset'' (Num 4)
     (Field ''exefs_size'' (Num 4)
     (Field ''exefs_hash_region_size'' (Num 4)
     (Field ''_2'' (Rep 4 byte_type)
     (Field ''romfs_offset'' (Num 4)
     (Field ''romfs_size'' (Num 4)
     (Field ''romfs_hash_region_size'' (Num 4)
     (Field ''_3'' (Rep 4 byte_type)
     (Field ''exefs_superblock_hash'' (Rep 0x20 byte_type)
     (Field ''romfs_superblock_hash'' (Rep 0x20 byte_type) NoField)))))))))))))))))))))))))))))"

section \<open>Reading a header\<close>

text \<open>A struct in memory is its bytes; \<open>copy_from_bytes\<close> overwrites all of them.\<close>

definition ex_header_zero :: "u8 list" where
  "ex_header_zero = replicate (size_of ex_header) 0"

definition ex_header_copy_from_bytes :: "u8 list \<Rightarrow> u8 list \<Rightarrow> u8 list res" where
  "ex_header_copy_from_bytes self b =
     and_then (guard (Expect ''ExHeader truncated'') (length self \<le> length b)) (\<lambda>_. Ret (take (length self) b))"

text \<open>The number in the place \<open>a.b.c\<close> of a struct.\<close>

definition read_field :: "string list \<Rightarrow> layout \<Rightarrow> u8 list \<Rightarrow> 'a::len word" where
  "read_field path l bytes =
     (case locate path l of Some (offset, l') \<Rightarrow> le_word (take (size_of l') (drop offset bytes)) | None \<Rightarrow> 0)"

text \<open>The fields of the extended header that the loader uses, read by their names.\<close>

record csi =
  csi_address :: u32
  csi_size_in_pages :: u32

record exheader =
  eh_text :: csi
  eh_stack_size :: u32
  eh_rodata :: csi
  eh_data :: csi
  eh_bss_size :: u32
  eh_program_id :: u64

definition csi_from :: "string list \<Rightarrow> u8 list \<Rightarrow> csi" where
  "csi_from path eh =
     \<lparr>csi_address = read_field (path @ [''address'']) ex_header eh,
      csi_size_in_pages = read_field (path @ [''size_in_pages'']) ex_header eh\<rparr>"

definition exheader_from_bytes :: "u8 list \<Rightarrow> exheader res" where
  "exheader_from_bytes bytes =
     and_then (ex_header_copy_from_bytes ex_header_zero bytes) (\<lambda>eh.
     Ret \<lparr>eh_text = csi_from [''sci'', ''text_csi''] eh,
       eh_stack_size = read_field [''sci'', ''stack_size''] ex_header eh,
       eh_rodata = csi_from [''sci'', ''rodata_csi''] eh,
       eh_data = csi_from [''sci'', ''data_csi''] eh,
       eh_bss_size = read_field [''sci'', ''bss_size''] ex_header eh,
       eh_program_id = read_field [''aci'', ''arm11_local_caps'', ''program_id''] ex_header eh\<rparr>)"

section \<open>Layout\<close>

lemmas struct_defs = ex_header_def system_control_info_def access_control_info_def arm11_local_caps_def
  arm11_kernel_caps_def arm9_access_control_def storage_info_def system_info_def code_set_info_def ncch_header_def

text \<open>No padding: every field starts where the one before it ends, and the struct ends with the last.\<close>

primrec packed :: "layout \<Rightarrow> bool" and packed_fields :: "fields \<Rightarrow> nat \<Rightarrow> bool" where
  "packed (Num n) \<longleftrightarrow> 0 < n"
| "packed (Rep n l) \<longleftrightarrow> packed l"
| "packed (Struct fs) \<longleftrightarrow> packed_fields fs 0 \<and> size_of (Struct fs) = end_of_fields fs 0"
| "packed_fields NoField offset \<longleftrightarrow> True"
| "packed_fields (Field x l fs) offset \<longleftrightarrow>
     packed l \<and> round_up offset (align_of l) = offset \<and> packed_fields fs (offset + size_of l)"

lemma layout_sizes: "size_of ex_header = 0x800" "size_of ncch_header = 0x200"
  by (simp_all add: struct_defs round_up_def)

lemma layouts_packed: "packed ex_header" "packed ncch_header"
  by (simp_all add: struct_defs round_up_def)

lemma end_of_fields_ge: "packed_fields fs offset \<Longrightarrow> offset \<le> end_of_fields fs offset"
proof (induction fs arbitrary: offset rule: fields.induct [of "\<lambda>_. True"])
  case (Field x l fs)
  then have "offset + size_of l \<le> end_of_fields fs (offset + size_of l)" by simp
  then show ?case using Field.prems by simp
qed simp_all

lemma find_field_within:
  "\<lbrakk>packed_fields fs offset; find_field x fs offset = Some (at, l)\<rbrakk> \<Longrightarrow>
     packed l \<and> offset \<le> at \<and> at + size_of l \<le> end_of_fields fs offset"
proof (induction fs arbitrary: offset rule: fields.induct [of "\<lambda>_. True"])
  case (Field y m fs)
  show ?case
    using Field.prems Field.IH [of "offset + size_of m"] end_of_fields_ge [of fs "offset + size_of m"]
    by (auto split: if_split_asm)
qed simp_all

lemma locate_within:
  "\<lbrakk>packed l; locate path l = Some (at, l')\<rbrakk> \<Longrightarrow> at + size_of l' \<le> size_of l"
proof (induction path arbitrary: l at)
  case (Cons x path)
  obtain fs a m b where f: "l = Struct fs" "find_field x fs 0 = Some (a, m)" "locate path m = Some (b, l')" "at = a + b"
    using Cons.prems(2) by (cases l) (auto simp: bind_eq_Some_conv)
  have w: "packed m" "a + size_of m \<le> end_of_fields fs 0"
    using find_field_within [OF _ f(2)] Cons.prems(1) f(1) by simp_all
  have "b + size_of l' \<le> size_of m" by (rule Cons.IH [OF w(1) f(3)])
  then show ?case using w(2) Cons.prems(1) f by simp
qed simp

lemma read_copied:
  assumes "locate path l = Some (at, l')" "packed l" "size_of l \<le> n"
  shows "read_field path l (take n bytes) = read_field path l bytes"
proof -
  have "at + size_of l' \<le> n" using locate_within [OF assms(2,1)] assms(3) by simp
  then have "take (size_of l') (drop at (take n bytes)) = take (size_of l') (drop at bytes)"
    by (simp add: drop_take min_def)
  then show ?thesis using assms(1) by (simp add: read_field_def)
qed

text \<open>Every field the loader names is a number of the struct; so the fields can be read in the file itself.\<close>

lemma exheader_places:
  "locate [''sci'', ''text_csi'', ''address''] ex_header = Some (16, Num 4)"
  "locate [''sci'', ''text_csi'', ''size_in_pages''] ex_header = Some (20, Num 4)"
  "locate [''sci'', ''stack_size''] ex_header = Some (28, Num 4)"
  "locate [''sci'', ''rodata_csi'', ''address''] ex_header = Some (32, Num 4)"
  "locate [''sci'', ''rodata_csi'', ''size_in_pages''] ex_header = Some (36, Num 4)"
  "locate [''sci'', ''data_csi'', ''address''] ex_header = Some (48, Num 4)"
  "locate [''sci'', ''data_csi'', ''size_in_pages''] ex_header = Some (52, Num 4)"
  "locate [''sci'', ''bss_size''] ex_header = Some (60, Num 4)"
  "locate [''aci'', ''arm11_local_caps'', ''program_id''] ex_header = Some (512, Num 8)"
  by (simp_all add: struct_defs round_up_def)

lemma exheader_from_file:
  "exheader_from_bytes bytes =
     (if length bytes < 0x800 then Panic (Expect ''ExHeader truncated'')
      else Ret \<lparr>eh_text = csi_from [''sci'', ''text_csi''] bytes,
         eh_stack_size = read_field [''sci'', ''stack_size''] ex_header bytes,
         eh_rodata = csi_from [''sci'', ''rodata_csi''] bytes,
         eh_data = csi_from [''sci'', ''data_csi''] bytes,
         eh_bss_size = read_field [''sci'', ''bss_size''] ex_header bytes,
         eh_program_id = read_field [''aci'', ''arm11_local_caps'', ''program_id''] ex_header bytes\<rparr>)"
  using layouts_packed(1)
  by (simp add: exheader_from_bytes_def ex_header_copy_from_bytes_def ex_header_zero_def layout_sizes guard_def
      csi_from_def exheader_places [THEN read_copied] not_less)

end
