(* ===== verification/Cli.thy ===== *)
theory Cli
  imports Kmm Services Guest Formats
begin

text \<open>
  \<open>cli/src/main.rs\<close>: the small services that answer from constants, the loading of a program into
  the memory of a guest, and the start of the system.  The two files the code includes are
  parameters of the loader.
\<close>

section \<open>The services\<close>

definition handled_answer :: "('t, 'p) kernel \<Rightarrow> u8 list res \<Rightarrow> ((unit, 'w) handled \<times> ('t, 'p) kernel) res" where
  "handled_answer k answer = answered () k answer"

primrec read_request_normals :: "nat \<Rightarrow> ipc_request \<Rightarrow> (u32 list \<times> ipc_request) res" where
  "read_request_normals 0 q = Ret ([], q)"
| "read_request_normals (Suc n) q =
     and_then (request_read_normal q) (\<lambda>(x, q).
     and_then (read_request_normals n q) (\<lambda>(xs, q). Ret (x # xs, q)))"

text \<open>Reading \<open>n\<close> parameters, then answering.\<close>

definition read_then :: "nat \<Rightarrow> u8 list \<Rightarrow> (u32 list \<Rightarrow> 'a res) \<Rightarrow> 'a res" where
  "read_then n data f =
     and_then (context_request data) (\<lambda>q. and_then (read_request_normals n q) (\<lambda>(xs, _). f xs))"

definition unwrap :: "'a kresult \<Rightarrow> 'a res" where
  "unwrap res = (case res of Inl _ \<Rightarrow> Panic Unwrap | Inr x \<Rightarrow> Ret x)"

definition apt_get_lock_handle :: "(unit, 'w, 't, 'p) ipc_handler" where
  "apt_get_lock_handle os self data k =
     read_then 1 data (\<lambda>xs.
     and_then (create_mutex (os_draws os) False k) (\<lambda>(res, k1).
     and_then (unwrap res) (\<lambda>lock.
     handled_answer k1 (respond 0 [hd xs, 0] [moved_handle lock] data))))"

definition apt_initialize :: "(unit, 'w, 't, 'p) ipc_handler" where
  "apt_initialize os self data k =
     read_then 1 data (\<lambda>_.
     and_then (create_event (os_draws os) OneShot k) (\<lambda>(res1, k1).
     and_then (unwrap res1) (\<lambda>notification_event.
     and_then (create_event (os_draws os) Sticky k1) (\<lambda>(res2, k2).
     and_then (unwrap res2) (\<lambda>resume_event.
     and_then (signal_event (Some resume_event) k2) (\<lambda>(res3, k3).
     and_then (unwrap res3) (\<lambda>_.
     handled_answer k3
       (respond 0 [] [TpHandle True False (HMultiple [Some notification_event, Some resume_event])] data))))))))"

definition apt_handle_ipc :: "(unit, 'w, 't, 'p) ipc_handler" where
  "apt_handle_ipc os self data k =
     and_then (context_header data) (\<lambda>header.
     if is_command 1 1 0 header then apt_get_lock_handle os self data k
     else if is_command 2 2 0 header then apt_initialize os self data k
     else if is_command 3 1 0 header then read_then 1 data (\<lambda>_. handled_answer k (respond 0 [] [] data))
     else if is_command 13 2 0 header \<or> is_command 14 2 0 header then
       read_then 2 data (\<lambda>_. handled_answer k (respond 0 [0, 1, 0] [] data))
     else if is_command 67 1 0 header then read_then 1 data (\<lambda>_. handled_answer k (respond 0 [] [] data))
     else if is_command 75 3 0 header then read_then 1 data (\<lambda>_. handled_answer k (respond 0 [0] [] data))
     else Panic Unimplemented)"

definition ndm_handle_ipc :: "(unit, 'w, 't, 'p) ipc_handler" where
  "ndm_handle_ipc os self data k =
     and_then (context_header data) (\<lambda>_. handled_answer k (respond 0 [] [] data))"

definition dsp_handle_ipc :: "(unit, 'w, 't, 'p) ipc_handler" where
  "dsp_handle_ipc os self data k =
     and_then (context_header data) (\<lambda>_. handled_answer k (respond 0 [] [] data))"

definition cfg_handle_ipc :: "(unit, 'w, 't, 'p) ipc_handler" where
  "cfg_handle_ipc os self data k =
     and_then (context_header data) (\<lambda>header.
     if is_command 1 2 0 header then read_then 2 data (\<lambda>_. handled_answer k (respond 0 [] [] data))
     else Panic (Expect ''cfg:u: (Stubbed)''))"

definition fs_handle_ipc :: "(unit, 'w, 't, 'p) ipc_handler" where
  "fs_handle_ipc os self data k =
     and_then (context_header data) (\<lambda>header.
     if is_command 2145 1 2 header then read_then 1 data (\<lambda>_. handled_answer k (respond 0 [] [] data))
     else if is_command 2146 1 0 header then read_then 1 data (\<lambda>_. handled_answer k (respond 0 [] [] data))
     else if is_command 2051 8 0 header then read_then 8 data (\<lambda>_. handled_answer k (respond 0 [] [] data))
     else Panic (Expect ''fs:USER: (Stubbed)''))"

datatype service_kind = AptU | NdmU | DSP | CfgU | FsUser

primrec service_handle_ipc :: "service_kind \<Rightarrow> (unit, 'w, 't, 'p) ipc_handler" where
  "service_handle_ipc AptU = apt_handle_ipc"
| "service_handle_ipc NdmU = ndm_handle_ipc"
| "service_handle_ipc DSP = dsp_handle_ipc"
| "service_handle_ipc CfgU = cfg_handle_ipc"
| "service_handle_ipc FsUser = fs_handle_ipc"

primrec service_name :: "service_kind \<Rightarrow> string" where
  "service_name AptU = ''APT:U''"
| "service_name NdmU = ''ndm:u''"
| "service_name DSP = ''dsp::DSP''"
| "service_name CfgU = ''cfg:u''"
| "service_name FsUser = ''fs:USER''"

section \<open>Loading a program\<close>

definition csi_bytes :: "csi \<Rightarrow> nat" where
  "csi_bytes c = unat (push_bit 12 (csi_size_in_pages c))"

definition loader_codeset :: "exheader \<Rightarrow> u8 list \<Rightarrow> codeset_info res" where
  "loader_codeset eh code =
     (let text_size = csi_bytes (eh_text eh); rodata_size = csi_bytes (eh_rodata eh); data_size = csi_bytes (eh_data eh) in
      and_then (slice_get code 0 text_size) (\<lambda>text.
      and_then (slice_get code text_size rodata_size) (\<lambda>rodata.
      and_then (slice_get code (text_size + rodata_size) data_size) (\<lambda>data.
      Ret \<lparr>ci_name = ''aobt'',
        ci_text = \<lparr>sec_start = csi_address (eh_text eh), sec_data = text\<rparr>,
        ci_rodata = \<lparr>sec_start = csi_address (eh_rodata eh), sec_data = rodata\<rparr>,
        ci_data = \<lparr>sec_start = csi_address (eh_data eh), sec_data = data\<rparr>,
        ci_bss = eh_bss_size eh, ci_program_id = eh_program_id eh\<rparr>))))"

text \<open>Rounding a length up to whole pages; lengths are \<open>usize\<close>.\<close>

definition page_round :: "nat \<Rightarrow> u32" where
  "page_round n = of_nat ((n + 0xFFF) div 0x1000 * 0x1000)"

definition cfg_mem :: "u8 list" where
  "cfg_mem =
     (let m = (replicate 0x1000 0)[0x2 := 0x34, 0x3 := 0x2];
          m = overwrite 0x8 (le_bytes 8 (0x0004013000008002 :: u64)) m;
          m = m[0x10 := 0x2, 0x14 := 0x1, 0x16 := 0x1];
          m = overwrite 0x18 (le32 0x0000F297) m;
          m = m[0x62 := 0x34, 0x63 := 0x2, 0x64 := 0x2];
          m = overwrite 0x68 (le32 0x0000F297) m in
      overwrite 0x40 (le32 (64 * 1024 * 1024)) m)"

definition shared_page :: "u8 list" where
  "shared_page = (replicate 0x1000 0)[0x4 := 0x1]"

definition loader_maps :: "'m memory_map \<Rightarrow> exheader \<Rightarrow> codeset_info \<Rightarrow> 'm \<Rightarrow> 'm res" where
  "loader_maps mm eh info mem =
     (let section_map = (\<lambda>section name prot mem.
            mm_map mm (sec_start section) (page_round (length (sec_data section))) name (Some (sec_data section)) prot mem) in
      and_then (section_map (ci_text info) ''.text'' ReadExecute mem) (\<lambda>mem.
      and_then (section_map (ci_rodata info) ''.rodata'' ReadOnly mem) (\<lambda>mem.
      and_then (section_map (ci_data info) ''.data'' ReadWrite mem) (\<lambda>mem.
      and_then (cadd (sec_start (ci_data info)) (page_round (length (sec_data (ci_data info))))) (\<lambda>bss.
      and_then (cadd (ci_bss info) 0xFFF) (\<lambda>bss_size.
      and_then (mm_map mm bss (bss_size AND NOT 0xFFF) ''.bss'' None ReadWrite mem) (\<lambda>mem.
      and_then (csub USERLAND_STACK_BASE (eh_stack_size eh)) (\<lambda>stack.
      and_then (mm_map mm stack (eh_stack_size eh) ''stack'' None ReadWrite mem) (\<lambda>mem.
      and_then (mm_map mm 0x1FF80000 0x1000 ''cfg_mem'' (Some cfg_mem) ReadOnly mem) (\<lambda>mem.
      mm_map mm 0x1FF81000 0x1000 ''shared_page'' (Some shared_page) ReadWrite mem))))))))))"

section \<open>Starting the system\<close>

text \<open>What the closures of the first threads hold, and the two kinds of process.\<close>

datatype closure = SrvClosure oid | ServiceClosure service_kind | LoaderClosure

datatype process = ProcessHLE | GuestProcess process_tls

text \<open>The body of the loader: the memory of the guest, its process and its first thread.\<close>

definition loader_run ::
  "'m memory_map \<Rightarrow> (thread_context \<Rightarrow> 't) \<Rightarrow> u8 list \<Rightarrow> u8 list \<Rightarrow> 'm \<Rightarrow> ('t, process) kernel \<Rightarrow>
     ('m \<times> ('t, process) kernel) res" where
  "loader_run mm guest_thread exheader_bytes code mem k =
     and_then (exheader_from_bytes exheader_bytes) (\<lambda>eh.
     and_then (loader_codeset eh code) (\<lambda>info.
     and_then (loader_maps mm eh info mem) (\<lambda>mem1.
     and_then (guest_new_thread mm (sec_start (ci_text info)) (USERLAND_STACK_BASE - 4) 0 process_tls_new mem1)
       (\<lambda>(t, tls, mem2).
     and_then (new_process ''aobt'' (GuestProcess tls) k) (\<lambda>(pid, k1).
     and_then (new_thread pid (guest_thread t) k1) (\<lambda>(_, k2). Ret (mem2, k2)))))))"

definition init_memory ::
  "(nat \<Rightarrow> u8) \<Rightarrow> (kmm \<times> (nat \<Rightarrow> u8)) res" where
  "init_memory st =
     and_then (init_region (vm_ops slice_ops) fcram_vm App 0x20000000 (drop_bit 12 0x04000000) kmm_new st) (\<lambda>(kmm1, st1).
     and_then (init_region (vm_ops slice_ops) fcram_vm System 0x24000000 (drop_bit 12 0x02C00000) kmm1 st1) (\<lambda>(kmm2, st2).
     init_region (vm_ops slice_ops) fcram_vm Base 0x26C00000 (drop_bit 12 0x01400000) kmm2 st2))"

definition start_service ::
  "service_kind \<Rightarrow> ((closure, 's) thread_hle, process) kernel \<Rightarrow> ((closure, 's) thread_hle, process) kernel res" where
  "start_service s k =
     and_then (service_start (service_name s) ProcessHLE (thread_hle_new (ServiceClosure s)) k) (\<lambda>(_, k1). Ret k1)"

definition boot :: "u64 \<Rightarrow> ((closure, 's) thread_hle, process) kernel res" where
  "boot now =
     and_then (srv_start ProcessHLE (\<lambda>server. thread_hle_new (SrvClosure server)) (kernel_new now)) (\<lambda>((_, srv_port), k).
     and_then (register_port srv_name srv_port k) (\<lambda>k.
     and_then (fold_res start_service [AptU, NdmU, DSP, CfgU, FsUser] k) (\<lambda>k.
     and_then (new_process ''hle_loader'' ProcessHLE k) (\<lambda>(pid, k).
     and_then (new_thread pid (thread_hle_new LoaderClosure) k) (\<lambda>(_, k). Ret k)))))"

text \<open>One turn of the main loop.\<close>

definition main_turn ::
  "('t \<Rightarrow> thread_resume \<Rightarrow> ('t, 'p) kernel \<Rightarrow> ('t \<times> ('t, 'p) kernel) res) \<Rightarrow> (oid \<Rightarrow> bool) \<Rightarrow> u64 \<Rightarrow>
     ('t, 'p) kernel \<Rightarrow> ('t, 'p) kernel res" where
  "main_turn run alive now k = and_then (run_next run k) (tick alive now)"

end
