(* ===== verification/ServiceFacts.thy ===== *)
theory ServiceFacts
  imports Cli Translation
begin

text \<open>
  What the services do: which service the registry finds, that registry and clients understand
  each other, what a service answers; and how the system starts services and cuts a program into
  its sections.
\<close>

section \<open>Requests and answers\<close>

lemma respond_writes:
  assumes "context_header data = Ret h"
  shows "respond result ns ps data = write_command True (hd_command h) result ns ps data"
proof -
  have "response_write_normal = writer_write_normal" "response_write_translate = writer_write_translate"
    "response_finish = writer_finish"
    by (simp_all add: fun_eq_iff response_write_normal_def response_write_translate_def response_finish_def)
  then show ?thesis
    using assms
    by (simp add: respond_def context_response_def response_new_def write_command_def write_response_def
        write_params_def [abs_def])
qed

lemma request_of_command:
  assumes "length ns < 64" "length (concat (map param_words ps)) < 64"
  shows "\<exists>q. context_request (words_bytes (command_words command [] ns ps) @ tail) = Ret q \<and>
    rq_header q = command_header command ns ps \<and>
    holds_words q (ns @ concat (map param_words ps)) tail \<and> unat (pc_normal q) = length ns"
proof -
  let ?buf = "words_bytes (command_words command [] ns ps) @ tail"
  obtain r where r: "reader_of False ?buf = Ret r" "holds_words r (ns @ concat (map param_words ps)) tail"
      "rd_header r = command_header command ns ps" "pc_normal r = hd_normal (rd_header r)"
    using reader_of_command [OF assms, of False command 0 tail] by (auto simp: front_words_def)
  obtain w where w: "cursor_read ?buf 0 = Ret w" "header_from (fst w) = command_header command ns ps"
      "pc_data r = ?buf" "pc_pos r = snd w"
    using r(1,3) by (auto simp: reader_of_def reader_new_request_def Let_def)
  have "context_request ?buf = Ret \<lparr>pc_data = ?buf, pc_pos = snd w, pc_normal = hd_normal (command_header command ns ps),
      pc_translate = hd_translate (command_header command ns ps), rq_header = command_header command ns ps\<rparr>"
    using w(1,2) by (cases w) (simp add: context_request_def request_new_def Let_def)
  moreover have "unat (hd_normal (command_header command ns ps)) = length ns"
    by (rule command_header_counts [OF assms])
  ultimately show ?thesis using r(2) w(3,4) by (auto simp: holds_words_def)
qed

lemma request_reads_word:
  "\<lbrakk>holds_words q (x # ws) tail; unat (pc_normal q) = Suc n\<rbrakk> \<Longrightarrow>
     \<exists>q'. request_read_normal q = Ret (x, q') \<and> holds_words q' ws tail \<and> unat (pc_normal q') = n"
  using read_normal_word [of q x ws tail n] by (auto simp: request_read_normal_def)

lemma context_header_command:
  assumes "length ns < 64" "length (concat (map param_words ps)) < 64"
  shows "context_header (words_bytes (command_words command [] ns ps) @ tail) = Ret (command_header command ns ps)"
  using request_of_command [OF assms, of command tail] by (auto simp: context_header_def context_request_def)

text \<open>An answer with one moved handle, as the clients read it.\<close>

lemma answer_read:
  assumes "context_header data = Ret h" "16 \<le> length data" "x \<noteq> 0"
  shows "\<exists>data'. respond 0 [] [moved_handle x] data = Ret data' \<and> srv_read_handle data' = Ret (Inr x)"
proof -
  let ?ps = "[moved_handle x]"
  have wire: "list_all wire_param ?ps" using assms(3) by (simp add: moved_handle_def)
  have small: "length ([] :: u32 list) < 64" "length (concat (map param_words ?ps)) < 64"
    by (simp_all add: moved_handle_def)
  have room: "4 * (2 + length ([] :: u32 list) + length (concat (map param_words ?ps))) \<le> length data"
    using assms(2) by (simp add: moved_handle_def)
  let ?data = "words_bytes (command_words (hd_command h) (front_words True 0) [] ?ps) @
    drop (4 * length (command_words (hd_command h) (front_words True 0) [] ?ps)) data"
  have "respond 0 [] ?ps data = Ret ?data"
    unfolding respond_writes [OF assms(1)] by (rule write_command_layout [OF small wire room])
  moreover obtain r where r: "reader_of True ?data = Ret r"
      "holds_words r ([] @ concat (map param_words ?ps)) (drop (4 * length (command_words (hd_command h) (front_words True 0) [] ?ps)) data)"
      "rd_header r = command_header (hd_command h) [] ?ps" "rd_result r = sent_result True 0"
      "pc_normal r = hd_normal (rd_header r)" "pc_translate r = hd_translate (rd_header r)"
    using reader_of_command [OF small] by blast
  have "pc_normal r = 0" "unat (pc_translate r) = length (param_words (moved_handle x)) + 0"
    using r(3,5,6) command_header_counts [OF small, of "hd_command h"] by (simp_all add: unat_eq_0)
  then obtain r' where "reader_read_translate r = Ret (moved_handle x, r')"
    using read_translate_param [of r "moved_handle x" "[]" _ 0] r(2) wire
    unfolding reader_read_translate_def by auto
  ultimately show ?thesis
    using r(1,4) by (simp add: srv_read_handle_def reader_of_def sent_result_def moved_handle_def)
qed

section \<open>Finding a service\<close>

definition same_name :: "u8 list \<Rightarrow> u8 \<Rightarrow> service \<Rightarrow> bool" where
  "same_name name len s \<longleftrightarrow>
     sv_name_len s = len \<and> take (unat len) (sv_name s) = take (unat len) name"

lemma service_matches_eight:
  assumes "length name = 8" "length (sv_name s) = 8"
  shows "service_matches name len s =
    (if unat len \<le> 8 \<or> sv_name_len s \<noteq> len then Ret (same_name name len s) else Panic OutOfRange)"
  using assms by (auto simp: service_matches_def slice_get_def same_name_def)

lemma find_in_services_eight:
  assumes "length name = 8" "\<forall>s \<in> set ss. length (sv_name s) = 8"
  shows "find_in_services name len ss =
    (if unat len \<le> 8 then Ret (find (same_name name len) ss)
     else if \<exists>s \<in> set ss. sv_name_len s = len then Panic OutOfRange else Ret None)"
  using assms(2)
proof (induction ss)
  case (Cons s ss)
  then have "service_matches name len s =
    (if unat len \<le> 8 \<or> sv_name_len s \<noteq> len then Ret (same_name name len s) else Panic OutOfRange)"
    using service_matches_eight [OF assms(1)] by simp
  moreover have "same_name name len s \<Longrightarrow> sv_name_len s = len" by (simp add: same_name_def)
  ultimately show ?case using Cons by auto
qed simp

text \<open>C17: for a name length of at most eight, \<open>find_service\<close> gives the service registered first among
  those of the name, or nothing if there is none.  For a longer one it finds nothing, except that it
  panics when a service was registered with that same length, which nothing in the registry
  prevents.\<close>

theorem find_service_correct:
  assumes "length name = 8" "\<forall>s \<in> set (sx_services srv). length (sv_name s) = 8"
  shows "find_service name len srv =
    (if unat len \<le> 8 then Ret (find (same_name name len) (sx_services srv))
     else if \<exists>s \<in> set (sx_services srv). sv_name_len s = len then Panic OutOfRange else Ret None)"
  unfolding find_service_def using assms by (rule find_in_services_eight)

section \<open>Registering and looking up\<close>

definition padded :: "u8 list \<Rightarrow> u8 list" where
  "padded name = overwrite 0 name (replicate 8 0)"

lemma padded_length [simp]: "length name \<le> 8 \<Longrightarrow> length (padded name) = 8"
  by (simp add: padded_def)

lemma name_words_padded:
  assumes "length name \<le> 8"
  shows "\<exists>a b. name_words name = Ret (a, b) \<and> le32 a @ le32 b = padded name"
proof -
  let ?a = "take 4 (padded name)" and ?b = "take 4 (drop 4 (padded name))"
  have len: "length ?a = 4" "length ?b = 4" using assms by simp_all
  have "le32 (le_word ?a) = ?a" "le32 (le_word ?b) = ?b"
    using le_bytes_le_word [of ?a, where 'a = 32] le_bytes_le_word [of ?b, where 'a = 32]
    unfolding len by simp_all
  moreover have "?a @ ?b = padded name"
  proof -
    have "?b = drop 4 (padded name)" using assms by simp
    then show ?thesis by (metis append_take_drop_id)
  qed
  ultimately show ?thesis using assms by (auto simp: name_words_def padded_def Let_def)
qed

text \<open>The request of a client, as the registry reads it.\<close>

lemma srv_request_read:
  assumes "length name \<le> 8"
  shows "\<exists>data. srv_request command name extra = Ret data \<and> length data = 256 \<and>
    context_header data = Ret \<lparr>hd_command = command, hd_normal = 4, hd_translate = 0\<rparr> \<and>
    read_name_request data = Ret (padded name, of_nat (length name), extra)"
proof -
  obtain a b where ab: "name_words name = Ret (a, b)" "le32 a @ le32 b = padded name"
    using name_words_padded [OF assms] by blast
  let ?ns = "[a, b, of_nat (length name), extra]"
  let ?data = "words_bytes (command_words command [] ?ns []) @
    drop (4 * length (command_words command [] ?ns [])) (replicate 256 0)"
  have "write_command False command 0 ?ns [] (replicate 256 0) = Ret ?data"
    using write_command_layout [of ?ns "[]" "replicate 256 0" False command 0] by (simp add: front_words_def)
  then have "srv_request command name extra = Ret ?data"
    using ab(1) by (simp add: srv_request_def write_command_def write_request_def write_params_def [abs_def])
  moreover have "length ?data = 256" by (simp add: command_words_def)
  moreover have small: "length ?ns < 64" "length (concat (map param_words [])) < 64" by simp_all
  have "context_header ?data = Ret \<lparr>hd_command = command, hd_normal = 4, hd_translate = 0\<rparr>"
    unfolding context_header_command [OF small] by (simp add: command_header_def)
  moreover have "read_name_request ?data = Ret (padded name, of_nat (length name), extra)"
  proof -
    obtain q where q: "context_request ?data = Ret q" "unat (pc_normal q) = 4"
        "holds_words q ?ns (drop (4 * length (command_words command [] ?ns [])) (replicate 256 0))"
      using request_of_command [OF small, of command] by fastforce
    obtain q1 where q1: "request_read_normal q = Ret (a, q1)" "unat (pc_normal q1) = 3"
        "holds_words q1 [b, of_nat (length name), extra] (drop (4 * length (command_words command [] ?ns [])) (replicate 256 0))"
      using request_reads_word [OF q(3), of 3] q(2) by auto
    obtain q2 where q2: "request_read_normal q1 = Ret (b, q2)" "unat (pc_normal q2) = 2"
        "holds_words q2 [of_nat (length name), extra] (drop (4 * length (command_words command [] ?ns [])) (replicate 256 0))"
      using request_reads_word [OF q1(3), of 2] q1(2) by auto
    obtain q3 where q3: "request_read_normal q2 = Ret (of_nat (length name), q3)" "unat (pc_normal q3) = 1"
        "holds_words q3 [extra] (drop (4 * length (command_words command [] ?ns [])) (replicate 256 0))"
      using request_reads_word [OF q2(3), of 1] q2(2) by auto
    obtain q4 where "request_read_normal q3 = Ret (extra, q4)"
      using request_reads_word [OF q3(3), of 0] q3(2) by auto
    then show ?thesis using q(1) q1(1) q2(1) q3(1) ab(2) by (simp add: read_name_request_def)
  qed
  ultimately show ?thesis by blast
qed

lemma kernel_new_handle_nonzero:
  assumes "tables_ok (k_processes k)" "kernel_new_handle draws obj k = Ret (h, k')"
  shows "h \<noteq> 0"
proof -
  obtain p p' where p: "current_process k = Ret p" "process_new_handle draws obj p = Ret (h, p')"
    using assms(2) by (auto simp: kernel_new_handle_def)
  then obtain pid where "process_at (k_processes k) pid = Some p" by (auto simp: current_process_def)
  then show ?thesis using process_new_handle_held [OF assms(1) _ p(2)] by blast
qed

lemma name_len_word: "length name \<le> 8 \<Longrightarrow> (ucast (of_nat (length name) :: u32) :: u8) = of_nat (length name)"
  by (simp add: unsigned_of_nat take_bit_nat_eq_self)

lemma find_snoc: "find P xs = None \<Longrightarrow> find P (xs @ [x]) = (if P x then Some x else None)"
  by (induction xs) (auto split: if_split_asm)

lemma registry_registers:
  assumes "length name \<le> 8" "make_port_pair k = ((server, client), k1)"
    "kernel_new_handle (os_draws os) server k1 = Ret (server_port, k2)"
    "kernel_new_handle (os_draws os) client k2 = Ret (client_port, k3)" "server_port \<noteq> 0"
  shows "\<exists>data data'. srv_request 3 name max_sessions = Ret data \<and>
    srv_handle_ipc os srv data k = Ret (Handled (register_service
      \<lparr>sv_name = padded name, sv_name_len = of_nat (length name), sv_max_sessions = max_sessions,
       sv_client_port = client_port\<rparr> srv) data', k3) \<and>
    srv_read_handle data' = Ret (Inr server_port)"
proof -
  obtain data where data: "srv_request 3 name max_sessions = Ret data" "length data = 256"
      "context_header data = Ret \<lparr>hd_command = 3, hd_normal = 4, hd_translate = 0\<rparr>"
      "read_name_request data = Ret (padded name, of_nat (length name), max_sessions)"
    using srv_request_read [OF assms(1)] by blast
  obtain data' where "respond 0 [] [moved_handle server_port] data = Ret data'" "srv_read_handle data' = Ret (Inr server_port)"
    using answer_read [OF data(3) _ assms(5)] data(2) by auto
  then show ?thesis
    using data(1,3,4) assms(2-4)
    by (simp add: srv_handle_ipc_def is_command_def srv_register_def Let_def name_len_word [OF assms(1)])
qed

lemma registry_finds:
  assumes "length name \<le> 8" "\<forall>s \<in> set (sx_services srv). length (sv_name s) = 8"
    "find (same_name (padded name) (of_nat (length name))) (sx_services srv) = Some service"
    "hle_create_session_to_port (os_alive os) (os_draws os) (sv_client_port service) k = Ret (SessionPending session, k1)"
    "session \<noteq> 0"
  shows "\<exists>data data'. srv_request 5 name flags = Ret data \<and>
    srv_handle_ipc os srv data k = Ret (Waits srv (data, session), k1) \<and>
    srv_handle_resumed ResumeNormal (data, session) = Ret data' \<and> srv_read_handle data' = Ret (Inr session)"
proof -
  obtain data where data: "srv_request 5 name flags = Ret data" "length data = 256"
      "context_header data = Ret \<lparr>hd_command = 5, hd_normal = 4, hd_translate = 0\<rparr>"
      "read_name_request data = Ret (padded name, of_nat (length name), flags)"
    using srv_request_read [OF assms(1)] by blast
  obtain data' where d: "respond 0 [] [moved_handle session] data = Ret data'" "srv_read_handle data' = Ret (Inr session)"
    using answer_read [OF data(3) _ assms(5)] data(2) by auto
  have "unat (of_nat (length name) :: u8) \<le> 8" using assms(1) by (simp add: unat_of_nat)
  then have "find_service (padded name) (of_nat (length name)) srv = Ret (Some service)"
    using find_in_services_eight [OF _ assms(2)] assms(1,3) by (simp add: find_service_def)
  then have "srv_handle_ipc os srv data k = Ret (Waits srv (data, session), k1)"
    using data(3,4) assms(4)
    by (simp add: srv_handle_ipc_def is_command_def srv_get_service_def name_len_word [OF assms(1)])
  then show ?thesis using data(1) d by (simp add: srv_handle_resumed_def resumed_normally_def)
qed

text \<open>C9: registering a service and asking for it, through the request and answer buffers of
  \<open>SrvInterface\<close>: the registry answers a registration with a handle for the server end of a new
  port and remembers the client end under the name, and a request for that name later - no other
  service of the name being there before - connects to that port and is answered with the
  session.\<close>

theorem registry_serves:
  assumes "length name \<le> 8" "tables_ok (k_processes k)" "make_port_pair k = ((server, client), k1)"
    and "kernel_new_handle (os_draws os) server k1 = Ret (server_port, k2)"
    and "kernel_new_handle (os_draws os) client k2 = Ret (client_port, k3)"
    and "\<forall>s \<in> set (sx_services srv). length (sv_name s) = 8 \<and> \<not> same_name (padded name) (of_nat (length name)) s"
    and "hle_create_session_to_port (os_alive os') (os_draws os') client_port k4 = Ret (SessionPending session, k5)"
    and "session \<noteq> 0"
  shows "\<exists>request answer srv' lookup found.
    srv_request 3 name max_sessions = Ret request \<and>
    srv_handle_ipc os srv request k = Ret (Handled srv' answer, k3) \<and>
    srv_read_handle answer = Ret (Inr server_port) \<and>
    srv_request 5 name flags = Ret lookup \<and>
    srv_handle_ipc os' srv' lookup k4 = Ret (Waits srv' (lookup, session), k5) \<and>
    srv_handle_resumed ResumeNormal (lookup, session) = Ret found \<and>
    srv_read_handle found = Ret (Inr session)"
proof -
  let ?service = "\<lparr>sv_name = padded name, sv_name_len = of_nat (length name), sv_max_sessions = max_sessions,
    sv_client_port = client_port\<rparr>"
  have "k_processes k1 = k_processes k" using assms(3) by (auto simp: make_port_pair_def new_object_def map_object_def Let_def)
  then have "server_port \<noteq> 0" using kernel_new_handle_nonzero [OF _ assms(4)] assms(2) by simp
  note registers = registry_registers [OF assms(1,3-5) this, of max_sessions srv]
  have len: "\<forall>s \<in> set (sx_services (register_service ?service srv)). length (sv_name s) = 8"
    using assms(1,6) by (auto simp: register_service_def)
  have "find (same_name (padded name) (of_nat (length name))) (sx_services srv) = None"
    using assms(6) by (auto simp: find_None_iff)
  then have "find (same_name (padded name) (of_nat (length name))) (sx_services (register_service ?service srv)) = Some ?service"
    using find_snoc [of _ _ ?service] by (simp add: register_service_def) (simp add: same_name_def)
  note finds = registry_finds [OF assms(1) len this, simplified, OF assms(7,8), of flags]
  show ?thesis using registers finds by blast
qed

section \<open>Witnesses\<close>

definition sample_outside :: outside where
  "sample_outside = \<lparr>os_now = 30, os_alive = (\<lambda>_. True), os_draws = (\<lambda>n. of_nat n + 1)\<rparr>"

text \<open>Process 0 without handles, its thread 5 running.\<close>

definition registry_kernel :: "(unit, unit) kernel" where
  "registry_kernel = (kernel_new 20)
     \<lparr>sc_threads := [(thread_new 0 5 9)\<lparr>ct_state := Running\<rparr>],
      k_processes := [(\<lparr>cp_pid = 0, cp_name = ''srv'', cp_objects = table_new\<rparr>, ())],
      k_current := Some (0, 5)\<rparr>"

definition registry_ports :: "((oid \<times> oid) \<times> handle \<times> handle \<times> (unit, unit) kernel) res" where
  "registry_ports =
     (let (pair, k1) = make_port_pair registry_kernel in
      and_then (kernel_new_handle (os_draws sample_outside) (fst pair) k1) (\<lambda>(server_port, k2).
      and_then (kernel_new_handle (os_draws sample_outside) (snd pair) k2) (\<lambda>(client_port, k3).
      Ret (pair, server_port, client_port, k3))))"

declare insert_loop.simps [code]

definition connects :: "handle \<Rightarrow> handle \<Rightarrow> (unit, unit) kernel \<Rightarrow> bool" where
  "connects port session k \<longleftrightarrow>
     (case hle_create_session_to_port (os_alive sample_outside) (os_draws sample_outside) port k of
        Ret (SessionPending h, _) \<Rightarrow> h = session | _ \<Rightarrow> False)"

lemma registry_ports_run:
  "case registry_ports of
     Ret (pair, server_port, client_port, k) \<Rightarrow>
       pair = (0, 1) \<and> server_port = 1 \<and> client_port = 2 \<and> connects 2 3 k
   | _ \<Rightarrow> False"
  by code_simp

lemma registry_ports_steps:
  "\<exists>k1 k2 k3 k5. make_port_pair registry_kernel = ((0, 1), k1) \<and>
     kernel_new_handle (os_draws sample_outside) 0 k1 = Ret (1, k2) \<and>
     kernel_new_handle (os_draws sample_outside) 1 k2 = Ret (2, k3) \<and>
     hle_create_session_to_port (os_alive sample_outside) (os_draws sample_outside) 2 k3 = Ret (SessionPending 3, k5)"
proof -
  obtain k3 where p: "registry_ports = Ret ((0, 1), 1, 2, k3)" and c: "connects 2 3 k3"
    using registry_ports_run by (auto split: res.split_asm prod.split_asm)
  obtain k5 where "hle_create_session_to_port (os_alive sample_outside) (os_draws sample_outside) 2 k3 =
      Ret (SessionPending 3, k5)"
    using c by (auto simp: connects_def split: res.split_asm prod.split_asm session_wait.split_asm)
  then show ?thesis using p by (auto simp: registry_ports_def Let_def split: prod.split_asm)
qed

theorem find_service_correct_witness:
  "find_service (padded [0x61]) 1
     (register_service \<lparr>sv_name = padded [0x61], sv_name_len = 1, sv_max_sessions = 4, sv_client_port = 2\<rparr> srv_new) =
   Ret (Some \<lparr>sv_name = padded [0x61], sv_name_len = 1, sv_max_sessions = 4, sv_client_port = 2\<rparr>)"
  by (subst find_service_correct) (simp_all add: register_service_def srv_new_def same_name_def)

theorem registry_serves_witness:
  "\<exists>request answer srv' lookup found k3 k5.
    srv_request 3 [0x61, 0x62] 4 = Ret request \<and>
    srv_handle_ipc sample_outside srv_new request registry_kernel = Ret (Handled srv' answer, k3) \<and>
    srv_read_handle answer = Ret (Inr 1) \<and>
    srv_request 5 [0x61, 0x62] 0 = Ret lookup \<and>
    srv_handle_ipc sample_outside srv' lookup k3 = Ret (Waits srv' (lookup, 3), k5) \<and>
    srv_handle_resumed ResumeNormal (lookup, 3) = Ret found \<and>
    srv_read_handle found = Ret (Inr 3)"
proof -
  obtain k1 k2 k3 k5 where k: "make_port_pair registry_kernel = ((0, 1), k1)"
      "kernel_new_handle (os_draws sample_outside) 0 k1 = Ret (1, k2)"
      "kernel_new_handle (os_draws sample_outside) 1 k2 = Ret (2, k3)"
      "hle_create_session_to_port (os_alive sample_outside) (os_draws sample_outside) 2 k3 = Ret (SessionPending 3, k5)"
    using registry_ports_steps by blast
  have tables: "tables_ok (k_processes registry_kernel)"
    by (auto simp: tables_ok_def process_at_def registry_kernel_def table_ok_def table_new_def split: if_splits)
  have none: "\<forall>s \<in> set (sx_services srv_new). length (sv_name s) = 8 \<and>
      \<not> same_name (padded [0x61, 0x62]) (of_nat (length [0x61, 0x62 :: u8])) s"
    by (simp add: srv_new_def)
  show ?thesis
    using registry_serves [OF _ tables k(1-3) none k(4), of 4 0] by simp blast
qed

section \<open>Starting services\<close>

text \<open>The kernel after a list of services was started: each has the next free pid, a process without
  handles, a thread with the next free tid that is ready, the object of that thread at the end of
  the arena and the boxed future of the service.\<close>

definition with_services ::
  "service_kind list \<Rightarrow> ((closure, 's) thread_hle, process) kernel \<Rightarrow> ((closure, 's) thread_hle, process) kernel" where
  "with_services ss k =
     (let n = length ss; pid = (\<lambda>i. k_next_pid k + of_nat i); tid = (\<lambda>i. unat (k_next_tid k) + i) in
      k\<lparr>k_next_pid := pid n, k_next_tid := of_nat (tid n),
        k_processes := k_processes k @ map (\<lambda>i.
          (\<lparr>cp_pid = pid i, cp_name = service_name (ss ! i), cp_objects = table_new\<rparr>, ProcessHLE)) [0..<n],
        sc_objects := sc_objects k @ map (\<lambda>i. ThreadObject (thread_object_new (tid i))) [0..<n],
        sc_threads := sc_threads k @ map (\<lambda>i. thread_new (pid i) (tid i) (length (sc_objects k) + i)) [0..<n],
        k_thread_boxes := k_thread_boxes k @
          map (\<lambda>i. (tid i, Some (thread_hle_new (ServiceClosure (ss ! i))))) [0..<n]\<rparr>)"

lemma with_no_services: "with_services [] k = k"
  by (simp add: with_services_def)

lemma map_upt_Suc: "map f [0..<Suc n] = f 0 # map (\<lambda>i. f (Suc i)) [0..<n]"
  by (simp add: upt_conv_Cons map_Suc_upt [symmetric] del: upt_Suc)

lemma with_service_first:
  assumes "unat (k_next_tid k) + 1 < 2 ^ 32"
  shows "with_services ss (with_services [s] k) = with_services (s # ss) k"
proof -
  have "unat (k_next_tid k + 1) = Suc (unat (k_next_tid k))" using assms by (simp add: unat_word_ariths)
  then show ?thesis
    by (simp add: with_services_def Let_def map_upt_Suc add.assoc del: upt_Suc)
qed

lemma start_service_with:
  "start_service s k =
     (if unat (k_next_pid k) + 1 < 2 ^ 32 \<and> unat (k_next_tid k) + 1 < 2 ^ 32 then Ret (with_services [s] k)
      else Panic Overflow)"
  by (simp add: start_service_def service_start_def new_process_def new_thread_def new_object_def with_services_def
      cadd_def checked_add_def Let_def)

text \<open>C10: starting services, from any kernel and for any list of them, gives each service in turn the
  next free pid and tid, a process of its name without handles, and one thread, which is ready,
  belongs to that process and holds the future of that very service; all that was there before is
  left as it was.  It fails, by an arithmetic panic, exactly when the pids or the tids run out.\<close>

theorem services_started:
  "fold_res start_service ss k =
     (if unat (k_next_pid k) + length ss < 2 ^ 32 \<and> unat (k_next_tid k) + length ss < 2 ^ 32
      then Ret (with_services ss k) else Panic Overflow)"
proof (induction ss arbitrary: k)
  case Nil
  have "unat (x :: u32) < 4294967296" for x using unsigned_less [of x] by simp
  then show ?case by (simp add: with_no_services)
next
  case (Cons s ss)
  show ?case
  proof (cases "unat (k_next_pid k) + 1 < 2 ^ 32 \<and> unat (k_next_tid k) + 1 < 2 ^ 32")
    case True
    then have "unat (k_next_pid (with_services [s] k)) = Suc (unat (k_next_pid k))"
      "unat (k_next_tid (with_services [s] k)) = Suc (unat (k_next_tid k))"
      by (simp_all add: with_services_def unat_word_ariths)
    then show ?thesis using True Cons.IH [of "with_services [s] k"] by (simp add: start_service_with with_service_first)
  next
    case False
    then show ?thesis by (auto simp: start_service_with)
  qed
qed

section \<open>Loading a program\<close>

definition image_size :: "exheader \<Rightarrow> nat" where
  "image_size eh = csi_bytes (eh_text eh) + csi_bytes (eh_rodata eh) + csi_bytes (eh_data eh)"

text \<open>A section of the program as the memory map is given it: its bytes fill the pages that are mapped.\<close>

definition fills :: "codeset_section \<Rightarrow> csi \<Rightarrow> bool" where
  "fills section csi \<longleftrightarrow>
     sec_start section = csi_address csi \<and> length (sec_data section) = csi_bytes csi \<and>
     page_round (length (sec_data section)) = push_bit 12 (csi_size_in_pages csi)"

lemma page_round_pages: "page_round (csi_bytes csi) = push_bit 12 (csi_size_in_pages csi)"
proof -
  define p where "p = unat (csi_size_in_pages csi)"
  have "csi_bytes csi = p * 4096 mod 2 ^ 32"
    by (simp add: csi_bytes_def p_def push_bit_eq_mult unat_word_ariths mult.commute)
  also have "\<dots> = 4096 * (p mod 2 ^ 20)"
    using mult_mod_right [of 4096 p "2 ^ 20"] by (simp add: mult.commute)
  finally have bytes: "csi_bytes csi = 4096 * (p mod 2 ^ 20)" .
  have "(csi_bytes csi + 0xFFF) div 0x1000 * 0x1000 = csi_bytes csi"
    unfolding bytes by simp
  then show ?thesis by (simp add: page_round_def) (simp add: csi_bytes_def)
qed

text \<open>C16: the loader cuts the file with the code into text, rodata and data, one after the other without
  gap or overlap, each at its address of the extended header and as long as the header's number of
  pages, so that it fills the pages that are mapped for it; a file that is too short for the three
  makes it panic, and nothing else does.\<close>

theorem loader_cuts_code:
  "case loader_codeset eh code of
     Ret info \<Rightarrow>
       image_size eh \<le> length code \<and>
       sec_data (ci_text info) @ sec_data (ci_rodata info) @ sec_data (ci_data info) = take (image_size eh) code \<and>
       fills (ci_text info) (eh_text eh) \<and> fills (ci_rodata info) (eh_rodata eh) \<and> fills (ci_data info) (eh_data eh) \<and>
       ci_bss info = eh_bss_size eh \<and> ci_program_id info = eh_program_id eh
   | Panic p \<Rightarrow> p = OutOfRange \<and> length code < image_size eh
   | Diverge \<Rightarrow> False"
proof -
  define a b c where abc: "a = csi_bytes (eh_text eh)" "b = csi_bytes (eh_rodata eh)" "c = csi_bytes (eh_data eh)"
  have pieces: "take a code @ take b (drop a code) @ take c (drop (a + b) code) = take (a + b + c) code"
    "take a code @ take b (drop a code) @ take c (drop (b + a) code) = take (a + b + c) code"
    by (simp_all add: take_add add.assoc add.commute [of b a])
  show ?thesis
    using pieces
    by (auto simp: loader_codeset_def slice_get_def image_size_def fills_def page_round_pages Let_def abc [symmetric]
        split: res.split)
      (auto simp: abc page_round_pages add.commute)
qed

end
