(* ===== verification/Execution.thy ===== *)
theory Execution
  imports Svc
begin

text \<open>
  Every call a thread makes into the kernel keeps the kernel consistent: queues and threads agree
  (\<open>sched_ok\<close>) and the next thread index is new.  \<open>yields m P\<close> says that \<open>P\<close> holds of what the
  computation \<open>m\<close> yields, if it yields; \<open>sched_step\<close> is a step of the scheduler's state, \<open>kernel_ok\<close>
  the invariant of the kernel.
\<close>

section \<open>Outcomes that are consistent\<close>

text \<open>A postcondition of what a computation yields; a panic has nothing to satisfy.\<close>

definition yields :: "'a res \<Rightarrow> ('a \<Rightarrow> bool) \<Rightarrow> bool" where
  "yields m P \<longleftrightarrow> (\<forall>x. m = Ret x \<longrightarrow> P x)"

lemma yieldsI: "(\<And>x. m = Ret x \<Longrightarrow> P x) \<Longrightarrow> yields m P"
  by (simp add: yields_def)

lemma yieldsD: "\<lbrakk>yields m P; m = Ret x\<rbrakk> \<Longrightarrow> P x"
  by (simp add: yields_def)

lemma yields_Ret [simp]: "yields (Ret x) P \<longleftrightarrow> P x"
  by (simp add: yields_def)

lemma yields_Panic [simp]: "yields (Panic p) P" "yields Diverge P"
  by (simp_all add: yields_def)

lemma yields_bind: "(\<And>x. m = Ret x \<Longrightarrow> yields (f x) P) \<Longrightarrow> yields (and_then m f) P"
  by (cases m) simp_all

lemma yields_mono: "\<lbrakk>yields m P; \<And>x. P x \<Longrightarrow> Q x\<rbrakk> \<Longrightarrow> yields m Q"
  by (simp add: yields_def)

lemma yields_seq:
  "\<lbrakk>yields m P; \<And>x. P x \<Longrightarrow> yields (f x) Q\<rbrakk> \<Longrightarrow> yields (and_then m f) Q"
  by (cases m) simp_all

section \<open>Steps of the scheduler's state\<close>

definition thread_indices :: "('t, 'z) sched_scheme \<Rightarrow> tid list" where
  "thread_indices s = map ct_index (sc_threads s)"

lemma wake_up_index: "wake_up r objs t = Ret (t', objs') \<Longrightarrow> ct_index t' = ct_index t"
  by (auto simp: wake_up_def Let_def)

lemma put_thread_indices: "ct_index t = i \<Longrightarrow> map ct_index (put_thread i t ts) = map ct_index ts"
  unfolding put_thread_def by (rule map_update_first) simp

lemma find_thread_index: "find_thread i ts = Ret t \<Longrightarrow> ct_index t = i"
  by (auto simp: find_thread_def find_Some_iff)

interpretation indices: untouched thread_indices
proof
  fix w i s b s' assume "waker_wake w i s = Ret (b, s')"
  then show "thread_indices s' = thread_indices s"
    by (auto simp: thread_indices_def waker_wake_def wake_up_thread_def split: if_splits
        dest!: wake_up_index find_thread_index intro!: put_thread_indices)
qed (simp add: thread_indices_def map_object_def)

text \<open>The consistency of queues and threads survives, and no thread comes or goes.\<close>

definition sched_step :: "('t, 'z) sched_scheme \<Rightarrow> ('t, 'z) sched_scheme \<Rightarrow> bool" where
  "sched_step s s' \<longleftrightarrow>
     (sched_ok s \<longrightarrow> sched_ok s') \<and> thread_indices s' = thread_indices s \<and> sched.more s' = sched.more s"

lemma sched_step_refl [simp]: "sched_step s s"
  by (simp add: sched_step_def)

lemma sched_step_trans [trans]: "\<lbrakk>sched_step s s'; sched_step s' s''\<rbrakk> \<Longrightarrow> sched_step s s''"
  by (simp add: sched_step_def)

lemma sched_step_map_object:
  assumes "\<And>obj. object_at s i = Some obj \<Longrightarrow>
      set (wakers_of (f obj)) \<subseteq> set (wakers_of obj) \<and> (arbiter_queue_distinct obj \<longrightarrow> arbiter_queue_distinct (f obj))"
  shows "sched_step s (map_object i f s)"
proof -
  have "sched_ok (map_object i f s)" if ok: "sched_ok s"
    by (rule sched_ok_map_object [OF ok]) (use assms ok in \<open>auto simp: sched_ok_observe\<close>)
  then show ?thesis by (simp add: sched_step_def)
qed

lemma event_signal_step: "yields (event_signal i s) (sched_step s)"
proof (rule yieldsI)
  fix s' assume r: "event_signal i s = Ret s'"
  then obtain e where e: "object_at s i = Some (Event e)" by (auto simp: event_signal_def)
  have "sched_ok s'" if ok: "sched_ok s"
    using event_signal_only_wakes [OF ok e] r by (auto simp: only_wakes_def)
  then show "sched_step s s'"
    using indices.event_signal_part [OF r] rest.event_signal_part [OF r] by (simp add: sched_step_def)
qed

lemma timer_tick_step: "yields (timer_tick i time s) (sched_step s)"
proof (rule yieldsI)
  fix s' assume r: "timer_tick i time s = Ret s'"
  then obtain t where t: "object_at s i = Some (Timer t)" by (auto simp: timer_tick_def)
  have "sched_ok s'" if ok: "sched_ok s"
  proof (cases "timer_valid t \<and> tm_next_ns t \<le> time")
    case True
    have "unat time + unat (tm_interval t) < 2 ^ 64" if "signal_is_pulse (tm_signal t)"
    proof (rule ccontr)
      assume "\<not> ?thesis"
      then have "cadd time (tm_interval t) = Panic Overflow" by (simp add: cadd_def checked_add_def)
      then show False using r t True that by (simp add: timer_tick_def timer_at_def Let_def)
    qed
    from timer_tick_due [OF ok t _ _ this] True obtain s2 where "timer_tick i time s = Ret s2" "sched_ok s2"
      by blast
    then show ?thesis using r by simp
  qed (use timer_tick_idle [OF t] ok r in auto)
  then show "sched_step s s'"
    using indices.timer_tick_part [OF r] rest.timer_tick_part [OF r] by (simp add: sched_step_def)
qed

lemma mutex_release_step: "yields (mutex_release i s) (sched_step s)"
proof (rule yieldsI)
  fix s' assume r: "mutex_release i s = Ret s'"
  then obtain m where m: "object_at s i = Some (Mutex m)" by (auto simp: mutex_release_def)
  have "sched_ok s'" if ok: "sched_ok s"
    using mutex_release_next [OF ok m] r by auto
  then show "sched_step s s'"
    using r m by (cases "mx_queue m")
      (auto simp: mutex_release_def mutex_at_def sched_step_def dest: indices.wake_or_panic_part rest.wake_or_panic_part)
qed

section \<open>Waiting\<close>

context object_steps begin

lemma sync_wait_steps: "sync_wait i w s = Ret s' \<Longrightarrow> S s s'"
  by (auto simp: sync_wait_def event_wait_def timer_wait_def mutex_wait_def thread_object_wait_def
      server_port_wait_def client_port_wait_def server_session_wait_def client_session_wait_def Let_def
      split: option.splits kobj.splits prod.splits if_splits
      dest!: wakes dest: after_update intro: stays updated before_update)

lemma wait_object_steps: "wait_object w i s = Ret s' \<Longrightarrow> S s s'"
  by (auto simp: wait_object_def split: option.splits dest!: sync_wait_steps)

lemma server_port_wake_steps: "server_port_wake_thread i s = Ret s' \<Longrightarrow> S s s'"
  by (clarsimp simp: server_port_wake_thread_def)
    (auto split: list.split_asm dest!: wake_or_panic_steps dest: after_update intro: stays updated)

lemma client_port_wake_steps: "client_port_wake_thread i s = Ret s' \<Longrightarrow> S s s'"
  by (clarsimp simp: client_port_wake_thread_def)
    (auto split: list.split_asm dest!: wake_or_panic_steps dest: after_update intro: stays updated)

lemma server_session_wake_steps: "server_session_wake_thread i s = Ret s' \<Longrightarrow> S s s'"
  by (clarsimp simp: server_session_wake_thread_def)
    (auto split: list.split_asm dest!: wake_or_panic_steps dest: after_update intro: stays updated)

lemma client_session_wake_steps: "client_session_wake_thread i s = Ret s' \<Longrightarrow> S s s'"
  by (clarsimp simp: client_session_wake_thread_def)
    (auto split: list.split_asm dest!: wake_or_panic_steps dest: after_update intro: stays updated)

lemma port_create_session_steps: "port_create_session alive i x s = Ret s' \<Longrightarrow> S s s'"
  by (auto simp: port_create_session_def enqueue_session_def dest!: server_port_wake_steps dest: after_update intro: stays updated)

lemma accept_session_steps: "accept_session alive i s = Ret (r, s') \<Longrightarrow> S s s'"
  by (clarsimp simp: accept_session_def) (auto split: list.split_asm dest!: client_port_wake_steps dest: after_update intro: stays updated)

lemma sync_request_steps: "sync_request alive i w s = Ret (b, s') \<Longrightarrow> S s s'"
  by (auto simp: sync_request_def enqueue_sync_request_def Let_def split: option.splits
      dest!: server_session_wake_steps dest: after_update intro: stays updated)

lemma wake_all_steps: "fold_res (wake_or_panic msg i) ws s = Ret s' \<Longrightarrow> S s s'"
  by (rule fold_steps) (rule wake_or_panic_steps)

lemma arbiter_signal_steps: "arbiter_signal i n a s = Ret (b, s') \<Longrightarrow> S s s'"
  by (clarsimp simp: arbiter_signal_def Let_def) (auto split: prod.split_asm dest!: wake_all_steps dest: after_update intro: stays updated)

lemma thread_object_exit_steps: "thread_object_exit i s = Ret s' \<Longrightarrow> S s s'"
  by (auto simp: thread_object_exit_def split: if_splits dest!: wake_each_steps dest: after_update intro: stays updated)

lemma mutex_release_steps: "mutex_release i s = Ret s' \<Longrightarrow> S s s'"
  by (clarsimp simp: mutex_release_def) (auto split: list.split_asm dest!: wake_or_panic_steps intro: updated)

lemma wait_objects_steps: "fold_res (wait_object w) is s = Ret s' \<Longrightarrow> S s s'"
  by (rule fold_steps) (rule wait_object_steps)

end

context untouched begin

lemmas sync_wait_part = kept.sync_wait_steps
lemmas wait_object_part = kept.wait_object_steps
lemmas server_port_wake_part = kept.server_port_wake_steps
lemmas client_port_wake_part = kept.client_port_wake_steps
lemmas server_session_wake_part = kept.server_session_wake_steps
lemmas client_session_wake_part = kept.client_session_wake_steps
lemmas port_create_session_part = kept.port_create_session_steps
lemmas accept_session_part = kept.accept_session_steps
lemmas sync_request_part = kept.sync_request_steps
lemmas wake_all_part = kept.wake_all_steps
lemmas arbiter_signal_part = kept.arbiter_signal_steps
lemmas thread_object_exit_part = kept.thread_object_exit_steps
lemmas mutex_release_part = kept.mutex_release_steps
lemmas wait_objects_part = kept.wait_objects_steps

end

lemma server_port_wake_step: "yields (server_port_wake_thread i s) (sched_step s)"
proof (rule yieldsI)
  fix s' assume r: "server_port_wake_thread i s = Ret s'"
  then obtain p where p: "object_at s i = Some (ServerPort p)" by (auto simp: server_port_wake_thread_def)
  have "sched_ok s'" if ok: "sched_ok s" using server_port_wake [OF ok p] r by auto
  then show "sched_step s s'"
    using indices.server_port_wake_part [OF r] rest.server_port_wake_part [OF r] by (simp add: sched_step_def)
qed

lemma client_port_wake_step: "yields (client_port_wake_thread i s) (sched_step s)"
proof (rule yieldsI)
  fix s' assume r: "client_port_wake_thread i s = Ret s'"
  then obtain p where p: "object_at s i = Some (ClientPort p)" by (auto simp: client_port_wake_thread_def)
  have "sched_ok s'" if ok: "sched_ok s" using client_port_wake [OF ok p] r by auto
  then show "sched_step s s'"
    using indices.client_port_wake_part [OF r] rest.client_port_wake_part [OF r] by (simp add: sched_step_def)
qed

lemma server_session_wake_step: "yields (server_session_wake_thread i s) (sched_step s)"
proof (rule yieldsI)
  fix s' assume r: "server_session_wake_thread i s = Ret s'"
  then obtain x where x: "object_at s i = Some (ServerSession x)" by (auto simp: server_session_wake_thread_def)
  have "sched_ok s'" if ok: "sched_ok s" using server_session_wake [OF ok x] r by auto
  then show "sched_step s s'"
    using indices.server_session_wake_part [OF r] rest.server_session_wake_part [OF r] by (simp add: sched_step_def)
qed

lemma client_session_wake_step: "yields (client_session_wake_thread i s) (sched_step s)"
proof (rule yieldsI)
  fix s' assume r: "client_session_wake_thread i s = Ret s'"
  then obtain x where x: "object_at s i = Some (ClientSession x)" by (auto simp: client_session_wake_thread_def)
  have "sched_ok s'" if ok: "sched_ok s" using client_session_wake [OF ok x] r by auto
  then show "sched_step s s'"
    using indices.client_session_wake_part [OF r] rest.client_session_wake_part [OF r] by (simp add: sched_step_def)
qed

lemma sched_step_with_queue:
  assumes "\<And>obj. set (wakers_of (f obj)) \<subseteq> set (wakers_of obj)"
    "\<And>obj. arbiter_queue_distinct obj \<Longrightarrow> arbiter_queue_distinct (f obj)"
  shows "sched_step s (map_object i f s)"
  by (rule sched_step_map_object) (use assms in blast)

lemma sched_step_after_map:
  assumes "sched_step (map_object i f s) s'" "\<And>obj. wakers_of (f obj) = wakers_of obj"
    "\<And>obj. arbiter_queue_distinct (f obj) = arbiter_queue_distinct obj"
  shows "sched_step s s'"
  using sched_step_with_queue [of f s i] assms by (auto intro: sched_step_trans)

lemma map_others [simp]:
  "wakers_of (map_server_port (\<lambda>p. p\<lparr>sp_sessions := g p\<rparr>) obj) = wakers_of obj"
  "arbiter_queue_distinct (map_server_port f obj) = arbiter_queue_distinct obj"
  "wakers_of (map_server_session (\<lambda>x. x\<lparr>ss_requests := h x\<rparr>) obj) = wakers_of obj"
  "arbiter_queue_distinct (map_server_session f2 obj) = arbiter_queue_distinct obj"
  by (cases obj; simp)+

lemma port_create_session_step: "yields (port_create_session alive i x s) (sched_step s)"
  unfolding port_create_session_def enqueue_session_def
  by (intro yields_bind yields_mono [OF server_port_wake_step])
    (rule sched_step_trans [OF sched_step_with_queue], simp_all)

lemma accept_session_step: "yields (accept_session alive i s) (\<lambda>(_, s'). sched_step s s')"
  unfolding accept_session_def Let_def
  by (auto split: list.split intro!: yields_bind yields_seq [OF client_port_wake_step])
    (erule sched_step_after_map, simp_all)

lemma sched_step_of_ok:
  "\<lbrakk>thread_indices s' = thread_indices s; sched.more s' = sched.more s; sched_ok s \<Longrightarrow> sched_ok s'\<rbrakk> \<Longrightarrow>
     sched_step s s'"
  by (simp add: sched_step_def)

lemma arbiter_signal_step: "yields (arbiter_signal i n a s) (\<lambda>(_, s'). sched_step s s')"
proof (rule yieldsI)
  fix x assume r: "arbiter_signal i n a s = Ret x"
  obtain b s' where x: "x = (b, s')" by (cases x)
  obtain ab where ab: "object_at s i = Some (Arbiter ab)" using r by (auto simp: arbiter_signal_def)
  have "sched_ok s'" if ok: "sched_ok s"
    using arbiter_signal_drains [OF ok ab refl, where amount = n and addr = a] r x by auto
  then show "case x of (_, s') \<Rightarrow> sched_step s s'"
    using indices.arbiter_signal_part [of i n a s b s'] rest.arbiter_signal_part [of i n a s b s'] r x
    by (auto intro: sched_step_of_ok)
qed

lemma thread_object_exit_step: "yields (thread_object_exit i s) (sched_step s)"
proof (rule yieldsI)
  fix s' assume r: "thread_object_exit i s = Ret s'"
  then obtain t where t: "object_at s i = Some (ThreadObject t)" by (auto simp: thread_object_exit_def)
  have "sched_ok s'" if ok: "sched_ok s"
  proof (cases "to_dead t")
    case True
    then show ?thesis using r t ok by (simp add: thread_object_exit_def thread_object_at_def)
  qed (use thread_exit_all [OF ok t] r in auto)
  then show "sched_step s s'"
    using indices.thread_object_exit_part [OF r] rest.thread_object_exit_part [OF r] by (rule sched_step_of_ok [rotated 2])
qed

section \<open>The invariant of the kernel\<close>

text \<open>Queues and threads agree, and the next thread index is new.\<close>

definition kernel_ok :: "('t, 'p) kernel \<Rightarrow> bool" where
  "kernel_ok k \<longleftrightarrow> sched_ok k \<and> (\<forall>i \<in> set (thread_indices k). i < unat (k_next_tid k))"

lemma kernel_ok_sched: "kernel_ok k \<Longrightarrow> sched_ok k"
  by (simp add: kernel_ok_def)

lemma kernel_tid: "sched.more k' = sched.more (k :: ('t, 'p) kernel) \<Longrightarrow> k_next_tid k' = k_next_tid k"
  by (cases k; cases k') simp

lemma kernel_ok_step: "\<lbrakk>sched_step k k'; kernel_ok k\<rbrakk> \<Longrightarrow> kernel_ok k'"
  using kernel_tid [of k' k] by (simp add: kernel_ok_def sched_step_def)

text \<open>The parts of the kernel the invariant does not look at.\<close>

lemma kernel_ok_cong:
  "\<lbrakk>sc_objects k' = sc_objects k; sc_threads k' = sc_threads k; k_next_tid k' = k_next_tid k\<rbrakk> \<Longrightarrow>
     kernel_ok k' = kernel_ok k"
  by (simp add: kernel_ok_def sched_ok_def thread_indices_def)

lemma kernel_ok_other [simp]:
  "kernel_ok (k\<lparr>k_processes := a\<rparr>) = kernel_ok k"
  "kernel_ok (k\<lparr>k_thread_boxes := b\<rparr>) = kernel_ok k"
  "kernel_ok (k\<lparr>k_current := c\<rparr>) = kernel_ok k"
  "kernel_ok (k\<lparr>k_next := d\<rparr>) = kernel_ok k"
  "kernel_ok (k\<lparr>k_next_pid := e\<rparr>) = kernel_ok k"
  "kernel_ok (k\<lparr>k_ports := f\<rparr>) = kernel_ok k"
  "kernel_ok (k\<lparr>k_interrupts := g\<rparr>) = kernel_ok k"
  "kernel_ok (k\<lparr>k_active_interrupts := h\<rparr>) = kernel_ok k"
  by (rule kernel_ok_cong; simp)+

text \<open>A new object that nobody waits for.\<close>

lemma object_at_new:
  "object_at (s\<lparr>sc_objects := sc_objects s @ [obj]\<rparr>) i =
    (if i = length (sc_objects s) then Some obj else object_at s i)"
  by (auto simp: object_at_def nth_append)

lemma sched_ok_new:
  assumes "sched_ok s" "wakers_of obj = []" "arbiter_queue_distinct obj"
  shows "sched_ok (s\<lparr>sc_objects := sc_objects s @ [obj]\<rparr>)"
proof -
  have "thread_at (s\<lparr>sc_objects := sc_objects s @ [obj]\<rparr>) = thread_at s" by (simp add: thread_at_def fun_eq_iff)
  then show ?thesis using assms unfolding sched_ok_observe by (auto simp: object_at_new split: if_splits)
qed

lemma new_object_step:
  assumes "wakers_of obj = []" "arbiter_queue_distinct obj"
  shows "sched_step s (snd (new_object obj s))"
  using sched_ok_new [OF _ assms, of s] by (simp add: sched_step_def new_object_def thread_indices_def)

lemma kernel_new_handle_ok:
  "kernel_ok k \<Longrightarrow> yields (kernel_new_handle draws obj k) (\<lambda>(_, k'). kernel_ok k')"
  by (auto simp: kernel_new_handle_def intro!: yields_bind)

lemma new_object_handle_ok:
  assumes "kernel_ok k" "wakers_of obj = []" "arbiter_queue_distinct obj"
  shows "yields (new_object_handle draws obj k) (\<lambda>(_, k'). kernel_ok k')"
  using kernel_ok_step [OF new_object_step [OF assms(2,3)] assms(1)]
  by (auto simp: new_object_handle_def split: prod.split
      intro!: yields_seq [OF kernel_new_handle_ok])

section \<open>Threads\<close>

text \<open>Storing back a thread that was not waiting and does not wait.\<close>

lemma thread_at_put:
  assumes "thread_at s i = Some t" "ct_index t' = i"
  shows "thread_at (s\<lparr>sc_threads := put_thread i t' (sc_threads s)\<rparr>) j = (if j = i then Some t' else thread_at s j)"
proof (cases "j = i")
  case True
  then show ?thesis
    using assms unfolding thread_at_def put_thread_def by (simp add: find_update_first [where f = "\<lambda>_. t'"])
next
  case False
  have "find (\<lambda>u. ct_index u = j) (put_thread i t' (sc_threads s)) = find (\<lambda>u. ct_index u = j) (sc_threads s)"
    unfolding put_thread_def by (rule find_update_first_other) (use False assms(2) in auto)
  then show ?thesis using False by (simp add: thread_at_def)
qed

lemma sched_ok_put:
  assumes ok: "sched_ok s" and t: "thread_at s i = Some t" "ct_index t' = i"
    and keep: "\<And>w j. waits_on w j t \<Longrightarrow> waits_on w j t'"
    and wt: "ct_state t' = Waiting \<Longrightarrow> ct_wait_type t' \<noteq> None"
  shows "sched_ok (s\<lparr>sc_threads := put_thread i t' (sc_threads s)\<rparr>)"
proof -
  let ?s = "s\<lparr>sc_threads := put_thread i t' (sc_threads s)\<rparr>"
  have "map ct_index (sc_threads ?s) = map ct_index (sc_threads s)"
    using put_thread_indices [OF t(2)] by simp
  moreover have "object_at ?s = object_at s" by (simp add: object_at_def fun_eq_iff)
  moreover have "\<exists>u. thread_at ?s (wk_thread w) = Some u \<and> waits_on w j u"
    if queued: "object_at s j = Some obj" "w \<in> set (wakers_of obj)" for j obj w
  proof -
    obtain u where u: "thread_at s (wk_thread w) = Some u" "waits_on w j u"
      using queued_live [OF ok queued] by blast
    then show ?thesis using thread_at_put [OF t] keep t(1) by (cases "wk_thread w = i") auto
  qed
  ultimately show ?thesis
    using ok wt unfolding sched_ok_observe by (auto simp: thread_at_put [OF t] split: if_splits)
qed

lemma find_thread_at: "find_thread i (sc_threads s) = Ret t \<longleftrightarrow> thread_at s i = Some t"
  by (simp add: find_thread_def thread_at_def)

lemma not_waiting_waits [simp]: "ct_state t \<noteq> Waiting \<Longrightarrow> \<not> waits_on w j t"
  by (simp add: waits_on_def)

lemma kernel_ok_put:
  assumes ok: "kernel_ok k" and t: "find_thread i (sc_threads k) = Ret t" "ct_index t' = ct_index t"
    and keep: "\<And>w j. waits_on w j t \<Longrightarrow> waits_on w j t'"
    and wt: "ct_state t' = Waiting \<Longrightarrow> ct_wait_type t' \<noteq> None"
  shows "kernel_ok (k\<lparr>sc_threads := put_thread i t' (sc_threads k)\<rparr>)"
proof -
  have i: "ct_index t' = i" using find_thread_index [OF t(1)] t(2) by simp
  have "sched_ok (k\<lparr>sc_threads := put_thread i t' (sc_threads k)\<rparr>)"
    using sched_ok_put [OF kernel_ok_sched [OF ok] _ i keep wt] t(1) by (simp add: find_thread_at)
  then show ?thesis
    using ok put_thread_indices [OF i] by (simp add: kernel_ok_def thread_indices_def)
qed

section \<open>Calls that suspend the thread\<close>

lemma suspend_current_indices:
  assumes "suspend_current i objects timeout wt s = Ret (w, s')"
  shows "thread_indices s' = thread_indices s" "sched.more s' = sched.more s"
  using assms
  by (auto simp: suspend_current_def thread_wait_def thread_indices_def Let_def
      dest!: find_thread_index intro!: put_thread_indices)

text \<open>What a running thread finds after it suspended itself.\<close>

lemma suspend_thread_ok:
  assumes ok: "kernel_ok k" and run: "running k i t"
  shows "yields (suspend_thread objects timeout wt k) (\<lambda>(w, k1). kernel_ok k1 \<and>
    sc_objects k1 = sc_objects k \<and> (wt \<noteq> WaitSleep \<longrightarrow> (\<forall>j \<in> set objects.
      suspended_on k1 j w (suspended objects timeout wt t))))"
proof (rule yieldsI)
  fix x assume r: "suspend_thread objects timeout wt k = Ret x"
  obtain k1 where k1: "suspend_thread objects timeout wt k = Ret (\<lparr>wk_thread = i, wk_key = ct_wake_key t\<rparr>, k1)"
      "sched_ok k1" "thread_at k1 i = Some (suspended objects timeout wt t)" "sc_objects k1 = sc_objects k"
      "\<forall>j obj. object_at k1 j = Some obj \<longrightarrow> i \<notin> wk_thread ` set (wakers_of obj)"
    using suspend_thread_runs [OF kernel_ok_sched [OF ok] run] by blast
  have "thread_indices k1 = thread_indices k" "sched.more k1 = sched.more k"
    using k1(1) by (auto simp: suspend_thread_def dest: suspend_current_indices)
  then have "kernel_ok k1" using ok k1(2) kernel_tid [of k1 k] by (simp add: kernel_ok_def)
  moreover have "ct_index t = i" using running_index [OF kernel_ok_sched [OF ok] run] .
  ultimately show "case x of (w, k1) \<Rightarrow> kernel_ok k1 \<and> sc_objects k1 = sc_objects k \<and>
      (wt \<noteq> WaitSleep \<longrightarrow> (\<forall>j \<in> set objects. suspended_on k1 j w (suspended objects timeout wt t)))"
    using k1 r suspended_on_waits [OF k1(2,3) _ k1(5)] by auto
qed

text \<open>Putting the waker of the thread into the queue of one object keeps the invariant.\<close>

lemma kernel_ok_enqueue:
  assumes "kernel_ok k" "suspended_on k i w t"
    and "\<And>obj. object_at k i = Some obj \<Longrightarrow> set (wakers_of (f obj)) \<subseteq> insert w (set (wakers_of obj)) \<and>
      arbiter_queue_distinct (f obj)"
  shows "kernel_ok (map_object i f k)"
  using assms sched_ok_append [OF assms(2,3)] kernel_tid [of "map_object i f k" k]
  by (simp add: kernel_ok_def)

lemma sync_wait_ok:
  assumes "kernel_ok k" "suspended_on k i w t" "object_at k i = Some obj" "is_sync obj"
  shows "yields (sync_wait i w k) kernel_ok"
proof (rule yieldsI)
  fix k' assume r: "sync_wait i w k = Ret k'"
  have "sched_ok k'" using sync.wait_correct [OF assms(2-4)] r by auto
  then show "kernel_ok k'"
    using assms(1) indices.sync_wait_part [OF r] kernel_tid [OF rest.sync_wait_part [OF r]] by (simp add: kernel_ok_def)
qed

lemma same_objects: "sc_objects s' = sc_objects s \<Longrightarrow> object_at s' = object_at s"
  by (simp add: object_at_def fun_eq_iff)

lemma dyn_castD: "dyn_cast f s x = Some i \<Longrightarrow> x = Some i \<and> (\<exists>obj. object_at s i = Some obj \<and> f obj)"
  by (auto simp: dyn_cast_def bind_eq_Some_conv split: if_splits)

lemma wait_sync_1_ok:
  assumes ok: "kernel_ok k" and run: "running k i t"
  shows "yields (wait_sync_1 now handle timeout k) (\<lambda>(_, k'). kernel_ok k')"
  unfolding wait_sync_1_def Let_def
proof (intro yields_bind, goal_cases)
  case (1 object)
  show ?case
  proof (cases "dyn_cast is_sync k object")
    case (Some j)
    then obtain obj where obj: "object_at k j = Some obj" "is_sync obj" using dyn_castD by blast
    have wait: "kernel_ok k2"
      if "kernel_ok k1" "sc_objects k1 = sc_objects k" "suspended_on k1 j w t'" "sync_wait j w k1 = Ret k2"
      for w k1 k2 t'
      by (rule yieldsD [OF sync_wait_ok [OF that(1,3) _ obj(2)] that(4)])
        (use obj(1) same_objects [OF that(2)] in simp)
    show ?thesis
      using Some by (auto intro!: yields_bind yields_seq [OF suspend_thread_ok [OF ok run]] dest: wait)
  qed (use ok in simp)
qed

section \<open>Waiting for several objects\<close>

lemma sync_wait_unready:
  assumes "object_at s i = Some obj" "is_sync obj" "\<not> sync_ready obj"
  shows "sync_wait i w s = Ret (map_object i (sync_enqueue w) s)"
proof -
  have "\<exists>f. sync_wait i w s = Ret (map_object i f s) \<and> f obj = sync_enqueue w obj"
  proof (cases obj)
    case (Event e)
    then show ?thesis using assms
      by (auto simp: sync_wait_def event_wait_def event_at_def map_object_twice event_enqueue_def)
  next
    case (Timer e)
    then show ?thesis using assms
      by (auto simp: sync_wait_def timer_wait_def timer_at_def map_object_twice timer_enqueue_def)
  next
    case (Mutex e)
    then show ?thesis using assms
      by (auto simp: sync_wait_def mutex_wait_def mutex_at_def map_object_twice mutex_enqueue_def Let_def)
  next
    case (ThreadObject e)
    then show ?thesis using assms
      by (auto simp: sync_wait_def thread_object_wait_def thread_object_at_def thread_object_enqueue_def)
  qed (use assms in \<open>auto simp: sync_wait_def server_port_wait_def client_port_wait_def
      server_session_wait_def client_session_wait_def\<close>)
  then show ?thesis using map_object_eq [OF assms(1)] by metis
qed

lemma sync_enqueue_simps [simp]:
  "is_sync (sync_enqueue w obj) = is_sync obj" "sync_ready (sync_enqueue w obj) = sync_ready obj"
  by (cases obj; simp add: event_enqueue_def timer_enqueue_def mutex_enqueue_def thread_object_enqueue_def)+

lemma wait_all_unready:
  assumes "sched_ok s" "thread_at s (wk_thread w) = Some t" "\<forall>i \<in> set is. waits_on w i t"
    and "\<forall>i \<in> set is. \<exists>obj. object_at s i = Some obj \<and> is_sync obj \<and> \<not> sync_ready obj"
  shows "\<exists>s'. fold_res (wait_object w) is s = Ret s' \<and> sched_ok s'"
  using assms
proof (induction "is" arbitrary: s)
  case (Cons i "is")
  obtain obj where obj: "object_at s i = Some obj" "is_sync obj" "\<not> sync_ready obj"
    using Cons.prems(4) by auto
  have step: "wait_object w i s = Ret (map_object i (sync_enqueue w) s)"
    using sync_wait_unready [OF obj] obj by (simp add: wait_object_def dyn_cast_def)
  have ok: "sched_ok (map_object i (sync_enqueue w) s)"
    using Cons.prems(1-3) sync.enqueue_wakers [OF obj(2)] sync.not_arbiter [OF obj(2)] obj(1)
    by (intro sched_ok_enqueue) auto
  have "\<exists>s'. fold_res (wait_object w) is (map_object i (sync_enqueue w) s) = Ret s' \<and> sched_ok s'"
    by (rule Cons.IH [OF ok]) (use Cons.prems(2-4) in auto)
  then show ?case using step by simp
qed simp

text \<open>
  The waits for several objects that leave no waker behind: for at most one object, or for
  objects none of which is ready (servers wait like this: ports and sessions never are).  See
  \<open>wait_sync_n_leaves_stale_waker\<close> for the others.
\<close>

definition wait_n_safe :: "handle option list \<Rightarrow> ('t, 'p) kernel \<Rightarrow> bool" where
  "wait_n_safe handles k \<longleftrightarrow>
     (case lookup_objects handles k of
        Ret objects \<Rightarrow> length objects \<le> 1 \<or>
          list_all (\<lambda>i. case object_at k i of Some obj \<Rightarrow> is_sync obj \<and> \<not> sync_ready obj | None \<Rightarrow> False) objects
      | _ \<Rightarrow> True)"

lemma kernel_ok_from_sched:
  assumes "kernel_ok k" "sched_ok k'" "thread_indices k' = thread_indices k" "sched.more k' = sched.more k"
  shows "kernel_ok k'"
  using assms kernel_tid [OF assms(4)] by (simp add: kernel_ok_def)

lemma wait_object_found: "wait_object w i s = Ret s' \<Longrightarrow> \<exists>obj. object_at s i = Some obj \<and> is_sync obj"
  by (auto simp: wait_object_def split: option.splits dest: dyn_castD)

lemma wait_objects_ok:
  assumes ok: "kernel_ok k1" and objs: "\<forall>i \<in> set objs. suspended_on k1 i w t"
    and safe: "length objs \<le> 1 \<or>
      (\<forall>i \<in> set objs. \<exists>obj. object_at k1 i = Some obj \<and> is_sync obj \<and> \<not> sync_ready obj)"
  shows "yields (fold_res (wait_object w) objs k1) kernel_ok"
proof (rule yieldsI)
  fix k2 assume r: "fold_res (wait_object w) objs k1 = Ret k2"
  have "sched_ok k2"
  proof (cases objs)
    case Nil
    then show ?thesis using r ok by (simp add: kernel_ok_sched)
  next
    case (Cons i "is")
    have s: "suspended_on k1 i w t" using objs Cons by simp
    from safe show ?thesis
    proof
      assume "length objs \<le> 1"
      then have "sync_wait i w k1 = Ret k2" "\<exists>obj. object_at k1 i = Some obj \<and> is_sync obj"
        using r Cons wait_object_found [of w i k1]
        by (auto simp: wait_object_def split: option.splits dest: dyn_castD)
      then show ?thesis using sync_wait_ok [OF ok s] by (auto dest: yieldsD kernel_ok_sched)
    next
      assume none: "\<forall>i \<in> set objs. \<exists>obj. object_at k1 i = Some obj \<and> is_sync obj \<and> \<not> sync_ready obj"
      have "\<forall>i \<in> set objs. waits_on w i t" using objs by (simp add: suspended_on_def)
      then show ?thesis
        using wait_all_unready [of k1 w t objs] s none r kernel_ok_sched [OF ok] by (auto simp: suspended_on_def)
    qed
  qed
  moreover have "thread_indices k2 = thread_indices k1" "sched.more k2 = sched.more k1"
    using indices.fold_part [OF indices.wait_object_part r] rest.fold_part [OF rest.wait_object_part r] by simp_all
  ultimately show "kernel_ok k2" using kernel_ok_from_sched [OF ok] by simp
qed

lemma wait_n_safeD:
  assumes "wait_n_safe handles k" "lookup_objects handles k = Ret objs" "sc_objects k1 = sc_objects k"
  shows "length objs \<le> 1 \<or>
    (\<forall>i \<in> set objs. \<exists>obj. object_at k1 i = Some obj \<and> is_sync obj \<and> \<not> sync_ready obj)"
  using assms same_objects [OF assms(3)] by (auto simp: wait_n_safe_def list_all_iff split: option.splits)

lemma wait_sync_n_ok:
  assumes ok: "kernel_ok k" and run: "running k i t" and safe: "wait_n_safe handles k"
  shows "yields (wait_sync_n now handles wait_all timeout k) (\<lambda>(_, k'). kernel_ok k')"
  unfolding wait_sync_n_def Let_def
proof (intro yields_bind, goal_cases)
  case (1 u objs base absolute x)
  obtain w k1 where x: "x = (w, k1)" by (cases x)
  have k1: "kernel_ok k1" "sc_objects k1 = sc_objects k"
    "\<forall>j \<in> set objs. suspended_on k1 j w (suspended objs absolute WaitSyncN t)"
    using yieldsD [OF suspend_thread_ok [OF ok run] 1(5)] x by auto
  show ?case
    using wait_objects_ok [OF k1(1,3) wait_n_safeD [OF safe 1(2) k1(2)]] x
    by (auto intro!: yields_bind dest: yieldsD)
qed

section \<open>Calls on ports and sessions\<close>

text \<open>A thread that is not waiting does not notice the waking of others.\<close>

lemma woken_others:
  assumes "sched_ok s" "object_at s i = Some obj" "set ws \<subseteq> set (wakers_of obj)" "all_woken i ws s s'"
    and "thread_at s j = Some t" "ct_state t \<noteq> Waiting"
  shows "thread_at s' j = Some t"
proof -
  have "j \<notin> wk_thread ` set ws"
  proof
    assume "j \<in> wk_thread ` set ws"
    then obtain w where "w \<in> set (wakers_of obj)" "wk_thread w = j" using assms(3) by auto
    then show False using queued_live [OF assms(1,2)] assms(5,6) by fastforce
  qed
  then show ?thesis using assms(4,5) by (simp add: all_woken_def)
qed

lemma server_port_wake_running:
  assumes ok: "sched_ok s" and r: "server_port_wake_thread i s = Ret s'"
    and t: "thread_at s j = Some t" "ct_state t \<noteq> Waiting"
  shows "thread_at s' j = Some t"
proof -
  obtain p where p: "object_at s i = Some (ServerPort p)" using r by (auto simp: server_port_wake_thread_def)
  have "all_woken i (take 1 (sp_queue p)) s s'" using server_port_wake [OF ok p] r by auto
  then show ?thesis
    using woken_others [OF ok p _ _ t, of "take 1 (sp_queue p)"] set_take_subset [of 1 "sp_queue p"] by simp
qed

lemma client_session_wake_running:
  assumes ok: "sched_ok s" and r: "client_session_wake_thread i s = Ret s'"
    and t: "thread_at s j = Some t" "ct_state t \<noteq> Waiting"
  shows "thread_at s' j = Some t"
proof -
  obtain x where x: "object_at s i = Some (ClientSession x)" using r by (auto simp: client_session_wake_thread_def)
  have "all_woken i (take 1 (cs_queue x)) s s'" using client_session_wake [OF ok x] r by auto
  then show ?thesis
    using woken_others [OF ok x _ _ t, of "take 1 (cs_queue x)"] set_take_subset [of 1 "cs_queue x"] by simp
qed

lemma running_frame:
  "\<lbrakk>running k i t; sched.more k' = sched.more k; thread_at k' i = thread_at k i\<rbrakk> \<Longrightarrow> running k' i t"
  using kernel_fields(3) [of k' k] by (simp add: running_def)

lemma port_create_session_ok:
  assumes ok: "kernel_ok k" and run: "running k i t"
  shows "yields (port_create_session alive port x k) (\<lambda>k'. kernel_ok k' \<and> running k' i t)"
proof (rule yieldsI)
  fix k' assume r: "port_create_session alive port x k = Ret k'"
  then have step: "sched_step k k'" using port_create_session_step by (rule yieldsD [rotated])
  obtain j where wake: "server_port_wake_thread j
      (map_object j (map_server_port (\<lambda>p. p\<lparr>sp_sessions := sp_sessions p @ [x]\<rparr>)) k) = Ret k'"
    using r by (auto simp: port_create_session_def enqueue_session_def)
  have "sched_ok (map_object j (map_server_port (\<lambda>p. p\<lparr>sp_sessions := sp_sessions p @ [x]\<rparr>)) k)"
    using sched_step_with_queue [of "map_server_port (\<lambda>p. p\<lparr>sp_sessions := sp_sessions p @ [x]\<rparr>)" k j]
      kernel_ok_sched [OF ok] by (simp add: sched_step_def)
  from server_port_wake_running [OF this wake] have "thread_at k' i = thread_at k i"
    using run by (simp add: running_def)
  then show "kernel_ok k' \<and> running k' i t"
    using kernel_ok_step [OF step ok] running_frame [OF run rest.port_create_session_part [OF r]] by simp
qed

lemma map_server_session_client [simp]:
  "wakers_of (map_server_session (\<lambda>x. x\<lparr>ss_client := h x\<rparr>) obj) = wakers_of obj"
  by (cases obj) simp_all

lemma make_session_pair_ok:
  assumes ok: "kernel_ok k" and run: "running k i t"
  shows "kernel_ok (snd (make_session_pair k)) \<and> running (snd (make_session_pair k)) i t"
proof -
  let ?s = "ServerSession \<lparr>ss_queue = [], ss_requests = [], ss_client = None\<rparr>"
  let ?k1 = "snd (new_object ?s k)"
  let ?c = "ClientSession \<lparr>cs_queue = [], cs_server = length (sc_objects k)\<rparr>"
  let ?k2 = "snd (new_object ?c ?k1)"
  have k2: "kernel_ok ?k2"
    using kernel_ok_step [OF new_object_step, of ?c ?k1] kernel_ok_step [OF new_object_step, of ?s k] ok by simp
  have "sched_step ?k2 (map_object j (map_server_session (\<lambda>x. x\<lparr>ss_client := c\<rparr>)) ?k2)" for j c
    by (rule sched_step_map_object) simp
  from kernel_ok_step [OF this k2] show ?thesis
    using run by (simp add: make_session_pair_def new_object_def running_def thread_at_def map_object_def)
qed

text \<open>The same facts about a call that returned.\<close>

lemma suspend_threadD:
  assumes "suspend_thread objects timeout wt k = Ret (w, k1)" "kernel_ok k" "running k i t"
  shows "kernel_ok k1" "sc_objects k1 = sc_objects k"
    "\<lbrakk>wt \<noteq> WaitSleep; j \<in> set objects\<rbrakk> \<Longrightarrow> suspended_on k1 j w (suspended objects timeout wt t)"
  using yieldsD [OF suspend_thread_ok [OF assms(2,3)] assms(1)] by auto

lemma kernel_new_handleD: "\<lbrakk>kernel_new_handle draws obj k = Ret (h, k'); kernel_ok k\<rbrakk> \<Longrightarrow> kernel_ok k'"
  using yieldsD [OF kernel_new_handle_ok] by fastforce

lemma kernel_ok_distinct: "\<lbrakk>kernel_ok k; object_at k i = Some obj\<rbrakk> \<Longrightarrow> arbiter_queue_distinct obj"
  by (auto simp: kernel_ok_def sched_ok_observe)

lemma queue_wakers:
  "set (wakers_of (map_client_port (\<lambda>p. p\<lparr>cp_queue := cp_queue p @ [w]\<rparr>) obj)) \<subseteq> insert w (set (wakers_of obj))"
  "set (wakers_of (map_server_port (\<lambda>p. p\<lparr>sp_queue := sp_queue p @ [w]\<rparr>) obj)) \<subseteq> insert w (set (wakers_of obj))"
  "set (wakers_of (map_client_session (\<lambda>x. x\<lparr>cs_queue := cs_queue x @ [w]\<rparr>) obj)) \<subseteq> insert w (set (wakers_of obj))"
  by (cases obj; auto)+

lemma map_queue_distinct [simp]:
  "arbiter_queue_distinct (map_client_port f obj) = arbiter_queue_distinct obj"
  "arbiter_queue_distinct (map_client_session g obj) = arbiter_queue_distinct obj"
  by (cases obj; simp)+

lemma client_port_waitD:
  assumes "client_port_wait i w k = Ret k'" "kernel_ok k" "suspended_on k i w t"
  shows "kernel_ok k'"
proof -
  have "kernel_ok (map_object i (map_client_port (\<lambda>p. p\<lparr>cp_queue := cp_queue p @ [w]\<rparr>)) k)"
    by (rule kernel_ok_enqueue [OF assms(2,3)])
      (simp add: queue_wakers kernel_ok_distinct [OF assms(2)])
  then show ?thesis using assms(1) by (simp add: client_port_wait_def)
qed

lemma server_port_waitD:
  assumes "server_port_wait i w k = Ret k'" "kernel_ok k" "suspended_on k i w t"
  shows "kernel_ok k'"
proof -
  have "kernel_ok (map_object i (map_server_port (\<lambda>p. p\<lparr>sp_queue := sp_queue p @ [w]\<rparr>)) k)"
    by (rule kernel_ok_enqueue [OF assms(2,3)])
      (simp add: queue_wakers kernel_ok_distinct [OF assms(2)])
  then show ?thesis using assms(1) by (simp add: server_port_wait_def)
qed

lemma sync_requestD:
  assumes r: "sync_request alive i w k = Ret (b, k')" and ok: "kernel_ok k" "suspended_on k i w t"
  shows "kernel_ok k'"
proof -
  let ?k = "map_object i (map_client_session (\<lambda>x. x\<lparr>cs_queue := cs_queue x @ [w]\<rparr>)) k"
  have ok1: "kernel_ok ?k"
    by (rule kernel_ok_enqueue [OF ok]) (simp add: queue_wakers kernel_ok_distinct [OF ok(1)])
  obtain c where c: "object_at k i = Some (ClientSession c)" using r by (auto simp: sync_request_def)
  show ?thesis
  proof (cases "upgrade alive (cs_server c)")
    case None
    then show ?thesis using r c ok by (simp add: sync_request_def client_session_at_def)
  next
    case (Some j)
    let ?k2 = "map_object j (map_server_session (\<lambda>x. x\<lparr>ss_requests := ss_requests x @ [wk_thread w]\<rparr>)) ?k"
    have "server_session_wake_thread j ?k2 = Ret k'"
      using r c Some by (simp add: sync_request_def client_session_at_def enqueue_sync_request_def)
    then have "sched_step ?k2 k'" using yieldsD [OF server_session_wake_step] by blast
    then have "sched_step ?k k'" by (rule sched_step_after_map) simp_all
    then show ?thesis using ok1 by (rule kernel_ok_step)
  qed
qed

lemma create_session_to_port_ok:
  assumes ok: "kernel_ok k" and run: "running k i t"
  shows "yields (create_session_to_port alive draws handle k) (\<lambda>(_, k'). kernel_ok k')"
  unfolding create_session_to_port_def Let_def
proof (intro yields_bind, goal_cases)
  case (1 object)
  show ?case
  proof (cases "dyn_cast is_client_port k object")
    case (Some port)
    obtain server client k1 where k1: "make_session_pair k = ((server, client), k1)"
      by (metis prod.collapse)
    then have ok1: "kernel_ok k1" "running k1 i t" using make_session_pair_ok [OF ok run] by simp_all
    have done_ok: "kernel_ok k5"
      if "kernel_ok k2 \<and> running k2 i t" "suspend_thread [port] None WaitSync1 k2 = Ret (w, k3)"
        "client_port_wait port w k3 = Ret k4" "kernel_new_handle draws client k4 = Ret (h, k5)"
      for k2 k3 k4 k5 w h
    proof -
      have "kernel_ok k3" "suspended_on k3 port w (suspended [port] None WaitSync1 t)"
        using suspend_threadD(1) [OF that(2), of i t] suspend_threadD(3) [OF that(2), of i t port] that(1) by simp_all
      then show ?thesis using client_port_waitD [OF that(3)] kernel_new_handleD [OF that(4)] by blast
    qed
    show ?thesis
      using Some k1
      by (auto intro!: yields_bind yields_seq [OF port_create_session_ok [OF ok1]] intro: done_ok)
  qed (use ok in simp)
qed

lemma accept_session_none: "accept_session alive i s = Ret (None, s') \<Longrightarrow> s' = s"
  by (clarsimp simp: accept_session_def) (auto split: list.split_asm)

lemma svc_accept_session_ok:
  assumes ok: "kernel_ok k" and run: "running k i t"
  shows "yields (svc_accept_session alive draws handle k) (\<lambda>(_, k'). kernel_ok k')"
  unfolding svc_accept_session_def
proof (intro yields_bind, goal_cases)
  case (1 object)
  show ?case
  proof (cases "dyn_cast is_server_port k object")
    case (Some port)
    show ?thesis unfolding Some option.case
    proof (intro yields_bind, goal_cases)
      case (1 x)
      obtain session k1 where x: "x = (session, k1)" by (cases x)
      have ok1: "kernel_ok k1"
        using yieldsD [OF accept_session_step 1] kernel_ok_step [OF _ ok] x by auto
      show ?case
      proof (cases session)
        case None
        then have "k1 = k" using 1 x accept_session_none by auto
        have "kernel_ok k3" if "suspend_thread [port] None WaitSync1 k = Ret (w, k2)" "server_port_wait port w k2 = Ret k3"
          for w k2 k3
          using suspend_threadD(1,3) [OF that(1) ok run] server_port_waitD [OF that(2)] by simp
        then show ?thesis using None x \<open>k1 = k\<close> by (auto intro!: yields_bind)
      next
        case (Some y)
        then show ?thesis using x ok1 by (auto intro!: yields_bind dest: kernel_new_handleD)
      qed
    qed
  qed (use ok in simp)
qed

lemma send_sync_request_ok:
  assumes ok: "kernel_ok k" and run: "running k i t"
  shows "yields (send_sync_request alive handle k) (\<lambda>(_, k'). kernel_ok k')"
proof -
  have sent: "kernel_ok k2"
    if "suspend_thread [j] None WaitSync1 k = Ret (w, k1)" "sync_request alive j w k1 = Ret (b, k2)" for j w b k1 k2
    using suspend_threadD(1,3) [OF that(1) ok run] sync_requestD [OF that(2)] by simp
  show ?thesis
    unfolding send_sync_request_def
    by (auto simp: ok intro!: yields_bind split: option.split) (erule (1) sent)
qed

lemma wait_on_arbiter_ok:
  assumes ok: "kernel_ok k" and run: "running k i t" and a: "object_at k a = Some (Arbiter ab)"
    and r: "suspend_thread [a] timeout WaitArbiter k = Ret (w, k1)"
  shows "kernel_ok (arbiter_wait a w addr k1)"
proof -
  have s: "kernel_ok k1" "suspended_on k1 a w (suspended [a] timeout WaitArbiter t)"
    using suspend_threadD(1,3) [OF r ok run] by simp_all
  have a1: "object_at k1 a = Some (Arbiter ab)" using a same_objects [OF suspend_threadD(2) [OF r ok run]] by simp
  then have "wk_thread w \<notin> wk_thread ` set (wakers_of (Arbiter ab :: 'a kobj))"
    using s(2) unfolding suspended_on_def by blast
  moreover have "distinct (map (wk_thread \<circ> fst) (ab_queue ab))"
    using kernel_ok_distinct [OF s(1) a1] by simp
  ultimately show ?thesis
    unfolding arbiter_wait_def using a1
    by (intro kernel_ok_enqueue [OF s]) (auto simp: image_iff)
qed

section \<open>Threads that start and end\<close>

lemma exit_thread_ok:
  assumes ok: "kernel_ok k" and run: "running k i t"
  shows "yields (exit_thread k) kernel_ok"
proof (rule yieldsI)
  fix k' assume r: "exit_thread k = Ret k'"
  have t: "find_thread i (sc_threads k) = Ret t" "ct_state t = Running" "current_pid_tid k = Ret (p, j) \<Longrightarrow> j = i" for p j
    using run by (auto simp: running_def find_thread_at current_pid_tid_def)
  let ?k = "k\<lparr>sc_threads := put_thread i (t\<lparr>ct_state := Done\<rparr>) (sc_threads k)\<rparr>"
  have "thread_object_exit (ct_kobj t) ?k = Ret k'"
    using r t by (auto simp: exit_thread_def)
  then have "sched_step ?k k'" using yieldsD [OF thread_object_exit_step] by blast
  moreover have "kernel_ok ?k" using ok t by (intro kernel_ok_put [OF ok t(1)]) simp_all
  ultimately show "kernel_ok k'" by (rule kernel_ok_step)
qed

lemma thread_at_index: "thread_at s i = Some t \<Longrightarrow> ct_index t = i"
  by (auto simp: thread_at_def find_Some_iff)

lemma sched_ok_add_thread:
  assumes "sched_ok s" "ct_index t \<notin> set (map ct_index (sc_threads s))" "ct_state t \<noteq> Waiting"
  shows "sched_ok (s\<lparr>sc_threads := sc_threads s @ [t]\<rparr>)"
  using assms by (auto simp: sched_ok_def queues_live_def)

lemma new_thread_ok:
  assumes ok: "kernel_ok k"
  shows "yields (new_thread pid thread k) (\<lambda>(_, k'). kernel_ok k')"
proof (rule yieldsI)
  fix x assume r: "new_thread pid thread k = Ret x"
  let ?i = "unat (k_next_tid k)" and ?j = "length (sc_objects k)"
  let ?k1 = "snd (new_object (ThreadObject (thread_object_new ?i)) k)"
  let ?t = "thread_new pid ?i ?j"
  let ?k2 = "?k1\<lparr>sc_threads := sc_threads ?k1 @ [?t]\<rparr>"
  have step: "sched_step k ?k1" by (rule new_object_step) (simp_all add: thread_object_new_def)
  then have ok1: "sched_ok ?k1" "thread_indices ?k1 = thread_indices k"
    using ok by (simp_all add: sched_step_def kernel_ok_def)
  have fresh: "?i \<notin> set (map ct_index (sc_threads ?k1))"
    using ok ok1(2) by (auto simp: kernel_ok_def thread_indices_def)
  have "sched_ok ?k2" using ok1(1) fresh by (intro sched_ok_add_thread) (simp_all add: thread_new_def)
  moreover obtain k' n where k': "x = ((?i, ?j), k')" "sc_objects k' = sc_objects ?k2"
      "sc_threads k' = sc_threads ?k2" "k_next_tid k' = n" "unat n = Suc ?i"
    using r by (auto simp: new_thread_def new_object_def Let_def cadd_def checked_add_def
        unat_plus_if' split: option.splits if_splits)
  ultimately have "sched_ok k'" by (simp add: sched_ok_def)
  moreover have "thread_indices k' = thread_indices k @ [?i]"
    using k'(3) ok1(2) by (simp add: thread_indices_def thread_new_def)
  ultimately show "case x of (_, k') \<Rightarrow> kernel_ok k'"
    using ok k' by (auto simp: kernel_ok_def)
qed

lemma new_threadD: "new_thread pid thread k = Ret (x, k') \<Longrightarrow> kernel_ok k \<Longrightarrow> kernel_ok k'"
  using yieldsD [OF new_thread_ok] by fastforce

section \<open>Messages\<close>

lemma set_thread_ipc_data_ok:
  "kernel_ok k \<Longrightarrow> yields (set_thread_ipc_data data k) kernel_ok"
  by (auto simp: set_thread_ipc_data_def waits_on_def intro!: yields_bind kernel_ok_put)
    (auto simp: kernel_ok_def sched_ok_observe find_thread_at)

lemma find_thread_pair_second:
  assumes dist: "distinct (map ct_index ts)" and r: "find_thread_pair (a, b) ts = Ret (x, y)"
  shows "find_thread b ts = Ret y"
proof -
  obtain u v vs where uv: "filter (\<lambda>t. ct_index t = a \<or> ct_index t = b) ts = u # v # vs"
      and y: "y = (if ct_index u = b then u else v)"
    using r by (auto simp: find_thread_pair_def split: list.splits if_splits)
  have "distinct (map ct_index (u # v # vs))" using distinct_map_filter [OF dist] uv by metis
  moreover have mem: "u \<in> set ts" "v \<in> set ts" and "ct_index u = a \<or> ct_index u = b" "ct_index v = a \<or> ct_index v = b"
    using uv [THEN arg_cong, of set] by auto
  ultimately have "y \<in> set ts \<and> ct_index y = b" using y by auto
  then show ?thesis using find_thread_iff [OF dist] by simp
qed

lemma translate_ipc_ok:
  assumes ok: "kernel_ok k"
  shows "yields (translate_ipc draws src dest reply k)
    (\<lambda>k'. kernel_ok k' \<and> (\<forall>i t. running k i t \<longrightarrow> (\<exists>t'. running k' i t')))"
proof (rule yieldsI)
  fix k' assume r: "translate_ipc draws src dest reply k = Ret k'"
  obtain s t ps data where st: "find_thread_pair (src, dest) (sc_threads k) = Ret (s, t)"
      and k': "k' = k\<lparr>k_processes := ps,
        sc_threads := put_thread dest (t\<lparr>ct_ipc_data := data\<rparr>) (sc_threads k)\<rparr>"
    using r by (auto simp: translate_ipc_def Let_def)
  have t: "find_thread dest (sc_threads k) = Ret t"
    using find_thread_pair_second [OF _ st] ok by (simp add: kernel_ok_def sched_ok_def)
  have "kernel_ok (k\<lparr>sc_threads := put_thread dest (t\<lparr>ct_ipc_data := data\<rparr>) (sc_threads k)\<rparr>)"
    using ok t by (intro kernel_ok_put [OF ok t])
      (auto simp: waits_on_def kernel_ok_def sched_ok_observe find_thread_at)
  moreover have "k' = k\<lparr>sc_threads := put_thread dest (t\<lparr>ct_ipc_data := data\<rparr>) (sc_threads k)\<rparr>\<lparr>k_processes := ps\<rparr>"
    using k' by simp
  ultimately have "kernel_ok k'" by simp
  moreover have "\<exists>u'. running k' i u'" if "running k i u" for i u
  proof -
    have "thread_at k' i = (if i = dest then Some (t\<lparr>ct_ipc_data := data\<rparr>) else thread_at k i)"
      using thread_at_put [of k dest t "t\<lparr>ct_ipc_data := data\<rparr>" i] t find_thread_index [OF t]
      by (simp add: find_thread_at k' thread_at_def)
    then show ?thesis using that t by (auto simp: running_def find_thread_at k')
  qed
  ultimately show "kernel_ok k' \<and> (\<forall>i t. running k i t \<longrightarrow> (\<exists>t'. running k' i t'))" by blast
qed

lemma session_receive_ok:
  assumes ok: "kernel_ok k"
  shows "yields (session_receive draws this i k) (\<lambda>(_, k'). kernel_ok k')"
  using yieldsD [OF translate_ipc_ok [OF ok]] ok
  by (auto simp: session_receive_def intro!: yields_bind split: list.split)

lemma session_reply_ok:
  assumes ok: "kernel_ok k" and run: "running k i t"
  shows "yields (session_reply alive draws this j k) (\<lambda>k'. kernel_ok k' \<and> (\<exists>t'. running k' i t'))"
proof (rule yieldsI)
  fix k' assume r: "session_reply alive draws this j k = Ret k'"
  obtain request rest client k2 where
      k2: "translate_ipc draws j request True
        (map_object this (map_server_session (\<lambda>x. x\<lparr>ss_requests := rest\<rparr>)) k) = Ret k2"
      and k': "client_session_wake_thread client k2 = Ret k'"
    using r by (clarsimp simp: session_reply_def) (auto simp: enqueue_response_def Let_def split: list.split_asm)
  let ?k1 = "map_object this (map_server_session (\<lambda>x. x\<lparr>ss_requests := rest\<rparr>)) k"
  have "sched_step k ?k1" by (rule sched_step_with_queue) simp_all
  then have "kernel_ok ?k1" using ok by (rule kernel_ok_step)
  from yieldsD [OF translate_ipc_ok [OF this] k2]
  have ok2: "kernel_ok k2" and "\<forall>i t. running ?k1 i t \<longrightarrow> (\<exists>t'. running k2 i t')" by simp_all
  moreover have "running ?k1 i t" using run running_frame [OF run, of ?k1] by simp
  ultimately obtain t2 where t2: "running k2 i t2" by blast
  then have "thread_at k' i = thread_at k2 i"
    using client_session_wake_running [OF kernel_ok_sched [OF ok2] k'] by (simp add: running_def)
  then show "kernel_ok k' \<and> (\<exists>t'. running k' i t')"
    using kernel_ok_step [OF yieldsD [OF client_session_wake_step k'] ok2]
      running_frame [OF t2 rest.client_session_wake_part [OF k']] by blast
qed

section \<open>The other calls\<close>

lemma release_mutex_ok: "kernel_ok k \<Longrightarrow> yields (release_mutex handle k) (\<lambda>(_, k'). kernel_ok k')"
  unfolding release_mutex_def
  by (auto intro!: yields_bind split: option.split dest!: yieldsD [OF mutex_release_step])
    (erule (1) kernel_ok_step)

lemma signal_event_ok: "kernel_ok k \<Longrightarrow> yields (signal_event handle k) (\<lambda>(_, k'). kernel_ok k')"
  unfolding signal_event_def
  by (auto intro!: yields_bind split: option.split dest!: yieldsD [OF event_signal_step])
    (erule (1) kernel_ok_step)

lemma close_handle_ok: "kernel_ok k \<Longrightarrow> yields (close_handle handle k) (\<lambda>(_, k'). kernel_ok k')"
  unfolding close_handle_def by (auto intro!: yields_bind split: option.split prod.split)

lemma map_signal_wakers [simp]:
  "wakers_of (map_event (\<lambda>e. e\<lparr>ev_signal := f e\<rparr>) obj) = wakers_of obj"
  "arbiter_queue_distinct (map_event g obj) = arbiter_queue_distinct obj"
  "wakers_of (map_timer (\<lambda>t. t\<lparr>tm_next_ns := h t, tm_interval := h' t\<rparr>) obj) = wakers_of obj"
  "arbiter_queue_distinct (map_timer g' obj) = arbiter_queue_distinct obj"
  by (cases obj; simp)+

lemma event_clear_ok: "kernel_ok k \<Longrightarrow> kernel_ok (event_clear i k)"
  unfolding event_clear_def by (rule kernel_ok_step [OF sched_step_with_queue]) simp_all

lemma timer_set_ok: "kernel_ok k \<Longrightarrow> kernel_ok (timer_set i a b k)"
  unfolding timer_set_def by (rule kernel_ok_step [OF sched_step_with_queue]) simp_all

lemma arbiter_signal_ok: "kernel_ok k \<Longrightarrow> yields (arbiter_signal i n a k) (\<lambda>(_, k'). kernel_ok k')"
  by (rule yields_mono [OF arbiter_signal_step]) (auto dest: kernel_ok_step)

lemma new_process_ok: "kernel_ok k \<Longrightarrow> yields (new_process name p k) (\<lambda>(_, k'). kernel_ok k')"
  unfolding new_process_def Let_def
  by (intro yields_bind) (auto intro: kernel_ok_cong [THEN iffD2])

lemma make_port_pair_ok:
  assumes "kernel_ok k"
  shows "kernel_ok (snd (make_port_pair k))"
proof -
  let ?s = "ServerPort \<lparr>sp_queue = [], sp_sessions = [], sp_client = None\<rparr>"
  let ?k1 = "snd (new_object ?s k)"
  let ?c = "ClientPort \<lparr>cp_queue = [], cp_server = length (sc_objects k)\<rparr>"
  let ?k2 = "snd (new_object ?c ?k1)"
  have wakers: "wakers_of (map_server_port (\<lambda>p. p\<lparr>sp_client := c\<rparr>) obj) = wakers_of obj" for c and obj :: "'a kobj"
    by (cases obj) simp_all
  have k2: "kernel_ok ?k2"
    using kernel_ok_step [OF new_object_step, of ?c ?k1] kernel_ok_step [OF new_object_step, of ?s k] assms by simp
  have "sched_step ?k2 (map_object j (map_server_port (\<lambda>p. p\<lparr>sp_client := c\<rparr>)) ?k2)" for j c
    by (rule sched_step_map_object) (simp add: wakers)
  from kernel_ok_step [OF this k2] show ?thesis
    by (simp add: make_port_pair_def new_object_def)
qed

end
