(* ===== verification/CallRelations.thy ===== *)
theory CallRelations
  imports Execution Translation
begin

text \<open>
  What every call of the thread interface keeps. The locale \<open>call_relation\<close> states the few steps a
  relation between kernels has to survive, those that touch processes, threads or boxes; inside it
  the relation is carried through every call, and it is interpreted for the well-formedness of the
  handle tables here and for the growth of the kernel in \<open>Turns\<close>.
\<close>

section \<open>Who lives in the kernel\<close>

definition thread_ids :: "('t, 'z) sched_scheme \<Rightarrow> (tid \<times> u32) list" where
  "thread_ids s = map (\<lambda>t. (ct_index t, ct_pid t)) (sc_threads s)"

definition process_ids :: "('t, 'p) kernel \<Rightarrow> u32 list" where
  "process_ids k = map (\<lambda>p. cp_pid (fst p)) (k_processes k)"

lemma put_thread_ids:
  "\<lbrakk>find_thread i ts = Ret t; ct_index t' = ct_index t; ct_pid t' = ct_pid t\<rbrakk> \<Longrightarrow>
     map (\<lambda>t. (ct_index t, ct_pid t)) (put_thread i t' ts) = map (\<lambda>t. (ct_index t, ct_pid t)) ts"
  unfolding find_thread_def put_thread_def by (induction ts) (auto split: if_splits)

lemma wake_up_ids: "wake_up r objs t = Ret (t', objs') \<Longrightarrow> ct_index t' = ct_index t \<and> ct_pid t' = ct_pid t"
  by (auto simp: wake_up_def Let_def)

text \<open>What steps of the scheduler's state leave alone: everything but objects, and of the threads who
  they are.\<close>

definition house :: "('t, 'z) sched_scheme \<Rightarrow> 'z \<times> (tid \<times> u32) list" where
  "house s = (sched.more s, thread_ids s)"

interpretation house: untouched house
proof
  fix w i s b s' assume r: "waker_wake w i s = Ret (b, s')"
  then have "thread_ids s' = thread_ids s"
    by (auto simp: thread_ids_def waker_wake_def wake_up_thread_def simp del: find_thread_at split: if_splits
        dest!: wake_up_ids intro: put_thread_ids)
  then show "house s' = house s" using rest.waker_wake_part [OF r] by (simp add: house_def)
qed (simp add: house_def thread_ids_def map_object_def)

lemma put_process_ids:
  "cp_pid p = pid \<Longrightarrow> map (\<lambda>p. cp_pid (fst p)) (put_process pid p ps) = map (\<lambda>p. cp_pid (fst p)) ps"
  unfolding put_process_def by (induction ps) auto

lemma process_same_pid:
  "process_new_handle draws obj p = Ret (h, p') \<Longrightarrow> cp_pid p' = cp_pid p"
  "process_close_handle h p = (ok, p') \<Longrightarrow> cp_pid p' = cp_pid p"
  "process_lookup_close_handle h p = (x, p') \<Longrightarrow> cp_pid p' = cp_pid p"
  by (auto simp: process_new_handle_def process_close_handle_def process_lookup_close_handle_def split: prod.splits)

section \<open>Messages and the processes they cross\<close>

lemma update_process_ids:
  "map (\<lambda>p. cp_pid (fst p)) (update_first P (\<lambda>(p, _). (p, x)) ps) = map (\<lambda>p. cp_pid (fst p)) ps"
  by (rule map_update_first) auto

lemma translate_handle_ids:
  assumes "translate_handle draws src dest moved h ps = Ret (h', ps')"
  shows "map (\<lambda>p. cp_pid (fst p)) ps' = map (\<lambda>p. cp_pid (fst p)) ps"
proof (cases h)
  case (Some x)
  obtain sp where sp: "process_at ps src = Some sp" using assms Some by (auto simp: translate_handle_def)
  obtain kobj sp' where l: "(if moved then process_lookup_close_handle x sp else (process_lookup_handle x sp, sp)) = (kobj, sp')"
    by (cases "if moved then process_lookup_close_handle x sp else (process_lookup_handle x sp, sp)")
  have "cp_pid sp' = src"
    using l process_same_pid(3) [of x sp kobj sp'] process_at_pid [OF sp] by (auto split: if_splits)
  then have 1: "map (\<lambda>p. cp_pid (fst p)) (put_process src sp' ps) = map (\<lambda>p. cp_pid (fst p)) ps"
    by (rule put_process_ids)
  show ?thesis
  proof (cases kobj)
    case None
    then show ?thesis using assms Some sp l 1 by (simp add: translate_handle_def)
  next
    case obj: (Some obj)
    then obtain dp dp' where d: "process_at (put_process src sp' ps) dest = Some dp"
        "process_new_handle draws obj dp = Ret (the h', dp')" "ps' = put_process dest dp' (put_process src sp' ps)"
      using assms Some sp l by (auto simp: translate_handle_def Let_def)
    have "cp_pid dp' = dest" using process_same_pid(1) [OF d(2)] process_at_pid [OF d(1)] by simp
    from put_process_ids [OF this, of "put_process src sp' ps"] show ?thesis using 1 d(3) by simp
  qed
qed (use assms in \<open>simp add: translate_handle_def\<close>)

text \<open>What holds between the processes before and after the translation of one handle holds of a whole
  message.\<close>

lemma translate_handles_relate:
  assumes one: "\<And>moved h h' ps ps'. translate_handle draws src dest moved h ps = Ret (h', ps') \<Longrightarrow> R ps ps'"
    and same: "\<And>ps. R ps ps" and chain: "\<And>ps ps1 ps2. \<lbrakk>R ps ps1; R ps1 ps2\<rbrakk> \<Longrightarrow> R ps ps2"
  shows "translate_handles draws src dest moved hs ps = Ret (hs', ps') \<Longrightarrow> R ps ps'"
  by (induction hs arbitrary: ps hs') (auto simp: same dest!: one intro: chain)

lemma translate_params_relate:
  assumes one: "\<And>draws src dest moved h h' ps ps'. \<lbrakk>P src dest; translate_handle draws src dest moved h ps = Ret (h', ps')\<rbrakk> \<Longrightarrow>
      R src dest ps ps'"
    and same: "\<And>src dest ps. R src dest ps ps"
    and chain: "\<And>src dest ps ps1 ps2. \<lbrakk>R src dest ps ps1; R src dest ps1 ps2\<rbrakk> \<Longrightarrow> R src dest ps ps2"
  shows "\<lbrakk>translate_params draws src dest r w ps = Ret (w', ps'); P src dest\<rbrakk> \<Longrightarrow> R src dest ps ps'"
proof (induction draws src dest r w ps rule: translate_params.induct)
  case (1 draws src dest r w ps)
  note step = "1.prems"(1) [unfolded translate_params.simps [of _ _ _ r]]
  show ?case
  proof (cases "reader_has_more r")
    case more: True
    obtain param r1 where rd: "reader_read_translate r = Ret (param, r1)" using step more by auto
    show ?thesis
    proof (cases param)
      case (TpHandle moved calling hs)
      show ?thesis
      proof (cases hs)
        case (HSingle h)
        then obtain h' ps1 w1 where t: "translate_handle draws src dest moved h ps = Ret (h', ps1)"
            "writer_write_translate (TpHandle moved calling (HSingle h')) w = Ret w1"
            "translate_params draws src dest r1 w1 ps1 = Ret (w', ps')"
          using step more rd TpHandle by auto
        have "R src dest ps1 ps'"
          using "1.IH"(1) [OF more rd refl TpHandle HSingle t(1) refl t(2,3) "1.prems"(2)] .
        then show ?thesis using chain [OF one [OF "1.prems"(2) t(1)]] by blast
      next
        case (HMultiple hs')
        then obtain h' ps1 w1 where t: "translate_handles draws src dest moved hs' ps = Ret (h', ps1)"
            "writer_write_translate (TpHandle moved calling (HMultiple h')) w = Ret w1"
            "translate_params draws src dest r1 w1 ps1 = Ret (w', ps')"
          using step more rd TpHandle by auto
        have "R src dest ps1 ps'"
          using "1.IH"(2) [OF more rd refl TpHandle HMultiple t(1) refl t(2,3) "1.prems"(2)] .
        moreover have "R src dest ps ps1"
          by (rule translate_handles_relate [OF one [OF "1.prems"(2)] same chain t(1)])
        ultimately show ?thesis using chain by blast
      qed
    next
      case (TpStaticBuffer a b c)
      then show ?thesis using "1.IH"(3) [OF more rd refl TpStaticBuffer] step more rd "1.prems"(2) by simp
    next
      case (TpBufferMapping a b c)
      then show ?thesis using "1.IH"(4) [OF more rd refl TpBufferMapping] step more rd "1.prems"(2) by simp
    qed
  qed (use step same in simp)
qed

lemma translate_params_ids:
  "translate_params draws src dest r w ps = Ret (w', ps') \<Longrightarrow>
     map (\<lambda>p. cp_pid (fst p)) ps' = map (\<lambda>p. cp_pid (fst p)) ps"
  by (rule translate_params_relate [where P = "\<lambda>_ _. True" and
        R = "\<lambda>_ _ ps ps'. map (\<lambda>p. cp_pid (fst p)) ps' = map (\<lambda>p. cp_pid (fst p)) ps"])
    (auto dest: translate_handle_ids)

section \<open>The calls of a thread\<close>

text \<open>A thread that can be resumed.\<close>

definition ready_at :: "('t, 'z) sched_scheme \<Rightarrow> tid \<Rightarrow> bool" where
  "ready_at s i \<longleftrightarrow> (\<exists>t. thread_at s i = Some t \<and> ct_state t = Ready)"

text \<open>The calls that keep queues and threads consistent: a wait for several objects counts if it is for
  one at most or none of them is ready (see \<open>wait_sync_n_leaves_stale_waker\<close> for the others).\<close>

inductive thread_call :: "('t, 'p) kernel \<Rightarrow> ('t, 'p) kernel \<Rightarrow> bool" where
  new_object: "\<lbrakk>new_object_handle draws obj k = Ret (x, k'); wakers_of obj = []\<rbrakk> \<Longrightarrow> thread_call k k'"
| new_ports: "make_port_pair k = (x, k') \<Longrightarrow> thread_call k k'"
| new_handle: "kernel_new_handle draws obj k = Ret (x, k') \<Longrightarrow> thread_call k k'"
| close_handle: "close_handle handle k = Ret (x, k') \<Longrightarrow> thread_call k k'"
| release_mutex: "release_mutex handle k = Ret (x, k') \<Longrightarrow> thread_call k k'"
| signal_event: "signal_event handle k = Ret (x, k') \<Longrightarrow> thread_call k k'"
| clear_event: "thread_call k (event_clear i k)"
| set_timer: "thread_call k (timer_set i initial interval k)"
| signal_arbiter: "arbiter_signal i amount addr k = Ret (x, k') \<Longrightarrow> thread_call k k'"
| sleep: "\<lbrakk>running k i t; suspend_thread [] timeout WaitSleep k = Ret (x, k')\<rbrakk> \<Longrightarrow> thread_call k k'"
| wait_one: "\<lbrakk>running k i t; wait_sync_1 now handle timeout k = Ret (x, k')\<rbrakk> \<Longrightarrow> thread_call k k'"
| wait_several: "\<lbrakk>running k i t; wait_n_safe handles k;
    wait_sync_n now handles wait_all timeout k = Ret (x, k')\<rbrakk> \<Longrightarrow> thread_call k k'"
| wait_arbiter: "\<lbrakk>running k i t; object_at k a = Some (Arbiter ab);
    suspend_thread [a] timeout WaitArbiter k = Ret (w, k1)\<rbrakk> \<Longrightarrow> thread_call k (arbiter_wait a w addr k1)"
| send_request: "\<lbrakk>running k i t; send_sync_request alive handle k = Ret (x, k')\<rbrakk> \<Longrightarrow> thread_call k k'"
| connect: "\<lbrakk>running k i t; create_session_to_port alive draws handle k = Ret (x, k')\<rbrakk> \<Longrightarrow> thread_call k k'"
| accept: "\<lbrakk>running k i t; svc_accept_session alive draws handle k = Ret (x, k')\<rbrakk> \<Longrightarrow> thread_call k k'"
| receive: "session_receive draws session i k = Ret (x, k') \<Longrightarrow> thread_call k k'"
| reply: "\<lbrakk>running k i t; session_reply alive draws session j k = Ret k'\<rbrakk> \<Longrightarrow> thread_call k k'"
| set_data: "set_thread_ipc_data data k = Ret k' \<Longrightarrow> thread_call k k'"
| new_process: "new_process name p k = Ret (x, k') \<Longrightarrow> thread_call k k'"
| new_thread: "\<lbrakk>find_common_process pid (k_processes k) = Ret p; new_thread pid thread k = Ret (x, k')\<rbrakk> \<Longrightarrow>
    thread_call k k'"
| init_thread: "thread_call k (k\<lparr>k_processes :=
    update_first (\<lambda>(p, _). cp_pid p = pid) (\<lambda>(p, _). (p, process)) (k_processes k)\<rparr>)"
| exit: "\<lbrakk>running k i t; exit_thread k = Ret k'\<rbrakk> \<Longrightarrow> thread_call k k'"
| register_port: "register_port name port k = Ret k' \<Longrightarrow> thread_call k k'"
| bind_interrupt: "thread_call k (bind_interrupt name event k)"
| unbind_interrupt: "thread_call k (unbind_interrupt name k)"
| schedule_next: "ready_at k i \<Longrightarrow> thread_call k (schedule_next i k)"

text \<open>All calls, whatever a thread waits for.\<close>

inductive any_call :: "('t, 'p) kernel \<Rightarrow> ('t, 'p) kernel \<Rightarrow> bool" where
  safe: "thread_call k k' \<Longrightarrow> any_call k k'"
| wait: "wait_sync_n now handles wait_all timeout k = Ret (x, k') \<Longrightarrow> any_call k k'"
| arbitrate: "suspend_thread [a] timeout WaitArbiter k = Ret (w, k1) \<Longrightarrow> any_call k (arbiter_wait a w addr k1)"

lemma no_wakers_distinct: "wakers_of obj = [] \<Longrightarrow> arbiter_queue_distinct obj"
  by (cases obj) simp_all

lemma thread_call_ok: "\<lbrakk>thread_call k k'; kernel_ok k\<rbrakk> \<Longrightarrow> kernel_ok k'"
proof (induction rule: thread_call.induct)
  case (new_object draws obj k x k')
  then show ?case using yieldsD [OF new_object_handle_ok] no_wakers_distinct by fastforce
next
  case (new_ports k x k')
  then show ?case using make_port_pair_ok [of k] by simp
next
  case (close_handle handle k x k')
  then show ?case using yieldsD [OF close_handle_ok] by fastforce
next
  case (release_mutex handle k x k')
  then show ?case using yieldsD [OF release_mutex_ok] by fastforce
next
  case (signal_event handle k x k')
  then show ?case using yieldsD [OF signal_event_ok] by fastforce
next
  case (signal_arbiter i amount addr k x k')
  then show ?case using yieldsD [OF arbiter_signal_ok] by fastforce
next
  case (wait_one k i t now handle timeout x k')
  then show ?case using yieldsD [OF wait_sync_1_ok] by fastforce
next
  case (wait_several k i t handles now wait_all timeout x k')
  then show ?case using yieldsD [OF wait_sync_n_ok] by fastforce
next
  case (send_request k i t alive handle x k')
  then show ?case using yieldsD [OF send_sync_request_ok] by fastforce
next
  case (connect k i t alive draws handle x k')
  then show ?case using yieldsD [OF create_session_to_port_ok] by fastforce
next
  case (accept k i t alive draws handle x k')
  then show ?case using yieldsD [OF svc_accept_session_ok] by fastforce
next
  case (receive draws session i k x k')
  then show ?case using yieldsD [OF session_receive_ok] by fastforce
next
  case (reply k i t alive draws session j k')
  then show ?case using yieldsD [OF session_reply_ok] by fastforce
next
  case (new_process name p k x k')
  then show ?case using yieldsD [OF new_process_ok] by fastforce
qed (auto simp: event_clear_ok timer_set_ok bind_interrupt_def unbind_interrupt_def schedule_next_def
    register_port_def wait_on_arbiter_ok intro: yieldsD [OF set_thread_ipc_data_ok] yieldsD [OF exit_thread_ok]
    dest: kernel_new_handleD new_threadD suspend_threadD(1))

section \<open>Turns of the main loop\<close>

abbreviation thread_calls :: "('t, 'p) kernel \<Rightarrow> ('t, 'p) kernel \<Rightarrow> bool" where
  "thread_calls \<equiv> thread_call\<^sup>*\<^sup>*"

abbreviation any_calls :: "('t, 'p) kernel \<Rightarrow> ('t, 'p) kernel \<Rightarrow> bool" where
  "any_calls \<equiv> any_call\<^sup>*\<^sup>*"

lemma thread_calls_any: "thread_calls k k' \<Longrightarrow> any_calls k k'"
  by (rule mono_rtranclp [rule_format]) (rule any_call.safe)

lemma thread_calls_ok: "\<lbrakk>thread_calls k k'; kernel_ok k\<rbrakk> \<Longrightarrow> kernel_ok k'"
  by (induction rule: rtranclp_induct) (auto dest: thread_call_ok)

section \<open>Relations that calls keep\<close>

lemma found_process_id: "find_common_process pid (k_processes k) = Ret p \<Longrightarrow> pid \<in> set (process_ids k)"
  by (auto simp: process_ids_def process_at_def find_Some_iff image_iff)

text \<open>Threads have their own indices, below the next one: all that the relations below need, and all that
  every call keeps.\<close>

definition ids_ok :: "('t, 'p) kernel \<Rightarrow> bool" where
  "ids_ok k \<longleftrightarrow> distinct (thread_indices k) \<and> (\<forall>i \<in> set (thread_indices k). i < unat (k_next_tid k))"

lemma kernel_ids_ok: "kernel_ok k \<Longrightarrow> ids_ok k"
  by (simp add: kernel_ok_def ids_ok_def sched_ok_def thread_indices_def)

locale call_relation = object_steps R for R :: "('t, 'p) kernel \<Rightarrow> ('t, 'p) kernel \<Rightarrow> bool" +
  assumes same: "\<lbrakk>k_current k' = k_current k; k_processes k' = k_processes k; sc_threads k' = sc_threads k;
      k_thread_boxes k' = k_thread_boxes k; k_next k' = k_next k; k_next_tid k' = k_next_tid k\<rbrakk> \<Longrightarrow> R k k'"
    and stored: "\<lbrakk>find_thread i (sc_threads k) = Ret t; ct_index t' = ct_index t; ct_pid t' = ct_pid t;
      ct_state t = Ready \<longrightarrow> ct_state t' = Ready\<rbrakk> \<Longrightarrow> R k (k\<lparr>sc_threads := put_thread i t' (sc_threads k)\<rparr>)"
    and scheduled: "ready_at k i \<Longrightarrow> R k (schedule_next i k)"
    and new_handle: "kernel_new_handle draws obj k = Ret (h, k') \<Longrightarrow> R k k'"
    and closed_handle: "close_handle handle k = Ret (x, k') \<Longrightarrow> R k k'"
    and translated: "translate_params draws src dest r w (k_processes k) = Ret (w', ps) \<Longrightarrow> R k (k\<lparr>k_processes := ps\<rparr>)"
    and process: "new_process name p k = Ret (pid, k') \<Longrightarrow> R k k'"
    and thread: "\<lbrakk>pid \<in> set (process_ids k); new_thread pid box k = Ret (tid_obj, k')\<rbrakk> \<Longrightarrow> R k k'"
    and process_box: "R k (k\<lparr>k_processes :=
      update_first (\<lambda>(p, _). cp_pid p = pid) (\<lambda>(p, _). (p, own)) (k_processes k)\<rparr>)"
begin

declare follows [trans]

lemma new_object_related: "R k (snd (new_object obj k))"
  by (rule same; simp add: new_object_def)

lemma new_object_handle_related: "new_object_handle draws obj k = Ret (x, k') \<Longrightarrow> R k k'"
  using follows [OF new_object_related] new_handle
  by (auto simp: new_object_handle_def Let_def split_def) blast

lemma pairs_related:
  "R k (snd (make_port_pair k))" "R k (snd (make_session_pair k))"
  by (rule same; simp add: make_port_pair_def make_session_pair_def map_object_def new_object_def thread_ids_def)+

lemma suspend_thread_related: "suspend_thread objects timeout wt k = Ret (w, k') \<Longrightarrow> R k k'"
  by (auto simp: suspend_thread_def suspend_current_def thread_wait_def simp del: find_thread_at
      split: if_splits intro: stored)

lemma set_thread_ipc_data_related: "set_thread_ipc_data data k = Ret k' \<Longrightarrow> R k k'"
  by (auto simp: set_thread_ipc_data_def simp del: find_thread_at intro: stored)

lemma release_mutex_related: "release_mutex handle k = Ret (x, k') \<Longrightarrow> R k k'"
  by (auto simp: release_mutex_def split: option.split_asm intro: stays mutex_release_steps)

lemma signal_event_related: "signal_event handle k = Ret (x, k') \<Longrightarrow> R k k'"
  by (auto simp: signal_event_def split: option.split_asm intro: stays event_signal_steps)

lemma wait_sync_1_related: "wait_sync_1 now handle timeout k = Ret (x, k') \<Longrightarrow> R k k'"
  by (auto simp: wait_sync_1_def Let_def stays split: option.split_asm dest!: suspend_thread_related sync_wait_steps)
    (erule (1) follows)

lemma wait_sync_n_related: "wait_sync_n now handles wait_all timeout k = Ret (x, k') \<Longrightarrow> R k k'"
  by (auto simp: wait_sync_n_def Let_def dest!: suspend_thread_related wait_objects_steps) (erule (1) follows)

lemma send_sync_request_related: "send_sync_request alive handle k = Ret (x, k') \<Longrightarrow> R k k'"
  by (auto simp: send_sync_request_def stays split: option.split_asm if_split_asm
      dest!: suspend_thread_related sync_request_steps) (erule (1) follows)

lemma server_port_wait_related: "server_port_wait i w k = Ret k' \<Longrightarrow> R k k'"
  by (auto simp: server_port_wait_def updated)

lemma accept_session_related: "svc_accept_session alive draws handle k = Ret (x, k') \<Longrightarrow> R k k'"
  by (clarsimp simp: svc_accept_session_def split: option.split_asm)
    (auto simp: stays split: option.split_asm dest!: accept_session_steps new_handle suspend_thread_related
      server_port_wait_related; blast intro: follows)

lemma create_session_related:
  assumes "create_session_to_port alive draws handle k = Ret (x, k')"
  shows "R k k'"
proof (cases "k' = k")
  case False
  then obtain port server k2 w k3 client h where
      s: "port_create_session alive port server (snd (make_session_pair k)) = Ret k2"
        "suspend_thread [port] None WaitSync1 k2 = Ret (w, k3)"
        "kernel_new_handle draws client (map_object port (map_client_port (\<lambda>p. p\<lparr>cp_queue := cp_queue p @ [w]\<rparr>)) k3) = Ret (h, k')"
    using assms by (auto simp: create_session_to_port_def client_port_wait_def case_prod_unfold Let_def split: option.split_asm)
  have "R k k2" using pairs_related(2) port_create_session_steps [OF s(1)] by (rule follows)
  also have "R k2 k3" using s(2) by (rule suspend_thread_related)
  also note updated
  also note new_handle [OF s(3)]
  finally show ?thesis .
qed (simp add: stays)

lemma translate_ipc_related:
  assumes ok: "ids_ok k" and r: "translate_ipc draws src dest reply k = Ret k'"
  shows "R k k'"
proof -
  obtain s t ps data where st: "find_thread_pair (src, dest) (sc_threads k) = Ret (s, t)"
      and ps: "\<exists>r w w'. translate_params draws (ct_pid s) (ct_pid t) r w (k_processes k) = Ret (w', ps)"
      and k': "k' = k\<lparr>k_processes := ps,
        sc_threads := put_thread dest (t\<lparr>ct_ipc_data := data\<rparr>) (sc_threads k)\<rparr>"
    using r by (cases reply) (auto simp: translate_ipc_def Let_def, blast+)
  have t: "find_thread dest (sc_threads k) = Ret t"
    using find_thread_pair_second [OF _ st] ok by (simp add: ids_ok_def thread_indices_def)
  obtain r w w' where "translate_params draws (ct_pid s) (ct_pid t) r w (k_processes k) = Ret (w', ps)"
    using ps by (elim exE)
  then have "R k (k\<lparr>k_processes := ps\<rparr>)" by (rule translated)
  also have "R (k\<lparr>k_processes := ps\<rparr>) k'"
    using stored [of dest "k\<lparr>k_processes := ps\<rparr>" t "t\<lparr>ct_ipc_data := data\<rparr>"] t by (simp add: k')
  finally show ?thesis .
qed

lemma session_receive_related:
  "ids_ok k \<Longrightarrow> session_receive draws session i k = Ret (x, k') \<Longrightarrow> R k k'"
  by (clarsimp simp: session_receive_def) (auto split: list.split_asm intro: stays translate_ipc_related)

lemma session_reply_related:
  assumes ok: "ids_ok k" and r: "session_reply alive draws session j k = Ret k'"
  shows "R k k'"
proof -
  obtain request rest client k2 where
      k2: "translate_ipc draws j request True
        (map_object session (map_server_session (\<lambda>x. x\<lparr>ss_requests := rest\<rparr>)) k) = Ret k2"
      and k': "client_session_wake_thread client k2 = Ret k'"
    using r by (clarsimp simp: session_reply_def) (auto simp: enqueue_response_def Let_def split: list.split_asm)
  let ?k1 = "map_object session (map_server_session (\<lambda>x. x\<lparr>ss_requests := rest\<rparr>)) k"
  have "ids_ok ?k1" using ok by (simp add: ids_ok_def map_object_def thread_indices_def)
  then have "R ?k1 k2" using k2 by (rule translate_ipc_related)
  with updated [of k session _] have "R k k2" by (rule follows)
  also have "R k2 k'" using k' by (rule client_session_wake_steps)
  finally show ?thesis .
qed

lemma exit_thread_related:
  assumes "exit_thread k = Ret k'" "running k i t"
  shows "R k k'"
proof -
  have t: "find_thread i (sc_threads k) = Ret t" "ct_state t \<noteq> Ready"
      "thread_object_exit (ct_kobj t) (k\<lparr>sc_threads := put_thread i (t\<lparr>ct_state := Done\<rparr>) (sc_threads k)\<rparr>) = Ret k'"
    using assms by (auto simp: exit_thread_def running_def current_pid_tid_def find_thread_at)
  have "R k (k\<lparr>sc_threads := put_thread i (t\<lparr>ct_state := Done\<rparr>) (sc_threads k)\<rparr>)"
    using t(2) by (intro stored [OF t(1)]) simp_all
  also have "R \<dots> k'" using t(3) by (rule thread_object_exit_steps)
  finally show ?thesis .
qed

lemma thread_call_related: "\<lbrakk>thread_call k k'; ids_ok k\<rbrakk> \<Longrightarrow> R k k'"
proof (induction rule: thread_call.induct)
  case (new_ports k x k')
  then show ?case using pairs_related(1) [of k] by simp
next
  case (wait_arbiter k i t a ab timeout w k1 addr)
  then show ?case by (auto simp: arbiter_wait_def dest: suspend_thread_related intro: before_update)
next
  case (init_thread k pid process)
  show ?case by (rule process_box)
next
  case (register_port name port k k')
  then show ?case by (auto simp: register_port_def thread_ids_def intro: same)
next
  case (clear_event k i)
  then show ?case by (simp add: event_clear_def updated)
next
  case (set_timer k i initial interval)
  then show ?case by (simp add: timer_set_def updated)
next
  case (receive draws session i k x k')
  then show ?case by (intro session_receive_related)
next
  case (reply k i t alive draws session j k')
  then show ?case by (intro session_reply_related)
next
  case (new_thread pid k p thread x k')
  show ?case by (rule thread [OF found_process_id [OF new_thread(1)] new_thread(2)])
next
  case (bind_interrupt k name event)
  then show ?case by (intro same) (simp_all add: bind_interrupt_def thread_ids_def)
next
  case (unbind_interrupt k name)
  then show ?case by (intro same) (simp_all add: unbind_interrupt_def thread_ids_def)
next
  case (schedule_next k i)
  show ?case by (rule scheduled [OF schedule_next(1)])
next
  case (exit k i t k')
  then show ?case by (intro exit_thread_related)
qed (erule new_object_handle_related new_handle closed_handle release_mutex_related
    signal_event_related arbiter_signal_steps suspend_thread_related wait_sync_1_related wait_sync_n_related
    send_sync_request_related create_session_related accept_session_related set_thread_ipc_data_related
    process)+

lemma any_call_related: "\<lbrakk>any_call k k'; ids_ok k\<rbrakk> \<Longrightarrow> R k k'"
  by (induction rule: any_call.induct)
    (auto simp: arbiter_wait_def intro: thread_call_related wait_sync_n_related before_update dest: suspend_thread_related)

end

text \<open>The indices of threads are kept, so all calls of a thread keep what each of them keeps.\<close>

definition ids_kept :: "('t, 'p) kernel \<Rightarrow> ('t, 'p) kernel \<Rightarrow> bool" where
  "ids_kept k k' \<longleftrightarrow> (ids_ok k \<longrightarrow> ids_ok k')"

lemma ids_kept_same:
  "\<lbrakk>thread_indices k' = thread_indices k; k_next_tid k' = k_next_tid k\<rbrakk> \<Longrightarrow> ids_kept k k'"
  by (simp add: ids_kept_def ids_ok_def)

lemma new_thread_ids:
  assumes "new_thread pid box k = Ret (x, k')"
  shows "ids_kept k k'"
proof -
  obtain next_tid where n: "cadd (k_next_tid k) 1 = Ret next_tid" "k_next_tid k' = next_tid"
      "thread_indices k' = thread_indices k @ [unat (k_next_tid k)]"
    using assms by (auto simp: new_thread_def Let_def new_object_def thread_indices_def thread_new_def)
  have "unat next_tid = Suc (unat (k_next_tid k))" using n(1) by (auto simp: cadd_eq_Ret unat_add_small)
  then show ?thesis using n(2,3) by (auto simp: ids_kept_def ids_ok_def less_Suc_eq)
qed

lemma close_handle_fields:
  assumes "close_handle handle k = Ret (x, k')"
  shows "k' = k\<lparr>k_processes := k_processes k'\<rparr>"
proof (cases handle)
  case (Some h)
  then obtain p where c: "current_process k = Ret p" using assms by (auto simp: close_handle_def)
  obtain ok p' where "process_close_handle h p = (ok, p')" by (metis prod.collapse)
  then show ?thesis using assms Some c by (auto simp: close_handle_def)
qed (use assms in \<open>simp add: close_handle_def\<close>)

lemma threads_processes [simp]: "thread_indices (k\<lparr>k_processes := ps\<rparr>) = thread_indices k"
  by (simp add: thread_indices_def)

interpretation ids: call_relation ids_kept
proof
  show "ids_kept k k2" if "ids_kept k k1" "ids_kept k1 k2" for k k1 k2 :: "('t, 'p) kernel"
    using that by (simp add: ids_kept_def)
  show "ids_kept k k'" if "waker_wake w i k = Ret (b, k')" for w i b and k k' :: "('t, 'p) kernel"
    using indices.waker_wake_part [OF that] kernel_tid [OF rest.waker_wake_part [OF that]] by (rule ids_kept_same)
  show "ids_kept k (k\<lparr>sc_threads := put_thread i t' (sc_threads k)\<rparr>)"
    if "find_thread i (sc_threads k) = Ret t" "ct_index t' = ct_index t" for i t t' and k :: "('t, 'p) kernel"
    using put_thread_indices [of t' i] find_thread_index [OF that(1)] that(2)
    by (intro ids_kept_same) (simp_all add: thread_indices_def)
  show "ids_kept k k'" if "new_thread pid box k = Ret (x, k')" for pid box x and k k' :: "('t, 'p) kernel"
    using that by (rule new_thread_ids)
  show "ids_kept k k'" if "close_handle handle k = Ret (x, k')" for handle x and k k' :: "('t, 'p) kernel"
    by (subst close_handle_fields [OF that]) (simp add: ids_kept_same)
qed (auto simp: schedule_next_def kernel_new_handle_def new_process_def Let_def thread_indices_def
    map_object_def intro!: ids_kept_same split: option.split_asm prod.split_asm)

lemma any_calls_ids: "\<lbrakk>any_calls k k'; ids_ok k\<rbrakk> \<Longrightarrow> ids_ok k'"
  by (induction rule: rtranclp_induct) (auto simp: ids_kept_def dest: ids.any_call_related)

context call_relation begin

lemma any_calls_related: "\<lbrakk>any_calls k k'; ids_ok k\<rbrakk> \<Longrightarrow> R k k'"
proof (induction rule: rtranclp_induct)
  case (step k1 k2)
  then show ?case using any_call_related any_calls_ids follows by blast
qed (rule stays)

lemma thread_calls_related: "\<lbrakk>thread_calls k k'; kernel_ok k\<rbrakk> \<Longrightarrow> R k k'"
  using any_calls_related thread_calls_any kernel_ids_ok by blast

end

section \<open>Well-formed handle tables\<close>

text \<open>Every handle table stays as its insertions and lookups need it: sorted by handle, without zero.\<close>

definition tables_kept :: "('t, 'p) kernel \<Rightarrow> ('t, 'p) kernel \<Rightarrow> bool" where
  "tables_kept k k' \<longleftrightarrow> (tables_ok (k_processes k) \<longrightarrow> tables_ok (k_processes k'))"

lemma close_handle_table:
  assumes "process_close_handle h p = (ok, p')" "table_ok (cp_objects p)"
  shows "table_ok (cp_objects p')"
  using assms handles.remove_result [of "cp_objects p" h]
  by (auto simp: process_close_handle_def split: prod.splits)

lemma translate_handle_tables:
  assumes r: "translate_handle draws src dest moved h ps = Ret (h', ps')" and ok: "tables_ok ps"
  shows "tables_ok ps'"
proof (cases h)
  case (Some x)
  obtain sp where sp: "process_at ps src = Some sp" using r Some by (auto simp: translate_handle_def)
  obtain kobj sp' where l: "(if moved then process_lookup_close_handle x sp else (process_lookup_handle x sp, sp)) = (kobj, sp')"
    by (cases "if moved then process_lookup_close_handle x sp else (process_lookup_handle x sp, sp)")
  have 1: "tables_ok (put_process src sp' ps)"
    using l process_take_handle_held [OF ok sp, of x kobj sp'] put_process_same [OF sp] ok by (auto split: if_splits)
  show ?thesis
  proof (cases kobj)
    case None
    then show ?thesis using r Some sp l 1 by (simp add: translate_handle_def)
  next
    case obj: (Some obj)
    then obtain dp dp' where d: "process_at (put_process src sp' ps) dest = Some dp"
        "process_new_handle draws obj dp = Ret (the h', dp')" "ps' = put_process dest dp' (put_process src sp' ps)"
      using r Some sp l by (auto simp: translate_handle_def Let_def)
    then show ?thesis using process_new_handle_held [OF 1 d(1,2)] by blast
  qed
qed (use r ok in \<open>simp add: translate_handle_def\<close>)

lemma translate_params_tables:
  "\<lbrakk>translate_params draws src dest r w ps = Ret (w', ps'); tables_ok ps\<rbrakk> \<Longrightarrow> tables_ok ps'"
  using translate_params_relate [where P = "\<lambda>_ _. True" and R = "\<lambda>_ _ ps ps'. tables_ok ps \<longrightarrow> tables_ok ps'"]
    translate_handle_tables by blast

lemma find_append: "find P (xs @ ys) = (case find P xs of None \<Rightarrow> find P ys | Some x \<Rightarrow> Some x)"
  by (induction xs) simp_all

lemma tables_append: "\<lbrakk>tables_ok ps; table_ok (cp_objects p)\<rbrakk> \<Longrightarrow> tables_ok (ps @ [(p, own)])"
  by (auto simp: tables_ok_def process_at_def find_append split: option.splits if_splits)

lemma tables_own:
  "tables_ok (update_first (\<lambda>(p, _). cp_pid p = pid) (\<lambda>(p, _). (p, own)) ps) = tables_ok ps"
proof -
  have "map fst (update_first (\<lambda>(p, _). cp_pid p = pid) (\<lambda>(p, _). (p, own)) ps) = map fst ps"
    by (rule map_update_first) auto
  then show ?thesis by (simp add: tables_ok_def process_at_def)
qed

lemma current_process_at: "current_process k = Ret p \<Longrightarrow> process_at (k_processes k) (cp_pid p) = Some p"
  by (auto simp: current_process_def dest: process_at_pid)

lemma kernel_new_handle_tables:
  assumes "kernel_new_handle draws obj k = Ret (h, k')"
  shows "tables_kept k k'"
proof -
  obtain p p' where p: "current_process k = Ret p" "process_new_handle draws obj p = Ret (h, p')"
      "k' = k\<lparr>k_processes := put_process (cp_pid p) p' (k_processes k)\<rparr>"
    using assms by (auto simp: kernel_new_handle_def)
  then show ?thesis
    using process_new_handle_held [OF _ current_process_at [OF p(1)] p(2)] by (simp add: tables_kept_def)
qed

lemma close_handle_tables:
  assumes "close_handle handle k = Ret (x, k')"
  shows "tables_kept k k'"
proof (cases handle)
  case (Some h)
  then obtain p where c: "current_process k = Ret p" using assms by (auto simp: close_handle_def)
  obtain ok p' where "process_close_handle h p = (ok, p')" by (metis prod.collapse)
  with c have p: "current_process k = Ret p" "process_close_handle h p = (ok, p')"
      "k' = k\<lparr>k_processes := put_process (cp_pid p) p' (k_processes k)\<rparr>"
    using assms Some by (simp_all add: close_handle_def)
  have "table_ok (cp_objects p)" if "tables_ok (k_processes k)"
    using that current_process_at [OF p(1)] by (simp add: tables_ok_def)
  then show ?thesis
    using put_process_tables [OF _ close_handle_table [OF p(2)] process_same_pid(2) [OF p(2)]] p(3)
    by (auto simp: tables_kept_def)
qed (use assms in \<open>simp add: close_handle_def tables_kept_def\<close>)

interpretation tables: call_relation tables_kept
proof
  show "tables_kept k k'" if "close_handle handle k = Ret (x, k')" for handle x and k k' :: "('t, 'p) kernel"
    using that by (rule close_handle_tables)
  show "tables_kept k k'" if "kernel_new_handle draws obj k = Ret (h, k')" for draws obj h and k k' :: "('t, 'p) kernel"
    using that by (rule kernel_new_handle_tables)
  show "tables_kept k k'" if "waker_wake w i k = Ret (b, k')" for w i b and k k' :: "('t, 'p) kernel"
    using kernel_fields(1) [OF rest.waker_wake_part [OF that]] by (simp add: tables_kept_def)
qed (auto simp: tables_kept_def tables_own map_object_def schedule_next_def new_process_def new_thread_def new_object_def Let_def
    intro: translate_params_tables tables_append)

section \<open>The next thread\<close>

text \<open>A thread that is ready stays ready until it is resumed, so a thread asked for by \<open>schedule_next\<close> still
  is when its turn comes.\<close>

definition next_ready :: "('t, 'p) kernel \<Rightarrow> bool" where
  "next_ready k \<longleftrightarrow> (\<forall>i. k_next k = Some i \<longrightarrow> ready_at k i)"

definition ready_kept :: "('t, 'p) kernel \<Rightarrow> ('t, 'p) kernel \<Rightarrow> bool" where
  "ready_kept k k' \<longleftrightarrow> (\<forall>i. ready_at k i \<longrightarrow> ready_at k' i) \<and> (next_ready k \<longrightarrow> next_ready k')"

lemma ready_keptI:
  "\<lbrakk>\<And>i. ready_at k i \<Longrightarrow> ready_at k' i; k_next k' = k_next k\<rbrakk> \<Longrightarrow> ready_kept k k'"
  by (simp add: ready_kept_def next_ready_def)

lemma ready_kept_same: "\<lbrakk>sc_threads k' = sc_threads k; k_next k' = k_next k\<rbrakk> \<Longrightarrow> ready_kept k k'"
  by (rule ready_keptI) (simp_all add: ready_at_def thread_at_def)

lemma ready_at_put:
  assumes "find_thread i (sc_threads s) = Ret t" "ct_index t' = i" "ct_state t = Ready \<longrightarrow> ct_state t' = Ready"
    and "ready_at s j"
  shows "ready_at (s\<lparr>sc_threads := put_thread i t' (sc_threads s)\<rparr>) j"
  using assms thread_at_put [of s i t t' j] by (auto simp: ready_at_def find_thread_at split: if_splits)

lemma ready_kept_put:
  assumes "find_thread i (sc_threads k) = Ret t" "ct_index t' = ct_index t" "ct_state t = Ready \<longrightarrow> ct_state t' = Ready"
  shows "ready_kept k (k\<lparr>sc_threads := put_thread i t' (sc_threads k)\<rparr>)"
  using ready_at_put [OF assms(1) _ assms(3)] find_thread_index [OF assms(1)] assms(2) by (intro ready_keptI) simp_all

lemma wake_up_ready: "wake_up r objs t = Ret (t', objs') \<Longrightarrow> ct_state t' = Ready \<and> ct_index t' = ct_index t"
  by (auto simp: wake_up_def Let_def)

lemma waker_wake_ready:
  assumes r: "waker_wake w i s = Ret (b, s')" and j: "ready_at s j"
  shows "ready_at s' j"
proof (cases "s' = s")
  case False
  then obtain t t' objs where t: "find_thread (wk_thread w) (sc_threads s) = Ret t"
      "wake_up (WakeObject i) (sc_objects s) t = Ret (t', objs)"
      "s' = s\<lparr>sc_objects := objs, sc_threads := put_thread (wk_thread w) t' (sc_threads s)\<rparr>"
    using r by (auto simp: waker_wake_def wake_up_thread_def split: if_splits)
  have "ready_at (s\<lparr>sc_threads := put_thread (wk_thread w) t' (sc_threads s)\<rparr>) j"
    using ready_at_put [OF t(1) _ _ j, of t'] wake_up_ready [OF t(2)] find_thread_index [OF t(1)] by simp
  then show ?thesis by (simp add: t(3) ready_at_def thread_at_def)
qed (use j in simp)

lemma new_thread_ready:
  assumes "new_thread pid box k = Ret (x, k')"
  shows "ready_kept k k'"
proof (rule ready_keptI)
  show "ready_at k' i" if "ready_at k i" for i
    using assms that
    by (auto simp: new_thread_def Let_def new_object_def ready_at_def thread_at_def find_append split: option.split)
  show "k_next k' = k_next k" using assms by (auto simp: new_thread_def Let_def new_object_def)
qed

interpretation ready: call_relation ready_kept
proof
  show "ready_kept k k2" if "ready_kept k k1" "ready_kept k1 k2" for k k1 k2 :: "('t, 'p) kernel"
    using that by (simp add: ready_kept_def)
  show "ready_kept k k'" if "waker_wake w i k = Ret (b, k')" for w i b and k k' :: "('t, 'p) kernel"
    using waker_wake_ready [OF that] kernel_fields(4) [OF rest.waker_wake_part [OF that]] by (rule ready_keptI)
  show "ready_kept k (k\<lparr>sc_threads := put_thread i t' (sc_threads k)\<rparr>)"
    if "find_thread i (sc_threads k) = Ret t" "ct_index t' = ct_index t" "ct_state t = Ready \<longrightarrow> ct_state t' = Ready"
    for i t t' and k :: "('t, 'p) kernel"
    using that by (rule ready_kept_put)
  show "ready_kept k (schedule_next i k)" if "ready_at k i" for i and k :: "('t, 'p) kernel"
    using that by (simp add: ready_kept_def next_ready_def schedule_next_def ready_at_def thread_at_def)
  show "ready_kept k k'" if "new_thread pid box k = Ret (x, k')" for pid box x and k k' :: "('t, 'p) kernel"
    using that by (rule new_thread_ready)
  show "ready_kept k k'" if "close_handle handle k = Ret (x, k')" for handle x and k k' :: "('t, 'p) kernel"
    by (subst close_handle_fields [OF that]) (simp add: ready_kept_same)
qed (auto simp: kernel_new_handle_def new_process_def Let_def map_object_def intro!: ready_kept_same)

end
