(* ===== verification/Reachable.thy ===== *)
theory Reachable
  imports CallRelations Cli
begin

text \<open>
  The states that the main loop of \<open>cli/src/main.rs\<close> reaches with threads that act on the kernel by
  the calls of \<open>CallRelations\<close> and nothing else. In every such state threads have their own indices,
  the handle tables of all processes are well-formed and the thread to run next is ready; and as long
  as no thread waits for several objects while one of them is ready, queues and threads agree.
\<close>

section \<open>Bodies of threads\<close>

type_synonym ('t, 'p) thread_body =
  "'t \<Rightarrow> thread_resume \<Rightarrow> ('t, 'p) kernel \<Rightarrow> ('t \<times> ('t, 'p) kernel) res"

text \<open>The body of every thread, when the kernel runs it, acts on the kernel by calls only, whatever it
  waits for.\<close>

definition calls_only :: "('t, 'p) thread_body \<Rightarrow> bool" where
  "calls_only run \<longleftrightarrow>
     (\<forall>thread resume k thread' k' i t.
        ids_ok k \<and> running k i t \<and> run thread resume k = Ret (thread', k') \<longrightarrow> any_calls k k')"

text \<open>Besides, it never waits for several objects while one of them is ready.\<close>

definition waits_safely :: "('t, 'p) thread_body \<Rightarrow> bool" where
  "waits_safely run \<longleftrightarrow>
     (\<forall>thread resume k thread' k' i t.
        kernel_ok k \<and> running k i t \<and> run thread resume k = Ret (thread', k') \<longrightarrow> thread_calls k k')"

lemma take_thread_box_ok: "take_thread_box i k = Ret (x, k') \<Longrightarrow> kernel_ok k \<Longrightarrow> kernel_ok k'"
  by (auto simp: take_thread_box_def)

lemma take_thread_box_running: "take_thread_box i k = Ret (x, k') \<Longrightarrow> running k j t \<Longrightarrow> running k' j t"
  by (auto simp: take_thread_box_def running_def thread_at_def)

lemma replace_thread_box_ok: "replace_thread_box i x k = Ret k' \<Longrightarrow> kernel_ok k \<Longrightarrow> kernel_ok k'"
  by (auto simp: replace_thread_box_def split: if_splits)

lemma kernel_ok_waits:
  "\<lbrakk>kernel_ok k; find_thread i (sc_threads k) = Ret t; ct_state t = Waiting\<rbrakk> \<Longrightarrow> ct_wait_type t \<noteq> None"
  by (auto simp: kernel_ok_def sched_ok_observe find_thread_at)

lemma run_thread_ok:
  assumes run: "waits_safely run" and ok: "kernel_ok k"
  shows "yields (run_thread run i k) kernel_ok"
  unfolding run_thread_def Let_def
proof (intro yields_bind, goal_cases)
  case (1 t u p x)
  obtain thread k3 where x: "x = (thread, k3)" by (cases x)
  let ?k1 = "k\<lparr>sc_threads := put_thread i (t\<lparr>ct_state := Running, ct_resume := ResumeNormal\<rparr>) (sc_threads k)\<rparr>"
  have ready: "ct_state t = Ready" using 1(2) by simp
  have "kernel_ok ?k1" using ready by (intro kernel_ok_put [OF ok 1(1)]) simp_all
  then have ok3: "kernel_ok k3" using take_thread_box_ok [OF 1(4) [unfolded x]] by simp
  have "thread_at ?k1 i = Some (t\<lparr>ct_state := Running, ct_resume := ResumeNormal\<rparr>)"
    using thread_at_put [of k i t "t\<lparr>ct_state := Running, ct_resume := ResumeNormal\<rparr>" i] 1(1)
      find_thread_index [OF 1(1)] by (simp add: find_thread_at)
  then have run3: "running k3 i (t\<lparr>ct_state := Running, ct_resume := ResumeNormal\<rparr>)"
    by (intro take_thread_box_running [OF 1(4) [unfolded x]]) (simp add: running_def thread_at_def)
  show ?case unfolding x prod.case
  proof (intro yields_bind, goal_cases)
    case (1 y)
    obtain thread' k4 where y: "y = (thread', k4)" by (cases y)
    have ok4: "kernel_ok k4" using run 1 ok3 run3 thread_calls_ok unfolding y waits_safely_def by blast
    show ?case unfolding y prod.case
    proof (intro yields_bind, goal_cases)
      case (1 k5 z)
      obtain pid j where z: "z = (pid, j)" by (cases z)
      have ok6: "kernel_ok (k5\<lparr>k_current := None\<rparr>)" using replace_thread_box_ok [OF 1(1) ok4] by simp
      show ?case unfolding z prod.case
      proof (intro yields_bind, goal_cases)
        case (1 t' p')
        have "kernel_ok (k5\<lparr>k_current := None\<rparr>\<lparr>sc_threads := put_thread j
            (if ct_state t' = Running then t'\<lparr>ct_state := Ready\<rparr> else t') (sc_threads (k5\<lparr>k_current := None\<rparr>))\<rparr>)"
          using 1(1) ok6 by (intro kernel_ok_put [OF ok6 1(1)])
            (use kernel_ok_waits [OF ok6 1(1)] in \<open>auto split: if_splits\<close>)
        then show ?case by simp
      qed
    qed
  qed
qed

lemma run_next_ok: "\<lbrakk>waits_safely run; kernel_ok k\<rbrakk> \<Longrightarrow> yields (run_next run k) kernel_ok"
  by (auto simp: run_next_def Let_def intro: run_thread_ok split: option.split)

lemmas fold_res_step = fold_res_keeps [where P = kernel_ok]

lemma tick_ok:
  assumes ok: "kernel_ok k"
  shows "yields (tick alive now k) kernel_ok"
proof (rule yieldsI)
  fix k' assume r: "tick alive now k = Ret k'"
  then obtain time k1 where k1: "tick_at alive time k = Ret k1"
      and k': "fold_res deliver_interrupt (k_active_interrupts k1) (k1\<lparr>k_active_interrupts := []\<rparr>) = Ret k'"
    by (auto simp: tick_def)
  obtain objs where objs: "tick_threads time (sc_threads k) (sc_objects k) =
      Ret (map (thread_ticked time) (sc_threads k), objs)"
    and ok2: "sched_ok (k\<lparr>sc_threads := map (thread_ticked time) (sc_threads k), sc_objects := objs\<rparr>)"
    using tick_timeouts [OF kernel_ok_sched [OF ok]] by blast
  let ?k = "k\<lparr>sc_threads := map (thread_ticked time) (sc_threads k), sc_objects := objs\<rparr>"
  have "kernel_ok ?k" using ok ok2 by (simp add: kernel_ok_def thread_indices_def thread_ticked_def awake_def)
  moreover have "kernel_ok s'" if "tick_object alive time i s = Ret s'" "kernel_ok s" for i s s'
    using that yieldsD [OF timer_tick_step] kernel_ok_step
    by (auto simp: tick_object_def split: option.splits kobj.splits) blast+
  moreover have "fold_res (tick_object alive time) [0..<length objs] ?k = Ret k1"
    using k1 objs by (simp add: tick_at_def)
  ultimately have "kernel_ok k1" using fold_res_step [of "tick_object alive time"] by blast
  moreover have "kernel_ok s'" if "deliver_interrupt n s = Ret s'" "kernel_ok s" for n s s'
    using that yieldsD [OF event_signal_step] kernel_ok_step
    by (auto simp: deliver_interrupt_def split: option.splits) blast+
  ultimately show "kernel_ok k'" using fold_res_step [of deliver_interrupt] k' by (metis kernel_ok_other(8))
qed

section \<open>Reachable states\<close>

lemma kernel_new_ok: "kernel_ok (kernel_new now)"
  by (simp add: kernel_ok_def kernel_new_def sched_ok_def queues_live_def thread_indices_def)

text \<open>The states the main loop goes through from \<open>start\<close>, with interrupts that the host raises at any
  time and any readings of the clock.\<close>

inductive reachable :: "('t, 'p) thread_body \<Rightarrow> ('t, 'p) kernel \<Rightarrow> ('t, 'p) kernel \<Rightarrow> bool" for run start where
  start: "reachable run start start"
| interrupt: "reachable run start k \<Longrightarrow> reachable run start (activate_interrupt n k)"
| turn: "\<lbrakk>reachable run start k; main_turn run alive now k = Ret k'\<rbrakk> \<Longrightarrow> reachable run start k'"

lemma main_turn_ok:
  assumes "waits_safely run" "kernel_ok k" "main_turn run alive now k = Ret k'"
  shows "kernel_ok k'"
proof -
  obtain k1 where k1: "run_next run k = Ret k1" "tick alive now k1 = Ret k'"
    using assms(3) by (auto simp: main_turn_def)
  show ?thesis using yieldsD [OF tick_ok [OF yieldsD [OF run_next_ok [OF assms(1,2)] k1(1)]] k1(2)] .
qed

lemma reachable_ok:
  assumes "reachable run start k" "waits_safely run" "kernel_ok start"
  shows "kernel_ok k"
  using assms
proof (induction rule: reachable.induct)
  case (interrupt k n)
  then show ?case by (simp add: activate_interrupt_def)
qed (auto dest: main_turn_ok)

text \<open>What holds whatever the threads wait for: their indices, the handle tables, and the thread to run
  next.\<close>

definition steady :: "('t, 'p) kernel \<Rightarrow> bool" where
  "steady k \<longleftrightarrow> ids_ok k \<and> tables_ok (k_processes k) \<and> next_ready k"

lemma steady_calls: "\<lbrakk>any_calls k k'; steady k\<rbrakk> \<Longrightarrow> steady k'"
  using any_calls_ids tables.any_calls_related [of k k'] ready.any_calls_related [of k k']
  by (auto simp: steady_def tables_kept_def ready_kept_def)

lemma steady_put:
  assumes "steady k" "find_thread i (sc_threads k) = Ret t" "ct_index t' = ct_index t"
    and "ct_state t = Ready \<longrightarrow> ct_state t' = Ready \<or> k_next k = None"
  shows "steady (k\<lparr>sc_threads := put_thread i t' (sc_threads k)\<rparr>)"
proof -
  have "thread_indices (k\<lparr>sc_threads := put_thread i t' (sc_threads k)\<rparr>) = thread_indices k"
    using put_thread_indices [of t' i] find_thread_index [OF assms(2)] assms(3) by (simp add: thread_indices_def)
  moreover have "next_ready (k\<lparr>sc_threads := put_thread i t' (sc_threads k)\<rparr>)"
  proof (cases "k_next k")
    case (Some j)
    then show ?thesis
      using ready_kept_put [OF assms(2,3)] assms(1,4) by (simp add: ready_kept_def steady_def)
  qed (simp add: next_ready_def)
  ultimately show ?thesis using assms(1) by (simp add: steady_def ids_ok_def)
qed

lemma steady_other:
  "\<lbrakk>sc_threads k' = sc_threads k; k_processes k' = k_processes k; k_next_tid k' = k_next_tid k;
    k_next k' = k_next k \<or> k_next k' = None; steady k\<rbrakk> \<Longrightarrow> steady k'"
  by (auto simp: steady_def ids_ok_def thread_indices_def next_ready_def ready_at_def thread_at_def)

text \<open>A turn, step by step.\<close>

lemma run_thread_parts:
  assumes "run_thread run i k = Ret k'"
  obtains t thread boxes thread' k4 j t' boxes' where
    "find_thread i (sc_threads k) = Ret t" "ct_state t = Ready"
    "run thread (ct_resume t) (k\<lparr>sc_threads := put_thread i (t\<lparr>ct_state := Running, ct_resume := ResumeNormal\<rparr>)
       (sc_threads k), k_current := Some (ct_pid t, i), k_thread_boxes := boxes\<rparr>) = Ret (thread', k4)"
    "find_thread j (sc_threads k4) = Ret t'"
    "k' = k4\<lparr>k_thread_boxes := boxes', k_current := None,
       sc_threads := put_thread j (if ct_state t' = Running then t'\<lparr>ct_state := Ready\<rparr> else t') (sc_threads k4)\<rparr>"
proof -
  let ?k1 = "\<lambda>t. k\<lparr>sc_threads := put_thread i (t\<lparr>ct_state := Running, ct_resume := ResumeNormal\<rparr>) (sc_threads k)\<rparr>"
  obtain t thread k3 thread' k4 k5 pid j t' where
      t: "find_thread i (sc_threads k) = Ret t" "ct_state t = Ready"
      and box: "take_thread_box i ((?k1 t)\<lparr>k_current := Some (ct_pid t, i)\<rparr>) = Ret (thread, k3)"
      and body: "run thread (ct_resume t) k3 = Ret (thread', k4)"
      and boxed: "replace_thread_box i thread' k4 = Ret k5" "k_current k5 = Some (pid, j)"
      and last: "find_thread j (sc_threads k5) = Ret t'"
        "k' = k5\<lparr>k_current := None, sc_threads := put_thread j
          (if ct_state t' = Running then t'\<lparr>ct_state := Ready\<rparr> else t') (sc_threads k5)\<rparr>"
    using assms unfolding run_thread_def Let_def by (auto simp del: find_thread_at)
  obtain boxes where "k3 = (?k1 t)\<lparr>k_current := Some (ct_pid t, i), k_thread_boxes := boxes\<rparr>"
    using box by (auto simp: take_thread_box_def)
  moreover obtain boxes' where "k5 = k4\<lparr>k_thread_boxes := boxes'\<rparr>"
    using boxed(1) by (auto simp: replace_thread_box_def split: if_splits)
  ultimately show thesis using that [OF t _ _, of thread boxes thread' k4 j t' boxes'] body last by simp
qed

lemma run_thread_steady:
  assumes run: "calls_only run" and ok: "steady k" "k_next k = None" and r: "run_thread run i k = Ret k'"
  shows "steady k'"
proof -
  obtain t thread boxes thread' k4 j t' boxes' where
      t: "find_thread i (sc_threads k) = Ret t" "ct_state t = Ready"
      and body: "run thread (ct_resume t) (k\<lparr>sc_threads := put_thread i (t\<lparr>ct_state := Running, ct_resume := ResumeNormal\<rparr>)
        (sc_threads k), k_current := Some (ct_pid t, i), k_thread_boxes := boxes\<rparr>) = Ret (thread', k4)"
      and last: "find_thread j (sc_threads k4) = Ret t'"
        "k' = k4\<lparr>k_thread_boxes := boxes', k_current := None,
          sc_threads := put_thread j (if ct_state t' = Running then t'\<lparr>ct_state := Ready\<rparr> else t') (sc_threads k4)\<rparr>"
    using run_thread_parts [OF r] .
  let ?t = "t\<lparr>ct_state := Running, ct_resume := ResumeNormal\<rparr>"
  let ?k1 = "k\<lparr>sc_threads := put_thread i ?t (sc_threads k)\<rparr>"
  let ?k3 = "k\<lparr>sc_threads := put_thread i ?t (sc_threads k), k_current := Some (ct_pid t, i), k_thread_boxes := boxes\<rparr>"
  have "steady ?k1" using ok by (intro steady_put [OF ok(1) t(1)]) simp_all
  then have ok3: "steady ?k3" by (rule steady_other [rotated 4]) simp_all
  have "thread_at ?k3 i = Some ?t"
    using thread_at_put [of k i t ?t i] t(1) find_thread_index [OF t(1)] by (simp add: find_thread_at thread_at_def)
  then have "running ?k3 i ?t" by (simp add: running_def)
  then have "any_calls ?k3 k4" using run body ok3 unfolding calls_only_def steady_def by blast
  then have "steady k4" using ok3 by (rule steady_calls)
  then have "steady (k4\<lparr>sc_threads := put_thread j
      (if ct_state t' = Running then t'\<lparr>ct_state := Ready\<rparr> else t') (sc_threads k4)\<rparr>)"
    by (rule steady_put [OF _ last(1)]) simp_all
  then show ?thesis by (rule steady_other [rotated 4]) (simp_all add: last(2))
qed

lemma run_next_steady:
  assumes "calls_only run" "steady k" "run_next run k = Ret k'"
  shows "steady k'"
proof -
  have "steady (k\<lparr>k_next := None\<rparr>)" using assms(2) by (rule steady_other [rotated 4]) simp_all
  then show ?thesis using run_thread_steady [OF assms(1)] assms(3)
    by (auto simp: run_next_def Let_def split: option.split_asm)
qed

text \<open>A tick wakes threads that wait and leaves all others as they are.\<close>

lemma tick_threads_each:
  "tick_threads time ts objs = Ret (ts', objs') \<Longrightarrow>
     list_all2 (\<lambda>t t'. ct_index t' = ct_index t \<and> ct_pid t' = ct_pid t \<and> (ct_state t = Ready \<longrightarrow> t' = t)) ts ts'"
proof (induction ts arbitrary: objs ts' objs')
  case (Cons t ts)
  then show ?case
    by (cases "ct_state t"; cases "ct_wait_timeout t") (auto simp: Let_def split: if_splits dest!: wake_up_ids)
qed simp

lemma ticked_threads:
  assumes "list_all2 (\<lambda>t t'. ct_index t' = ct_index t \<and> ct_pid t' = ct_pid t \<and> (ct_state t = Ready \<longrightarrow> t' = t)) ts ts'"
  shows "map (\<lambda>t. (ct_index t, ct_pid t)) ts' = map (\<lambda>t. (ct_index t, ct_pid t)) ts"
    "\<lbrakk>find (\<lambda>t. ct_index t = i) ts = Some t; ct_state t = Ready\<rbrakk> \<Longrightarrow> find (\<lambda>t. ct_index t = i) ts' = Some t"
  using assms by (induction rule: list_all2_induct) (auto split: if_splits)

lemma tick_steady:
  assumes "tick alive now k = Ret k'" "steady k"
  shows "steady k'"
proof -
  obtain time k1 where k1: "tick_at alive time k = Ret k1"
      and k': "fold_res deliver_interrupt (k_active_interrupts k1) (k1\<lparr>k_active_interrupts := []\<rparr>) = Ret k'"
    using assms(1) by (auto simp: tick_def)
  obtain ts objs where t: "tick_threads time (sc_threads k) (sc_objects k) = Ret (ts, objs)"
      "fold_res (tick_object alive time) [0..<length objs] (k\<lparr>sc_threads := ts, sc_objects := objs\<rparr>) = Ret k1"
    using k1 by (auto simp: tick_at_def)
  note ticked = ticked_threads [OF tick_threads_each [OF t(1)]]
  have "map ct_index ts = map ct_index (sc_threads k)"
    using arg_cong [OF ticked(1), of "map fst"] by (simp add: comp_def)
  moreover have "ready_at (k\<lparr>sc_threads := ts, sc_objects := objs\<rparr>) i" if "ready_at k i" for i
    using that ticked(2) by (fastforce simp: ready_at_def thread_at_def)
  ultimately have "steady (k\<lparr>sc_threads := ts, sc_objects := objs\<rparr>)"
    using assms(2) by (simp add: steady_def ids_ok_def thread_indices_def next_ready_def)
  moreover have "steady s'" if "ids_kept s s'" "tables_kept s s'" "ready_kept s s'" "steady s" for s s'
    using that by (simp add: steady_def ids_kept_def tables_kept_def ready_kept_def)
  note related = this
  ultimately have "steady k1"
    using related [OF ids.tick_objects_steps [OF t(2)] tables.tick_objects_steps [OF t(2)] ready.tick_objects_steps [OF t(2)]]
    by blast
  then have "steady (k1\<lparr>k_active_interrupts := []\<rparr>)" by (rule steady_other [rotated 4]) simp_all
  moreover have "steady s'" if "deliver_interrupt n s = Ret s'" "steady s" for n s s'
    using that related [OF ids.event_signal_steps tables.event_signal_steps ready.event_signal_steps]
    by (auto simp: deliver_interrupt_def split: option.splits)
  ultimately show ?thesis using fold_res_keeps [where P = steady, OF _ k'] by blast
qed

lemma reachable_steady:
  assumes "reachable run start k" "calls_only run" "steady start"
  shows "steady k"
  using assms
proof (induction rule: reachable.induct)
  case (interrupt k n)
  then show ?case by (intro steady_other [of "activate_interrupt n k" k]) (simp_all add: activate_interrupt_def)
next
  case (turn k alive now k')
  then obtain k1 where "run_next run k = Ret k1" "tick alive now k1 = Ret k'" by (auto simp: main_turn_def)
  then show ?case using turn run_next_steady tick_steady by blast
qed

lemma new_processD: "new_process name p k = Ret (x, k') \<Longrightarrow> kernel_ok k \<Longrightarrow> kernel_ok k'"
  using yieldsD [OF new_process_ok] by fastforce

lemma srv_start_ok:
  assumes "srv_start p thread k = Ret (x, k')" "kernel_ok k"
  shows "kernel_ok k'"
proof -
  obtain pid k1 where k1: "new_process ''srv'' p k = Ret (pid, k1)"
    using assms(1) by (auto simp: srv_start_def)
  obtain server client k2 where k2: "make_port_pair k1 = ((server, client), k2)" by (metis prod.collapse)
  have "kernel_ok k2" using make_port_pair_ok [OF new_processD [OF k1 assms(2)]] k2 by simp
  moreover obtain y where "new_thread pid (thread server) k2 = Ret (y, k')"
    using assms(1) k1 k2 by (auto simp: srv_start_def)
  ultimately show ?thesis by (rule new_threadD [rotated])
qed

lemma start_service_ok: "start_service s k = Ret k' \<Longrightarrow> kernel_ok k \<Longrightarrow> kernel_ok k'"
  by (auto simp: start_service_def service_start_def dest: new_processD new_threadD)

lemma boot_ok:
  assumes "boot now = Ret k"
  shows "kernel_ok k"
proof -
  obtain x srv_port k1 k2 k3 pid k4 y where
      b: "srv_start ProcessHLE (\<lambda>server. thread_hle_new (SrvClosure server)) (kernel_new now) = Ret ((x, srv_port), k1)"
        "register_port srv_name srv_port k1 = Ret k2"
        "fold_res start_service [AptU, NdmU, DSP, CfgU, FsUser] k2 = Ret k3"
        "new_process ''hle_loader'' ProcessHLE k3 = Ret (pid, k4)"
        "new_thread pid (thread_hle_new LoaderClosure) k4 = Ret (y, k)"
    using assms unfolding boot_def and_then_eq_Ret by (auto simp del: fold_res.simps)
  have "kernel_ok k1" by (rule srv_start_ok [OF b(1) kernel_new_ok])
  then have "kernel_ok k2" using b(2) by (auto simp: register_port_def)
  then have "kernel_ok k3" using fold_res_step [of start_service, OF _ b(3)] start_service_ok by blast
  then show ?thesis using new_threadD [OF b(5)] new_processD [OF b(4)] by blast
qed

text \<open>What calls keep, the start of the system keeps too.\<close>

lemma new_process_ids: "new_process name p k = Ret (pid, k') \<Longrightarrow> pid \<in> set (process_ids k')"
  by (auto simp: new_process_def process_ids_def Let_def)

context call_relation begin

lemma service_start_related: "service_start name p box k = Ret (pid, k') \<Longrightarrow> R k k'"
  by (auto simp: service_start_def dest: new_process_ids thread process intro: follows)

lemma srv_start_related:
  assumes "srv_start p box k = Ret (x, k')"
  shows "R k k'"
proof -
  obtain pid k1 where k1: "new_process ''srv'' p k = Ret (pid, k1)"
    using assms by (auto simp: srv_start_def)
  obtain server client k2 where k2: "make_port_pair k1 = ((server, client), k2)" by (metis prod.collapse)
  have "process_ids k2 = process_ids k1"
    using k2 by (auto simp: make_port_pair_def new_object_def map_object_def process_ids_def Let_def)
  then have "pid \<in> set (process_ids k2)" using new_process_ids [OF k1] by simp
  moreover obtain y where "new_thread pid (box server) k2 = Ret (y, k')"
    using assms k1 k2 by (auto simp: srv_start_def)
  ultimately have "R k2 k'" by (rule thread)
  moreover have "R k1 k2" using pairs_related(1) [of k1] k2 by simp
  ultimately show ?thesis using process [OF k1] follows by blast
qed

end

lemma boot_related:
  assumes R: "call_relation R" and r: "boot now = Ret k"
  shows "R (kernel_new now) k"
proof -
  note keep = call_relation.service_start_related [OF R] call_relation.process [OF R] call_relation.thread [OF R]
  note chain = object_steps.follows [OF call_relation.axioms(1) [OF R]]
  obtain x srv_port k1 k2 k3 pid k4 y where
      b: "srv_start ProcessHLE (\<lambda>server. thread_hle_new (SrvClosure server)) (kernel_new now) = Ret ((x, srv_port), k1)"
        "register_port srv_name srv_port k1 = Ret k2"
        "fold_res start_service [AptU, NdmU, DSP, CfgU, FsUser] k2 = Ret k3"
        "new_process ''hle_loader'' ProcessHLE k3 = Ret (pid, k4)"
        "new_thread pid (thread_hle_new LoaderClosure) k4 = Ret (y, k)"
    using r unfolding boot_def and_then_eq_Ret by (auto simp del: fold_res.simps)
  have "R k1 k2"
    using b(2) by (auto simp: register_port_def thread_ids_def intro: call_relation.same [OF R])
  with call_relation.srv_start_related [OF R b(1)] have 2: "R (kernel_new now) k2" by (rule chain)
  have "R (kernel_new now) s'" if "start_service s k = Ret s'" "R (kernel_new now) k" for s k s'
    using that keep(1) chain by (auto simp: start_service_def)
  then have "R (kernel_new now) k3" using fold_res_keeps [where P = "R (kernel_new now)", OF _ b(3) 2] by blast
  then show ?thesis using chain keep(2) [OF b(4)] keep(3) [OF new_process_ids [OF b(4)] b(5)] by blast
qed

lemma boot_steady:
  assumes "boot now = Ret k"
  shows "steady k"
proof -
  have "tables_kept (kernel_new now) k" "ready_kept (kernel_new now) k"
    using boot_related [OF tables.call_relation_axioms assms] boot_related [OF ready.call_relation_axioms assms] .
  moreover have "tables_ok (k_processes (kernel_new now))" "next_ready (kernel_new now)"
    by (simp_all add: kernel_new_def tables_ok_def process_at_def next_ready_def)
  ultimately show ?thesis
    using kernel_ids_ok [OF boot_ok [OF assms]] by (auto simp: steady_def tables_kept_def ready_kept_def)
qed

section \<open>The properties\<close>

lemma reachable_sched_ok: "\<lbrakk>reachable run start k; waits_safely run; boot now = Ret start\<rbrakk> \<Longrightarrow> sched_ok k"
  using reachable_ok boot_ok kernel_ok_sched by blast

text \<open>C1: in every state the main loop reaches from the start of the system, with threads that act
  on the kernel by calls only - whatever they wait for, and asking by \<open>schedule_next\<close> for ready
  threads, as CreateThread does - thread indices are unique, the handles of every process are in order,
  distinct and not zero, and a thread asked for by \<open>schedule_next\<close> is ready.  If, besides, no thread
  ever waits for several objects of which one is ready - C37 shows what that leads to - then every
  waker in the queue of an object stands for a wait of its thread that is still on, and no event can
  panic when it is signaled.\<close>

theorem reachable_consistent:
  assumes "boot now = Ret start" "calls_only run" "reachable run start k"
  shows "distinct (map ct_index (sc_threads k)) \<and>
    (\<forall>pid p. find_common_process pid (k_processes k) = Ret p \<longrightarrow>
       sorted_wrt (<) (map fst (ot_objects (cp_objects p))) \<and> 0 \<notin> fst ` set (ot_objects (cp_objects p))) \<and>
    (\<forall>i. k_next k = Some i \<longrightarrow> (\<exists>t. thread_at k i = Some t \<and> ct_state t = Ready)) \<and>
    (waits_safely run \<longrightarrow>
       (\<forall>i obj w. object_at k i = Some obj \<and> w \<in> set (wakers_of obj) \<longrightarrow>
          (\<exists>t. thread_at k (wk_thread w) = Some t \<and> ct_state t = Waiting \<and> ct_wake_key t = wk_key w \<and>
             i \<in> set (ct_wait_objects t))) \<and>
       (\<forall>i e. object_at k i = Some (Event e) \<longrightarrow> (\<exists>k'. event_signal i k = Ret k')))"
proof -
  have "steady k" by (rule reachable_steady [OF assms(3,2) boot_steady [OF assms(1)]])
  moreover have "(\<exists>t. thread_at k (wk_thread w) = Some t \<and> ct_state t = Waiting \<and> ct_wake_key t = wk_key w \<and>
      i \<in> set (ct_wait_objects t))"
    if "waits_safely run" "object_at k i = Some obj" "w \<in> set (wakers_of obj)" for i obj w
    using queued_live [OF reachable_sched_ok [OF assms(3) that(1) assms(1)] that(2,3)] by (auto simp: waits_on_def)
  moreover have "\<exists>k'. event_signal i k = Ret k'" if "waits_safely run" "object_at k i = Some (Event e)" for i e
    using event_signal_only_wakes [OF reachable_sched_ok [OF assms(3) that(1) assms(1)] that(2)] by blast
  ultimately show ?thesis
    by (simp add: steady_def ids_ok_def thread_indices_def tables_ok_def table_ok_def next_ready_def ready_at_def)
qed

text \<open>A body that creates an event and waits for it.\<close>

definition sample_body :: "('t, 'p) thread_body" where
  "sample_body thread resume k =
     and_then (create_event (\<lambda>n. of_nat (Suc n)) OneShot k) (\<lambda>(res, k1).
     case res of
       Inl _ \<Rightarrow> Ret (thread, k1)
     | Inr h \<Rightarrow> and_then (wait_sync_1 0 (Some h) 5 k1) (\<lambda>(_, k2). Ret (thread, k2)))"

lemma new_object_handle_running:
  "new_object_handle draws obj k = Ret (x, k') \<Longrightarrow> running k i t \<Longrightarrow> running k' i t"
  by (auto simp: new_object_handle_def new_object_def kernel_new_handle_def running_def thread_at_def Let_def)

lemma sample_body_steps:
  assumes run: "running k i t" and r: "sample_body thread resume k = Ret (thread', k')"
  shows "thread_calls k k'"
proof -
  obtain res k1 where c: "create_event (\<lambda>n. of_nat (Suc n)) OneShot k = Ret (res, k1)"
    using r by (auto simp: sample_body_def)
  then obtain h x where h: "res = Inr h" "new_object_handle (\<lambda>n. of_nat (Suc n)) (Event (event_new OneShot)) k = Ret (x, k1)"
    by (auto simp: create_event_def)
  then have call: "thread_call k k1" "running k1 i t"
    using new_object_handle_running [OF h(2) run] by (auto intro!: thread_call.new_object simp: event_new_def)
  obtain y where "wait_sync_1 0 (Some h) 5 k1 = Ret (y, k')" using r c h by (auto simp: sample_body_def)
  then have "thread_call k1 k'" using call(2) by (intro thread_call.wait_one)
  then show ?thesis using call(1) by (meson rtranclp.simps)
qed

lemma sample_body_calls: "calls_only sample_body" "waits_safely sample_body"
  by (auto simp: calls_only_def waits_safely_def intro: sample_body_steps thread_calls_any)

declare insert_loop.simps [code]

definition sample_outcome :: "((closure, nat) thread_hle, process) kernel res" where
  "sample_outcome = and_then (boot 0) (main_turn sample_body (\<lambda>_. True) 0)"

lemmas boot_evaluation =
  boot_def srv_start_def new_process_def kernel_new_def make_port_pair_def new_object_def new_thread_def
  map_object_def modify_object_def service_start_def start_service_def register_port_def srv_name_def
  thread_object_new_def Let_def cadd_def checked_add_def thread_new_def

lemmas turn_evaluation =
  main_turn_def run_next_def next_thread_def run_thread_def find_thread_def put_thread_def find_common_process_def
  take_thread_box_def replace_thread_box_def new_object_handle_def new_object_def kernel_new_handle_def
  current_process_def process_new_handle_def table_insert_def insert_loop.simps table_new_def handle_from_raw_def
  put_process_def btree_insert_def object_at_def Let_def

lemma sample_outcome_evaluates:
  "case sample_outcome of
     Ret k \<Rightarrow> length (sc_objects k) = 10 \<and>
       sc_objects k ! 9 = Event \<lparr>ev_signal = signal_new OneShot, ev_queue = [\<lparr>wk_thread = 0, wk_key = 0\<rparr>]\<rparr>
   | _ \<Rightarrow> False"
  unfolding sample_outcome_def
  apply (simp add: boot_evaluation)
  apply (simp add: turn_evaluation sample_body_def create_event_def wait_sync_1_def lookup_object_def
      kernel_lookup_handle_def process_lookup_handle_def table_lookup_def dyn_cast_def event_new_def
      kernel_time_def csub_def timeout_absolute_def make_timeout_def suspend_thread_def suspend_current_def
      current_pid_tid_def thread_wait_def sync_wait_def event_wait_def event_at_def signal_consume_def
      signal_new_def map_object_def modify_object_def cadd_def checked_add_def)
  apply (simp add: tick_def tick_at_def kernel_time_def csub_def upt_rec tick_object_def upgrade_def object_at_def signal_new_def)
  done

theorem reachable_consistent_witness:
  "\<exists>k e k'. and_then (boot 0) (main_turn sample_body (\<lambda>_. True) 0) = Ret (k :: ((closure, nat) thread_hle, process) kernel) \<and>
    object_at k 9 = Some (Event e) \<and> ev_queue e \<noteq> [] \<and> event_signal 9 k = Ret k'"
proof -
  obtain k where "sample_outcome = Ret k" "length (sc_objects k) = 10"
      "sc_objects k ! 9 = Event \<lparr>ev_signal = signal_new OneShot, ev_queue = [\<lparr>wk_thread = 0, wk_key = 0\<rparr>]\<rparr>"
    using sample_outcome_evaluates by (auto split: res.splits)
  then obtain e where k: "sample_outcome = Ret k" "object_at k 9 = Some (Event e)" "ev_queue e \<noteq> []"
    by (simp add: object_at_def)
  then obtain start where start: "boot 0 = Ret start" "main_turn sample_body (\<lambda>_. True) 0 start = Ret k"
    by (auto simp: sample_outcome_def)
  then have "reachable sample_body start k" using reachable.start reachable.turn by blast
  from reachable_consistent [OF start(1) sample_body_calls(1) this] sample_body_calls(2) have "\<exists>k'. event_signal 9 k = Ret k'"
    using k(2) by blast
  then show ?thesis using k unfolding sample_outcome_def by blast
qed

end
