(* ===== verification/GuestFacts.thy ===== *)
theory GuestFacts
  imports Guest
begin

text \<open>
  What the guest side does: where the thread-local storage of the threads of a process lies,
  which registers a system call may change, that the system calls written out in
  \<open>guest/src/lib.rs\<close> do to the kernel what those of \<open>hle/src/svc.rs\<close> do, and how a thread resumes.
\<close>

section \<open>Thread-local storage\<close>

text \<open>The storage of the first \<open>n\<close> threads of a process.\<close>

primrec tls_of_threads ::
  "'m memory_map \<Rightarrow> nat \<Rightarrow> 'm \<Rightarrow> (u32 list \<times> process_tls \<times> 'm) res" where
  "tls_of_threads mm 0 mem = Ret ([], process_tls_new, mem)"
| "tls_of_threads mm (Suc n) mem =
     and_then (tls_of_threads mm n mem) (\<lambda>(addrs, tls, mem1).
     and_then (allocate_tls mm tls mem1) (\<lambda>(addr, tls1, mem2). Ret (addrs @ [addr], tls1, mem2)))"

definition maps_tls :: "'m memory_map \<Rightarrow> bool" where
  "maps_tls mm \<longleftrightarrow> (\<forall>addr mem. \<exists>mem1. mm_map mm addr 0x1000 ''tls'' None ReadWrite mem = Ret mem1)"

text \<open>The state after \<open>n\<close> allocations: the slots of the last page that are left.\<close>

definition tls_state :: "nat \<Rightarrow> process_tls" where
  "tls_state n =
     \<lparr>pt_free = map of_nat (rev [n..<8 * ((n + 7) div 8)]), pt_next_offset = of_nat ((n + 7) div 8)\<rparr>"

definition tls_address :: "nat \<Rightarrow> u32" where
  "tls_address i = USERLAND_TLS_BASE + of_nat (0x200 * (i mod 256))"

lemma slot_word:
  assumes "j < 8"
  shows "push_bit 3 (of_nat p :: u8) OR of_nat j = of_nat (8 * p + j)"
proof -
  have "push_bit 3 (of_nat p :: u8) AND of_nat j = 0"
  proof (rule bit_word_eqI)
    fix i
    have "i < 3" if "bit (of_nat j :: u8) i"
      using that assms bit_below [of "of_nat j :: u8" 3 i] by (simp add: unat_of_nat)
    then show "bit (push_bit 3 (of_nat p :: u8) AND of_nat j) i \<longleftrightarrow> bit (0 :: u8) i"
      by (auto simp: bit_simps)
  qed
  then have "push_bit 3 (of_nat p :: u8) OR of_nat j = push_bit 3 (of_nat p) + of_nat j"
    by (simp add: disjunctive_add_eq_or)
  also have "\<dots> = of_nat (8 * p + j)" by (simp add: push_bit_eq_mult mult.commute)
  finally show ?thesis .
qed

lemma new_page_slots:
  "map (\<lambda>offset. push_bit 3 (of_nat p :: u8) OR offset) [7, 6, 5, 4, 3, 2, 1, 0] =
     map of_nat (rev [8 * p..<8 * p + 8])"
  using slot_word [of 7 p] slot_word [of 6 p] slot_word [of 5 p] slot_word [of 4 p]
    slot_word [of 3 p] slot_word [of 2 p] slot_word [of 1 p] slot_word [of 0 p]
  by (simp add: upt_rec)

lemma shifted_byte:
  assumes "k \<le> 12"
  shows "cadd USERLAND_TLS_BASE (push_bit k (ucast (x :: u8))) = Ret (USERLAND_TLS_BASE + of_nat (2 ^ k * unat x))"
proof -
  have "ucast x = (of_nat (unat x) :: u32)" by (rule of_nat_unat [symmetric])
  then have p: "push_bit k (ucast x :: u32) = of_nat (2 ^ k * unat x)"
    by (simp add: push_bit_eq_mult mult.commute)
  have "(2 :: nat) ^ k \<le> 2 ^ 12" using assms by (intro power_increasing) simp_all
  moreover have "unat x < 256" by (rule unsigned_less [of x, simplified])
  ultimately have "2 ^ k * unat x \<le> 2 ^ 12 * 256" by (intro mult_le_mono) simp_all
  moreover from this have "unat (of_nat (2 ^ k * unat x) :: u32) = 2 ^ k * unat x"
    by (intro unat_of_small) simp
  ultimately show ?thesis
    unfolding p by (simp add: USERLAND_TLS_BASE_def)
qed

lemma slot_address:
  "cadd USERLAND_TLS_BASE (push_bit 9 (ucast (of_nat n :: u8))) = Ret (tls_address n)"
proof -
  have slot: "2 ^ 9 * unat (of_nat n :: u8) = 0x200 * (n mod 256)" by (simp add: unat_of_nat)
  show ?thesis
    unfolding tls_address_def slot [symmetric] by (rule shifted_byte) simp
qed

lemma free_after_pop:
  assumes "n < e"
  shows "map f (rev [n..<e]) \<noteq> []" "last (map f (rev [n..<e])) = f n"
    "butlast (map f (rev [n..<e])) = map f (rev [Suc n..<e])"
  using assms by (simp_all add: upt_conv_Cons)

lemma allocate_tls_step:
  assumes mm: "maps_tls mm" and n: "n < 2040"
  shows "\<exists>mem1. allocate_tls mm (tls_state n) mem = Ret (tls_address n, tls_state (Suc n), mem1)"
proof (cases "n mod 8 = 0")
  case False
  let ?e = "8 * ((n + 7) div 8)"
  define q where "q = n div 8"
  have n: "8 * q < n" "n < 8 * q + 8" using False mult_div_mod_eq [of 8 n] mod_less_divisor [of 8 n] unfolding q_def by linarith+
  have "(n + 7) div 8 = Suc q" "(8 + n) div 8 = Suc q" using n by (intro div_nat_eqI; simp)+
  then have e: "n < ?e" "(8 + n) div 8 = (n + 7) div 8" using n by simp_all
  show ?thesis
    using free_after_pop [OF e(1), of "of_nat :: nat \<Rightarrow> u8"] slot_address [of n]
    by (simp add: allocate_tls_def tls_state_def e(2) del: rev_map)
next
  case True
  then obtain p where p: "n = 8 * p" by (metis mult_div_mod_eq add_0_right)
  have pages: "(n + 7) div 8 = p" "(Suc n + 7) div 8 = Suc p" using p by simp_all
  have small: "unat (of_nat p :: u8) = p" using n p by (simp add: unat_of_nat)
  obtain page where page: "cadd USERLAND_TLS_BASE (push_bit 12 (ucast (of_nat p :: u8))) = Ret page"
    using shifted_byte [of 12] by blast
  obtain mem1 where mem1: "mm_map mm page 0x1000 ''tls'' None ReadWrite mem = Ret mem1"
    using mm by (auto simp: maps_tls_def)
  have next_offset: "cadd (of_nat p :: u8) 1 = Ret (of_nat (Suc p))" using small n p by simp
  have e: "n < 8 * p + 8" using p by simp
  have "allocate_tls mm (tls_state n) mem = Ret (tls_address n,
      \<lparr>pt_free = map of_nat (rev [Suc n..<8 * p + 8]), pt_next_offset = of_nat (Suc p)\<rparr>, mem1)"
    using page mem1 next_offset new_page_slots [of p] free_after_pop [OF e, of "of_nat :: nat \<Rightarrow> u8"] slot_address [of n]
    unfolding p allocate_tls_def tls_state_def pages [unfolded p]
    by (simp add: Let_def del: of_nat_Suc list.map)
  then show ?thesis using pages by (simp add: tls_state_def add.commute)
qed

lemma tls_of_threads_state:
  assumes mm: "maps_tls mm"
  shows "n \<le> 2040 \<Longrightarrow> \<exists>mem1. tls_of_threads mm n mem = Ret (map tls_address [0..<n], tls_state n, mem1)"
proof (induction n)
  case (Suc n)
  then obtain mem1 where "tls_of_threads mm n mem = Ret (map tls_address [0..<n], tls_state n, mem1)" by auto
  moreover obtain mem2 where "allocate_tls mm (tls_state n) mem1 = Ret (tls_address n, tls_state (Suc n), mem2)"
    using allocate_tls_step [OF mm] Suc.prems by (meson Suc_le_lessD)
  ultimately show ?case by auto
qed (simp add: tls_state_def process_tls_new_def)

lemma allocate_tls_full:
  assumes mm: "maps_tls mm"
  shows "allocate_tls mm (tls_state 2040) mem = Panic Overflow"
proof -
  have page: "cadd USERLAND_TLS_BASE 0xFF000 = Ret (USERLAND_TLS_BASE + 0xFF000)"
    by (simp add: USERLAND_TLS_BASE_def)
  obtain mem1 where mem1: "mm_map mm (USERLAND_TLS_BASE + 0xFF000) 0x1000 ''tls'' None ReadWrite mem = Ret mem1"
    using mm by (auto simp: maps_tls_def)
  have full: "cadd (255 :: u8) 1 = Panic Overflow" by (simp add: cadd_def checked_add_def)
  have "tls_state 2040 = \<lparr>pt_free = [], pt_next_offset = 255\<rparr>" by (simp add: tls_state_def)
  then show ?thesis by (simp add: allocate_tls_def page mem1 full Let_def del: cadd_eq_Ret)
qed

lemma tls_address_inj: "inj_on tls_address {..<256}"
proof (rule inj_onI)
  fix i j :: nat assume ij: "i \<in> {..<256}" "j \<in> {..<256}" "tls_address i = tls_address j"
  then have "unat (of_nat (0x200 * i) :: u32) = unat (of_nat (0x200 * j) :: u32)"
    by (simp add: tls_address_def)
  moreover have "unat (of_nat (0x200 * i) :: u32) = 0x200 * i" "unat (of_nat (0x200 * j) :: u32) = 0x200 * j"
    by (rule unat_of_small; use ij in simp)+
  ultimately show "i = j" by simp
qed

text \<open>C14: thread \<open>n\<close> of a process gets the storage slot \<open>n mod 256\<close>: the first 256 threads have
  different ones, thread 256 shares its storage, message buffer included, with the first thread,
  and the allocation for thread 2040 panics.\<close>

theorem tls_slots_repeat:
  assumes "maps_tls mm"
  shows "(n \<le> 2040 \<longrightarrow> (\<exists>tls mem1. tls_of_threads mm n mem = Ret (map tls_address [0..<n], tls, mem1))) \<and>
    tls_of_threads mm 2041 mem = Panic Overflow \<and>
    inj_on tls_address {..<256} \<and> tls_address (256 + i) = tls_address i"
proof -
  obtain mem1 where "tls_of_threads mm 2040 mem = Ret (map tls_address [0..<2040], tls_state 2040, mem1)"
    using tls_of_threads_state [OF assms, of 2040 mem] by auto
  moreover have "2041 = Suc 2040" by simp
  ultimately have "tls_of_threads mm 2041 mem = Panic Overflow"
    using allocate_tls_full [OF assms] by (simp only: tls_of_threads.simps) simp
  then show ?thesis
    using tls_of_threads_state [OF assms, of n mem] tls_address_inj by (simp add: tls_address_def) blast
qed

lemma flat_maps_tls: "maps_tls (dynarmic_memory flat_memory)"
  by (simp add: maps_tls_def dynarmic_memory_def dynarmic_map_def flat_memory_def)

theorem tls_slots_repeat_witness:
  "tls_of_threads (dynarmic_memory flat_memory) 2041 (\<lambda>_. 0) = Panic Overflow \<and>
   tls_address 256 = tls_address 0"
  using tls_slots_repeat [OF flat_maps_tls, of 0 "\<lambda>_. 0" 0] by simp

section \<open>The registers a system call may change\<close>

text \<open>The registers a system call puts its results into: most calls register 0 alone, those that make
  or name a handle and a few others register 1 too.\<close>

definition result_regs :: "u32 \<Rightarrow> u8 set" where
  "result_regs svc =
     (if svc = 0x02 then {0, 1, 2, 3, 4, 5}
      else if svc = 0x2B then {0, 1, 2}
      else if svc \<in> {0x08, 0x13, 0x17, 0x1A, 0x1E, 0x21, 0x25, 0x27, 0x28, 0x2D, 0x38, 0x4A} then {0, 1}
      else if svc \<in> {0x09, 0x0A, 0x53, 0x54} then {}
      else {0})"

text \<open>All registers but those of a set, with the status and extension registers, are as they were.\<close>

definition keeps_regs :: "u8 set \<Rightarrow> thread_regs \<Rightarrow> thread_regs \<Rightarrow> bool" where
  "keeps_regs S regs regs' \<longleftrightarrow>
     (regs_ok regs \<longrightarrow> regs_ok regs' \<and> tr_cpsr regs' = tr_cpsr regs \<and> tr_ext_regs regs' = tr_ext_regs regs \<and>
        (\<forall>r. r AND 0xF \<notin> S \<longrightarrow> reg_r r regs' = reg_r r regs))"

lemma keeps_regs_refl [simp]: "keeps_regs S regs regs"
  by (simp add: keeps_regs_def)

lemma keeps_sr [simp]: "\<lbrakk>b AND 0xF \<in> S; keeps_regs S regs regs'\<rbrakk> \<Longrightarrow> keeps_regs S regs (reg_sr b v regs')"
  by (auto simp: keeps_regs_def) (simp_all add: reg_sr_def)

lemma svc_control_memory_regs:
  "svc_control_memory w regs mem k = Ret (r, regs', mem', k') \<Longrightarrow> keeps_regs {0} regs regs'"
  by (auto simp: svc_control_memory_def Let_def split: prod.splits option.splits sum.splits if_splits
      arbitration_action.splits arbitration_fail.splits)

lemma svc_query_memory_regs:
  "svc_query_memory regs mem k = Ret (r, regs', mem', k') \<Longrightarrow> keeps_regs {0, 1, 2, 3, 4, 5} regs regs'"
  by (auto simp: svc_query_memory_def Let_def split: prod.splits option.splits sum.splits if_splits
      arbitration_action.splits arbitration_fail.splits)

lemma svc_create_thread_regs:
  "svc_create_thread w regs mem k = Ret (r, regs', mem', k') \<Longrightarrow> keeps_regs {0, 1} regs regs'"
  by (auto simp: svc_create_thread_def Let_def split: prod.splits option.splits sum.splits if_splits
      arbitration_action.splits arbitration_fail.splits)

lemma svc_exit_thread_regs:
  "svc_exit_thread regs mem k = Ret (r, regs', mem', k') \<Longrightarrow> keeps_regs {} regs regs'"
  by (auto simp: svc_exit_thread_def Let_def split: prod.splits option.splits sum.splits if_splits
      arbitration_action.splits arbitration_fail.splits)

lemma svc_sleep_thread_regs:
  "svc_sleep_thread w regs mem k = Ret (r, regs', mem', k') \<Longrightarrow> keeps_regs {} regs regs'"
  by (auto simp: svc_sleep_thread_def Let_def split: prod.splits option.splits sum.splits if_splits
      arbitration_action.splits arbitration_fail.splits)

lemma svc_create_mutex_regs:
  "svc_create_mutex w regs mem k = Ret (r, regs', mem', k') \<Longrightarrow> keeps_regs {0, 1} regs regs'"
  by (auto simp: svc_create_mutex_def Let_def split: prod.splits option.splits sum.splits if_splits
      arbitration_action.splits arbitration_fail.splits)

lemma svc_release_mutex_regs:
  "svc_release_mutex regs mem k = Ret (r, regs', mem', k') \<Longrightarrow> keeps_regs {0} regs regs'"
  by (auto simp: svc_release_mutex_def Let_def split: prod.splits option.splits sum.splits if_splits
      arbitration_action.splits arbitration_fail.splits)

lemma svc_create_event_regs:
  "svc_create_event w regs mem k = Ret (r, regs', mem', k') \<Longrightarrow> keeps_regs {0, 1} regs regs'"
  by (auto simp: svc_create_event_def Let_def split: prod.splits option.splits sum.splits if_splits
      arbitration_action.splits arbitration_fail.splits)

lemma svc_signal_event_regs:
  "svc_signal_event regs mem k = Ret (r, regs', mem', k') \<Longrightarrow> keeps_regs {0} regs regs'"
  by (auto simp: svc_signal_event_def Let_def split: prod.splits option.splits sum.splits if_splits
      arbitration_action.splits arbitration_fail.splits)

lemma svc_clear_event_regs:
  "svc_clear_event w regs mem k = Ret (r, regs', mem', k') \<Longrightarrow> keeps_regs {0} regs regs'"
  by (auto simp: svc_clear_event_def Let_def split: prod.splits option.splits sum.splits if_splits
      arbitration_action.splits arbitration_fail.splits)

lemma svc_create_timer_regs:
  "svc_create_timer w regs mem k = Ret (r, regs', mem', k') \<Longrightarrow> keeps_regs {0, 1} regs regs'"
  by (auto simp: svc_create_timer_def Let_def split: prod.splits option.splits sum.splits if_splits
      arbitration_action.splits arbitration_fail.splits)

lemma svc_set_timer_regs:
  "svc_set_timer regs mem k = Ret (r, regs', mem', k') \<Longrightarrow> keeps_regs {0} regs regs'"
  by (auto simp: svc_set_timer_def Let_def split: prod.splits option.splits sum.splits if_splits
      arbitration_action.splits arbitration_fail.splits)

lemma svc_cancel_timer_regs:
  "svc_cancel_timer w regs mem k = Ret (r, regs', mem', k') \<Longrightarrow> keeps_regs {0} regs regs'"
  by (auto simp: svc_cancel_timer_def Let_def split: prod.splits option.splits sum.splits if_splits
      arbitration_action.splits arbitration_fail.splits)

lemma svc_create_memory_block_regs:
  "svc_create_memory_block regs mem k = Ret (r, regs', mem', k') \<Longrightarrow> keeps_regs {0, 1} regs regs'"
  by (auto simp: svc_create_memory_block_def Let_def split: prod.splits option.splits sum.splits if_splits
      arbitration_action.splits arbitration_fail.splits)

lemma svc_map_memory_block_regs:
  "svc_map_memory_block w regs mem k = Ret (r, regs', mem', k') \<Longrightarrow> keeps_regs {0} regs regs'"
  by (auto simp: svc_map_memory_block_def Let_def split: prod.splits option.splits sum.splits if_splits
      arbitration_action.splits arbitration_fail.splits)

lemma svc_create_address_arbiter_regs:
  "svc_create_address_arbiter w regs mem k = Ret (r, regs', mem', k') \<Longrightarrow> keeps_regs {0, 1} regs regs'"
  by (auto simp: svc_create_address_arbiter_def Let_def split: prod.splits option.splits sum.splits if_splits
      arbitration_action.splits arbitration_fail.splits)

lemma finish_arbitration_regs:
  "finish_arbitration arb addr result regs mem k = Ret (r, regs', mem', k') \<Longrightarrow> keeps_regs {0} regs regs'"
  by (cases result) (auto simp: finish_arbitration_def split: arbitration_fail.split_asm)

lemma svc_arbitrate_address_regs:
  "svc_arbitrate_address w regs mem k = Ret (r, regs', mem', k') \<Longrightarrow> keeps_regs {0} regs regs'"
  apply (clarsimp simp: svc_arbitrate_address_def Let_def)
  subgoal for arbitration object
    by (cases "dyn_cast is_arbiter k object") (auto simp: Let_def dest: finish_arbitration_regs)
  done

lemma svc_close_handle_regs:
  "svc_close_handle regs mem k = Ret (r, regs', mem', k') \<Longrightarrow> keeps_regs {0} regs regs'"
  by (cases "handle_from_raw (reg_r 0 regs)") (clarsimp simp: svc_close_handle_def Let_def split_beta)+

lemma svc_wait_synchronization_1_regs:
  "svc_wait_synchronization_1 w regs mem k = Ret (r, regs', mem', k') \<Longrightarrow> keeps_regs {0} regs regs'"
  by (auto simp: svc_wait_synchronization_1_def Let_def split: prod.splits option.splits sum.splits if_splits
      arbitration_action.splits arbitration_fail.splits)

lemma svc_wait_synchronization_n_regs:
  "svc_wait_synchronization_n w regs mem k = Ret (r, regs', mem', k') \<Longrightarrow> keeps_regs {0, 1} regs regs'"
  by (auto simp: svc_wait_synchronization_n_def Let_def split: prod.splits option.splits sum.splits if_splits
      arbitration_action.splits arbitration_fail.splits)

lemma svc_duplicate_handle_regs:
  "svc_duplicate_handle regs mem k = Ret (r, regs', mem', k') \<Longrightarrow> keeps_regs {0, 1} regs regs'"
  by (auto simp: svc_duplicate_handle_def Let_def split: prod.splits option.splits sum.splits if_splits
      arbitration_action.splits arbitration_fail.splits)

lemma svc_get_system_tick_regs:
  "svc_get_system_tick w regs mem k = Ret (r, regs', mem', k') \<Longrightarrow> keeps_regs {0, 1} regs regs'"
  by (auto simp: svc_get_system_tick_def Let_def split: prod.splits option.splits sum.splits if_splits
      arbitration_action.splits arbitration_fail.splits)

lemma svc_get_process_info_regs:
  "svc_get_process_info regs mem k = Ret (r, regs', mem', k') \<Longrightarrow> keeps_regs {0, 1, 2} regs regs'"
  by (auto simp: svc_get_process_info_def Let_def split: prod.splits option.splits sum.splits if_splits
      arbitration_action.splits arbitration_fail.splits)

lemma svc_connect_to_port_regs:
  "svc_connect_to_port w regs mem k = Ret (r, regs', mem', k') \<Longrightarrow> keeps_regs {0, 1} regs regs'"
  by (auto simp: svc_connect_to_port_def Let_def split: prod.splits option.splits sum.splits if_splits
      arbitration_action.splits arbitration_fail.splits)

lemma svc_send_sync_request_regs:
  "svc_send_sync_request w tls regs mem k = Ret (r, regs', mem', k') \<Longrightarrow> keeps_regs {0} regs regs'"
  apply (clarsimp simp: svc_send_sync_request_def)
  subgoal for _ res k2 by (cases res; cases "projr res") auto
  done

lemma svc_get_resource_limit_regs:
  "svc_get_resource_limit regs mem k = Ret (r, regs', mem', k') \<Longrightarrow> keeps_regs {0, 1} regs regs'"
  by (auto simp: svc_get_resource_limit_def Let_def split: prod.splits option.splits sum.splits if_splits
      arbitration_action.splits arbitration_fail.splits)

lemma svc_get_resource_limit_current_values_regs:
  "svc_get_resource_limit_current_values w regs mem k = Ret (r, regs', mem', k') \<Longrightarrow> keeps_regs {0} regs regs'"
  by (auto simp: svc_get_resource_limit_current_values_def Let_def split: prod.splits option.splits sum.splits if_splits
      arbitration_action.splits arbitration_fail.splits)

lemma svc_accept_session_call_regs:
  "svc_accept_session_call w regs mem k = Ret (r, regs', mem', k') \<Longrightarrow> keeps_regs {0, 1} regs regs'"
  apply (clarsimp simp: svc_accept_session_call_def)
  subgoal for res k1 by (cases res; cases "projr res") auto
  done

lemma svc_reply_and_receive_regs:
  "svc_reply_and_receive w tls regs mem k = Ret (r, regs', mem', k') \<Longrightarrow> keeps_regs {0} regs regs'"
  apply (clarsimp simp: svc_reply_and_receive_def Let_def)
  subgoal for _ _ res k2 by (cases res; cases "projr res") auto
  done

lemma svc_bind_interrupt_regs:
  "svc_bind_interrupt regs mem k = Ret (r, regs', mem', k') \<Longrightarrow> keeps_regs {0} regs regs'"
  by (auto simp: svc_bind_interrupt_def Let_def split: prod.splits option.splits sum.splits if_splits
      arbitration_action.splits arbitration_fail.splits)

lemma svc_unbind_interrupt_regs:
  "svc_unbind_interrupt regs mem k = Ret (r, regs', mem', k') \<Longrightarrow> keeps_regs {0} regs regs'"
  by (auto simp: svc_unbind_interrupt_def Let_def split: prod.splits option.splits sum.splits if_splits
      arbitration_action.splits arbitration_fail.splits)

lemmas svc_regs =
  svc_control_memory_regs
  svc_query_memory_regs
  svc_create_thread_regs
  svc_exit_thread_regs
  svc_sleep_thread_regs
  svc_create_mutex_regs
  svc_release_mutex_regs
  svc_create_event_regs
  svc_signal_event_regs
  svc_clear_event_regs
  svc_create_timer_regs
  svc_set_timer_regs
  svc_cancel_timer_regs
  svc_create_memory_block_regs
  svc_map_memory_block_regs
  svc_create_address_arbiter_regs
  svc_arbitrate_address_regs
  svc_close_handle_regs
  svc_wait_synchronization_1_regs
  svc_wait_synchronization_n_regs
  svc_duplicate_handle_regs
  svc_get_system_tick_regs
  svc_get_process_info_regs
  svc_connect_to_port_regs
  svc_send_sync_request_regs
  svc_get_resource_limit_regs
  svc_get_resource_limit_current_values_regs
  svc_accept_session_call_regs
  svc_reply_and_receive_regs
  svc_bind_interrupt_regs
  svc_unbind_interrupt_regs

lemma run_svc_regs:
  "run_svc w svc tls regs mem k = Ret (r, regs', mem', k') \<Longrightarrow> keeps_regs (result_regs svc) regs regs'"
  by (auto simp: run_svc_def result_regs_def split: if_split_asm dest: svc_regs)

text \<open>C13: a system call changes no register but those it puts its results into, \<open>result_regs\<close> of its
  number: at most register 0, or 0 and 1, for all but QueryMemory (0 to 5) and GetProcessInfo (0 to
  2), and none for ExitThread, SleepThread and the two calls that do nothing.  All others, with the
  stack pointer, the link register and the program counter, the status register and the extension
  registers are as they were, and the register file keeps its sixteen and sixty-four words.\<close>

theorem handle_svc_keeps_registers:
  assumes "regs_ok regs" "handle_svc w tls regs mem k = Ret (r, regs', mem', k')"
  shows "regs_ok regs' \<and> tr_cpsr regs' = tr_cpsr regs \<and> tr_ext_regs regs' = tr_ext_regs regs \<and>
    (\<exists>svc. get_svc (w_memory w) regs mem = Ret svc \<and>
      (\<forall>i. i AND 0xF \<notin> result_regs svc \<longrightarrow> reg_r i regs' = reg_r i regs))"
proof -
  obtain svc where svc: "get_svc (w_memory w) regs mem = Ret svc" "run_svc w svc tls regs mem k = Ret (r, regs', mem', k')"
    using assms(2) by (auto simp: handle_svc_def)
  have "keeps_regs (result_regs svc) regs regs'" by (rule run_svc_regs [OF svc(2)])
  then show ?thesis using assms(1) svc(1) by (auto simp: keeps_regs_def)
qed

section \<open>System calls written out twice\<close>

lemma sign_bit: "(ns :: u64) AND 0x8000000000000000 = 0 \<longleftrightarrow> 0 \<le> sint ns"
proof -
  have "(0x8000000000000000 :: u64) = 2 ^ 63" by simp
  then have "ns AND 0x8000000000000000 = 0 \<longleftrightarrow> \<not> bit ns 63"
    by (simp only: and_exp_eq_0_iff_not_bit)
  also have "\<dots> \<longleftrightarrow> 0 \<le> sint ns"
    using bit_last_iff [of ns] by (simp add: not_less)
  finally show ?thesis .
qed

lemma guest_make_timeout_eq: "guest_make_timeout low high = make_timeout (join_words low high)"
  by (simp add: guest_make_timeout_def make_timeout_def sign_bit Let_def)

text \<open>What the registers hold after a call with a result, and whether the thread gave up the
  processor.\<close>

definition after_result :: "reschedule option kresult \<Rightarrow> thread_regs \<Rightarrow> svc_result \<times> thread_regs" where
  "after_result res regs =
     (case res of
        Inr (Some _) \<Rightarrow> (SvcReschedule, reg_sr 0 0 regs)
      | Inr None \<Rightarrow> (SvcContinue, reg_sr 0 0 regs)
      | Inl err \<Rightarrow> (SvcContinue, reg_sr 0 err regs))"

lemma wait_1_matches:
  assumes "mm_read (w_memory w) (reg_r 13 regs) 32 mem = Ret stack"
  shows "svc_wait_synchronization_1 w regs mem k =
    and_then (wait_sync_1 (w_now w) (handle_from_raw (reg_r 0 regs)) (join_words (reg_r 2 regs) (reg_r 3 regs)) k)
      (\<lambda>(res, k1). case after_result res regs of (r, regs1) \<Rightarrow> Ret (r, regs1, mem, k1))"
  using assms
  by (auto simp: svc_wait_synchronization_1_def wait_sync_1_def guest_make_timeout_eq after_result_def Let_def
      split: option.split intro!: and_then_cong)

lemma wait_n_matches:
  assumes "mm_read (w_memory w) (reg_r 1 regs) (unat (reg_r 2 regs) * 4) mem = Ret bytes"
    and "mm_read (w_memory w) 0x1FF81060 8 mem = Ret wifi"
  shows "svc_wait_synchronization_n w regs mem k =
    and_then (wait_sync_n (w_now w) (handles_of bytes (unat (reg_r 2 regs))) False
        (join_words (reg_r 4 regs) (reg_r 0 regs)) k)
      (\<lambda>(_, k1). Ret (SvcReschedule, reg_sr 1 (- 1) (reg_sr 0 0 regs), mem, k1))"
  using assms
  by (auto simp: svc_wait_synchronization_n_def wait_sync_n_def guest_make_timeout_eq Let_def
      split: option.split intro!: and_then_cong)

lemma signal_matches:
  "svc_signal_event regs mem k =
    and_then (signal_event (handle_from_raw (reg_r 0 regs)) k) (\<lambda>(res, k1).
      Ret (case res of Inr _ \<Rightarrow> SvcReschedule | Inl _ \<Rightarrow> SvcContinue, reg_sr 0 (result_word res) regs, mem, k1))"
  by (auto simp: svc_signal_event_def signal_event_def result_word_def split: option.split intro!: and_then_cong)

lemma set_timer_matches:
  "svc_set_timer regs mem k =
    and_then (set_timer (handle_from_raw (reg_r 0 regs)) (join_words (reg_r 2 regs) (reg_r 3 regs))
        (join_words (reg_r 1 regs) (reg_r 4 regs)) k)
      (\<lambda>(res, k1). Ret (SvcContinue, reg_sr 0 (result_word res) regs, mem, k1))"
  by (auto simp: svc_set_timer_def set_timer_def result_word_def split: option.split intro!: and_then_cong)

lemma close_matches:
  "svc_close_handle regs mem k =
    and_then (close_handle (handle_from_raw (reg_r 0 regs)) k) (\<lambda>(res, k1).
      Ret (SvcContinue, case res of Inr _ \<Rightarrow> reg_sr 0 0 regs | Inl _ \<Rightarrow> regs, mem, k1))"
  by (auto simp: svc_close_handle_def close_handle_def split: option.split prod.split intro!: and_then_cong)


section \<open>Resuming\<close>

text \<open>After any run of a guest the mark of a system call is set.\<close>

lemma run_executor_marks:
  assumes "run_executor exec w m = Some y"
  shows "\<forall>m1. y = Ret m1 \<longrightarrow> mc_ran_svc m1"
proof (rule run_executor.raw_induct [OF _ assms, where P = "\<lambda>_ _ _ y. \<forall>m1. y = Ret m1 \<longrightarrow> mc_ran_svc m1"])
  fix run exec w m y
  assume IH: "\<And>exec w m y. run exec w m = Some y \<Longrightarrow> \<forall>m1. y = Ret m1 \<longrightarrow> mc_ran_svc m1"
    and step: "(case exec (dynarmic_handle_svc w) m of
        Ret m1 \<Rightarrow> if mc_ran_svc m1 then Some (Ret m1) else run exec w m1
      | Panic p \<Rightarrow> Some (Panic p) | Diverge \<Rightarrow> None) = Some y"
  show "\<forall>m1. y = Ret m1 \<longrightarrow> mc_ran_svc m1"
  proof (cases "exec (dynarmic_handle_svc w) m")
    case (Ret m1)
    then show ?thesis using IH [of exec w m1 y] step by (cases "mc_ran_svc m1") auto
  qed (use step in auto)
qed

lemma guest_run_ran: "guest_run exec w resume m = Ret m1 \<Longrightarrow> mc_ran_svc m1"
  using run_executor_marks [of exec w] by (auto simp: guest_run_def Let_def split: option.split_asm)

lemma reg_r_zero [simp]: "reg_r a regs_zero = 0"
  using reg_index [of a] by (simp add: reg_r_def regs_zero_def)

lemma new_thread_registers:
  assumes "guest_new_thread mm entrypoint stack_top arg tls mem = Ret (t, tls1, mem1)"
  shows "reg_r 15 (th_ctx t) = entrypoint" "reg_r 13 (th_ctx t) = stack_top" "reg_r 0 (th_ctx t) = arg"
    "reg_r 1 (th_ctx t) = 0" "reg_r 2 (th_ctx t) = 0"
  using assms
  by (auto simp: guest_new_thread_def Let_def set_cpsr_def set_arg_def set_pc_def set_sp_def
      thread_context_new_def reg_r_zero)

text \<open>Coming back from a system call, a thread with the registers of a new one.\<close>

lemma new_thread_handle_resume:
  assumes "guest_new_thread mm entrypoint stack_top arg tls mem0 = Ret (t, tls1, mem1)"
  shows "handle_resume w ResumeNormal (th_ctx t) mem k =
    and_then (csub entrypoint 4) (\<lambda>before.
    and_then (mm_read (w_memory w) before 4 mem) (\<lambda>code.
    if le_word code AND 0xFFFFFF = (0x4F :: u32)
    then and_then (mm_read (w_memory w) 0 0 mem) (\<lambda>_. Panic Unreachable)
    else Ret (th_ctx t, mem, k)))"
proof -
  have "and_then m (\<lambda>y. Panic e) = and_then m (\<lambda>y. Panic e :: 'z res)" for m :: "'y res" and e by simp
  show ?thesis
    by (simp add: handle_resume_def get_svc_def new_thread_registers [OF assms] and_then_assoc)
      (auto simp: finish_receive_def reply_and_receive_post_def new_thread_registers [OF assms] and_then_assoc Let_def
        intro!: and_then_cong)
qed

text \<open>A run on a marked machine begins with the return from the call and goes on as on one without the
  mark.\<close>

lemma guest_run_marked:
  assumes "mc_ran_svc m"
  shows "guest_run exec w resume m =
    and_then (handle_resume w resume (mc_regs m) (mc_mem m) (mc_kernel m)) (\<lambda>(regs, mem, k).
    guest_run exec w resume (m\<lparr>mc_ran_svc := False, mc_regs := regs, mc_mem := mem, mc_kernel := k\<rparr>))"
proof (cases m)
  case (fields regs halt mem ran tls k)
  then show ?thesis
    using assms by (auto simp: guest_run_def guest_restore_def Let_def intro!: and_then_cong)
qed

lemma new_thread_run:
  assumes "guest_new_thread (w_memory w) entrypoint stack_top arg tls mem0 = Ret (t, tls1, mem1)" "mc_ran_svc m"
  shows "guest_run exec w ResumeNormal (guest_restore (th_ctx t) (th_tls t) (m\<lparr>mc_mem := mem\<rparr>)) =
    and_then (csub entrypoint 4) (\<lambda>before.
    and_then (mm_read (w_memory w) before 4 mem) (\<lambda>code.
    if le_word code AND 0xFFFFFF = (0x4F :: u32)
    then and_then (mm_read (w_memory w) 0 0 mem) (\<lambda>_. Panic Unreachable)
    else guest_run exec w ResumeNormal
      (guest_restore (th_ctx t) (th_tls t) (m\<lparr>mc_ran_svc := False, mc_mem := mem\<rparr>))))"
proof -
  have m: "mc_ran_svc (guest_restore (th_ctx t) (th_tls t) (m\<lparr>mc_mem := mem\<rparr>))"
    "mc_regs (guest_restore (th_ctx t) (th_tls t) (m\<lparr>mc_mem := mem\<rparr>)) = th_ctx t"
    "mc_mem (guest_restore (th_ctx t) (th_tls t) (m\<lparr>mc_mem := mem\<rparr>)) = mem"
    "(guest_restore (th_ctx t) (th_tls t) (m\<lparr>mc_mem := mem\<rparr>))\<lparr>mc_ran_svc := False, mc_regs := th_ctx t,
       mc_mem := mem, mc_kernel := mc_kernel (guest_restore (th_ctx t) (th_tls t) (m\<lparr>mc_mem := mem\<rparr>))\<rparr> =
     guest_restore (th_ctx t) (th_tls t) (m\<lparr>mc_ran_svc := False, mc_mem := mem\<rparr>)"
    using assms(2) by (cases m; simp add: guest_restore_def)+
  show ?thesis
    unfolding guest_run_marked [OF m(1)] m(2,3) new_thread_handle_resume [OF assms(1)] and_then_assoc
    by (intro and_then_cong refl) (simp add: m(4))
qed

text \<open>C12: once any thread of a process has run, the first run of a new thread begins as the return
  from a system call that thread never made.  The emulator takes the word before the thread's entry
  point for that call: it panics if the entry point is below 4 or the word cannot be read; if the
  word is that of ReplyAndReceive, it finishes this call on the new thread's own registers, which
  cannot be done and panics; only for any other word does the thread run as it would have if no
  thread had run before.\<close>

theorem new_thread_resumes_foreign_svc:
  assumes ran: "guest_run exec w earlier m0 = Ret m"
    and thread: "guest_new_thread (w_memory w) entrypoint stack_top arg tls (mc_mem m) = Ret (t, tls1, mem1)"
  shows "guest_thread_resume exec w ResumeNormal t (m\<lparr>mc_mem := mem1, mc_kernel := k\<rparr>) =
    and_then (get_thread_ipc_data k) (\<lambda>slot.
    and_then (cadd (th_tls t) 0x80) (\<lambda>addr.
    and_then (mm_write (w_memory w) addr slot mem1) (\<lambda>mem2.
    and_then (csub entrypoint 4) (\<lambda>before.
    and_then (mm_read (w_memory w) before 4 mem2) (\<lambda>code.
    if le_word code AND 0xFFFFFF = (0x4F :: u32)
    then and_then (mm_read (w_memory w) 0 0 mem2) (\<lambda>_. Panic Unreachable)
    else guest_thread_resume exec w ResumeNormal t (m\<lparr>mc_mem := mem1, mc_kernel := k, mc_ran_svc := False\<rparr>))))))"
proof -
  let ?m = "m\<lparr>mc_mem := mem1, mc_kernel := k\<rparr>"
  have m: "mc_ran_svc ?m" "mc_kernel ?m = k" "mc_mem ?m = mem1" using guest_run_ran [OF ran] by simp_all
  have "?m\<lparr>mc_ran_svc := False, mc_mem := mem\<rparr> = m\<lparr>mc_mem := mem1, mc_kernel := k, mc_ran_svc := False\<rparr>\<lparr>mc_mem := mem\<rparr>" for mem
    by (cases m) simp
  then show ?thesis
    unfolding guest_thread_resume_def m(2,3) new_thread_run [OF thread m(1)] and_then_assoc
    by (intro and_then_cong refl) (simp del: cadd_eq_Ret)
qed

section \<open>Witnesses\<close>

text \<open>A guest on the flat memory.\<close>

definition sample_world :: "(u32 \<Rightarrow> u8, thread_context, process_tls) world" where
  "sample_world =
     \<lparr>w_memory = dynarmic_memory flat_memory, w_draws = (\<lambda>_. 7), w_now = 30, w_alive = (\<lambda>_. True),
      w_init_thread = guest_init_thread (dynarmic_memory flat_memory), w_ticks = (\<lambda>t. t)\<rparr>"

definition guest_kernel :: "(thread_context, process_tls) kernel" where
  "guest_kernel = (kernel_new 20)\<lparr>sc_threads := [(thread_new 0 5 9)\<lparr>ct_state := Running\<rparr>], k_current := Some (0, 5)\<rparr>"

text \<open>The system calls DuplicateHandle before the address 0x1004 and ReplyAndReceive before 0x2004.\<close>

definition sample_code :: "u32 \<Rightarrow> u8" where
  "sample_code = (\<lambda>_. 0)(0x1000 := 0x27, 0x1003 := 0xEF, 0x2000 := 0x4F, 0x2003 := 0xEF)"

definition sample_regs :: thread_regs where "sample_regs = reg_sr 15 0x1004 regs_zero"

lemma world_memory [simp]: "w_memory sample_world = dynarmic_memory flat_memory"
  by (simp add: sample_world_def)

lemma sample_svc:
  "handle_svc sample_world 0 sample_regs sample_code guest_kernel =
     Ret (SvcContinue, reg_sr 1 0 (reg_sr 0 0 sample_regs), sample_code, guest_kernel)"
proof -
  have "get_svc (dynarmic_memory flat_memory) sample_regs sample_code = Ret 0x27"
    using flat_read [of "0x1000" 4 sample_code]
    by (simp add: get_svc_def sample_regs_def csub_def upt_four sample_code_def)
  then show ?thesis
    by (simp add: handle_svc_def run_svc_def svc_duplicate_handle_def sample_regs_def)
qed

theorem handle_svc_keeps_registers_witness:
  "handle_svc sample_world 0 sample_regs sample_code guest_kernel =
     Ret (SvcContinue, reg_sr 1 0 (reg_sr 0 0 sample_regs), sample_code, guest_kernel) \<and>
   reg_r 13 (reg_sr 1 0 (reg_sr 0 0 sample_regs)) = reg_r 13 sample_regs"
proof -
  have "get_svc (w_memory sample_world) sample_regs sample_code = Ret 0x27"
    using flat_read [of "0x1000" 4 sample_code]
    by (simp add: get_svc_def sample_regs_def csub_def upt_four sample_code_def)
  then show ?thesis
    using sample_svc handle_svc_keeps_registers [OF _ sample_svc] by (simp add: sample_regs_def result_regs_def)
qed


text \<open>An executor that makes one system call and returns.\<close>

definition one_call :: "(u32 \<Rightarrow> u8, thread_context, process_tls) executor" where
  "one_call handle m = handle m"

definition sample_machine :: "(u32 \<Rightarrow> u8, thread_context, process_tls) machine" where
  "sample_machine = \<lparr>mc_regs = sample_regs, mc_halt = False, mc_mem = sample_code, mc_ran_svc = False,
     mc_tls = 0, mc_kernel = guest_kernel\<rparr>"

definition ran_machine :: "(u32 \<Rightarrow> u8, thread_context, process_tls) machine" where
  "ran_machine = sample_machine\<lparr>mc_ran_svc := True, mc_regs := reg_sr 1 0 (reg_sr 0 0 sample_regs)\<rparr>"

lemma sample_run: "guest_run one_call sample_world ResumeNormal sample_machine = Ret ran_machine"
proof -
  have "run_executor one_call sample_world sample_machine = Some (Ret ran_machine)"
    using sample_svc by (subst run_executor.simps)
      (simp add: one_call_def dynarmic_handle_svc_def sample_machine_def ran_machine_def)
  then show ?thesis by (simp add: guest_run_def sample_machine_def)
qed

theorem new_thread_resumes_foreign_svc_witness:
  "\<exists>t tls1. guest_new_thread (dynarmic_memory flat_memory) 0x2004 0x10000000 0 process_tls_new sample_code =
      Ret (t, tls1, sample_code) \<and>
    guest_thread_resume one_call sample_world ResumeNormal t ran_machine = Panic Unreachable"
proof -
  have tls: "allocate_tls (dynarmic_memory flat_memory) process_tls_new sample_code =
      Ret (USERLAND_TLS_BASE, tls_state 1, sample_code)"
    by (simp add: allocate_tls_def process_tls_new_def dynarmic_memory_def dynarmic_map_def flat_memory_def
        USERLAND_TLS_BASE_def tls_state_def upt_rec)
  then obtain t where t: "guest_new_thread (w_memory sample_world) 0x2004 0x10000000 0 process_tls_new (mc_mem ran_machine) =
      Ret (t, tls_state 1, sample_code)" "th_tls t = USERLAND_TLS_BASE"
    by (auto simp: guest_new_thread_def ran_machine_def sample_machine_def set_cpsr_def set_arg_def set_pc_def set_sp_def)
  have addr: "cadd (th_tls t) 0x80 = Ret 0x1FF82080" using t(2) by (simp add: USERLAND_TLS_BASE_def)
  have slot: "get_thread_ipc_data guest_kernel = Ret (replicate 256 0)"
    by (simp add: get_thread_ipc_data_def guest_kernel_def kernel_new_def current_pid_tid_def find_thread_def thread_new_def)
  obtain mem2 where mem2: "mm_write (w_memory sample_world) 0x1FF82080 (replicate 256 0) sample_code = Ret mem2"
      "\<forall>a. unat a < unat (0x1FF82080 :: u32) \<longrightarrow> mem2 a = sample_code a"
    using flat_write [of "0x1FF82080" "replicate 256 0" sample_code] by auto
  have code: "mm_read (w_memory sample_world) (0x2004 - 4) 4 mem2 = Ret [0x4F, 0, 0, 0xEF]"
    using flat_read [of "0x2000" 4 mem2] mem2(2) by (simp add: upt_four sample_code_def)
  have none: "mm_read (w_memory sample_world) 0 0 mem2 = Ret []" by (simp add: flat_read)
  have "guest_thread_resume one_call sample_world ResumeNormal t
      (ran_machine\<lparr>mc_mem := sample_code, mc_kernel := guest_kernel\<rparr>) = Panic Unreachable"
    using new_thread_resumes_foreign_svc [OF sample_run t(1), of guest_kernel] slot addr mem2(1) code none
    by (simp add: csub_def)
  then show ?thesis using t(1) by (auto simp: ran_machine_def sample_machine_def)
qed

end
