(* ===== verification/GuestCalls.thy ===== *)
theory GuestCalls
  imports Reachable GuestFacts
begin

text \<open>
  The system calls of a guest program are calls of a thread in the sense of \<open>thread_call\<close>: whatever the
  handler of \<open>guest/src/lib.rs\<close> does to the kernel is a sequence of them, and when it lets the
  guest go on, its thread is still running.
\<close>

section \<open>The caller keeps running\<close>

text \<open>What a call leaves of the thread \<open>i\<close> that makes it: the kernel changed by calls, and the thread
  still runs unless the call gives up the processor.\<close>

definition called :: "tid \<Rightarrow> bool \<Rightarrow> ('t, 'p) kernel \<Rightarrow> ('t, 'p) kernel \<Rightarrow> bool" where
  "called i goes_on k k' \<longleftrightarrow> thread_calls k k' \<and> (goes_on \<longrightarrow> (\<exists>t. running k' i t))"

lemma called_refl: "running k i t \<Longrightarrow> called i goes_on k k"
  by (auto simp: called_def)

lemma called_one: "\<lbrakk>thread_call k k'; goes_on \<Longrightarrow> running k' i t\<rbrakk> \<Longrightarrow> called i goes_on k k'"
  by (auto simp: called_def)

lemma called_then: "\<lbrakk>thread_call k k1; called i goes_on k1 k'\<rbrakk> \<Longrightarrow> called i goes_on k k'"
  by (auto simp: called_def intro: converse_rtranclp_into_rtranclp)

lemma running_map_object [simp]: "running (map_object j f k) i t = running k i t"
proof -
  have "k_current (map_object j f k) = k_current k" by (simp add: map_object_def)
  then show ?thesis by (simp add: running_def)
qed

lemma kernel_new_handle_running: "kernel_new_handle draws obj k = Ret (h, k') \<Longrightarrow> running k i t \<Longrightarrow> running k' i t"
  by (auto simp: kernel_new_handle_def running_def thread_at_def)

lemma set_thread_ipc_data_running:
  assumes "set_thread_ipc_data data k = Ret k'" "running k i t"
  shows "\<exists>t'. running k' i t'"
proof -
  obtain j u where u: "find_thread j (sc_threads k) = Ret u" "k_current k = Some (fst (the (k_current k)), j)"
      and k': "k' = k\<lparr>sc_threads := put_thread j (u\<lparr>ct_ipc_data := data\<rparr>) (sc_threads k)\<rparr>"
    using assms(1) by (auto simp: set_thread_ipc_data_def current_pid_tid_def)
  then have "j = i" "u = t" using assms(2) by (auto simp: running_def find_thread_at)
  then show ?thesis
    using thread_at_put [of k i t "t\<lparr>ct_ipc_data := data\<rparr>" i] assms(2) find_thread_index [OF u(1)] u
    by (auto simp: running_def k' find_thread_at)
qed

lemma event_signal_running:
  assumes ok: "kernel_ok k" and r: "event_signal j k = Ret k'" and run: "running k i t"
  shows "running k' i t"
proof -
  obtain e where e: "object_at k j = Some (Event e)" using r by (auto simp: event_signal_def)
  have "only_wakes k k'" using event_signal_only_wakes [OF kernel_ok_sched [OF ok] e] r by auto
  then have "thread_at k' i = Some t" using run by (simp add: only_wakes_def running_def)
  then show ?thesis using running_frame [OF run rest.event_signal_part [OF r]] run by (simp add: running_def)
qed

lemma mutex_release_running:
  assumes ok: "kernel_ok k" and r: "mutex_release j k = Ret k'" and run: "running k i t"
  shows "running k' i t"
proof -
  obtain m where m: "object_at k j = Some (Mutex m)" using r by (auto simp: mutex_release_def)
  have all: "all_woken j (take 1 (mx_queue m)) k k'" using mutex_release_next [OF kernel_ok_sched [OF ok] m] r by auto
  have "sched.more k' = sched.more k"
    using r m by (cases "mx_queue m") (auto simp: mutex_release_def mutex_at_def dest: rest.wake_or_panic_part)
  then show ?thesis
    using woken_others [OF kernel_ok_sched [OF ok] m _ all] set_take_subset [of 1 "mx_queue m"] run
      running_frame [OF run] by (simp add: running_def)
qed

lemma first_on_address_subset: "set (first_on_address addr n es) \<subseteq> fst ` set es"
  by (auto simp: first_on_address_def Let_def split: option.splits dest!: in_set_takeD)

lemma arbiter_signal_running:
  assumes ok: "kernel_ok k" and r: "arbiter_signal j n a k = Ret (b, k')" and run: "running k i t"
  shows "running k' i t"
proof -
  obtain ab where ab: "object_at k j = Some (Arbiter ab)" using r by (auto simp: arbiter_signal_def)
  let ?ws = "first_on_address a (if sint n < 0 then None else Some (unat n)) (ab_queue ab)"
  have "all_woken j ?ws k k'"
    using arbiter_signal_drains [OF kernel_ok_sched [OF ok] ab refl, where amount = n and addr = a] r by auto
  then show ?thesis
    using woken_others [OF kernel_ok_sched [OF ok] ab, of ?ws] first_on_address_subset run
      running_frame [OF run rest.arbiter_signal_part [OF r]] by (simp add: running_def)
qed

section \<open>The calls one by one\<close>

lemma svc_exit_thread_called:
  "\<lbrakk>svc_exit_thread regs mem k = Ret (r, regs', mem', k'); running k i t\<rbrakk> \<Longrightarrow> called i (r = SvcContinue) k k'"
  by (auto simp: svc_exit_thread_def intro: called_one thread_call.exit)

lemma svc_sleep_thread_called:
  "\<lbrakk>svc_sleep_thread w regs mem k = Ret (r, regs', mem', k'); running k i t\<rbrakk> \<Longrightarrow> called i (r = SvcContinue) k k'"
  by (auto simp: svc_sleep_thread_def intro: called_one thread_call.sleep)

lemma new_object_called:
  assumes "new_object_handle draws obj k = Ret (x, k')" "wakers_of obj = []" "running k i t"
  shows "called i goes_on k k'"
  using thread_call.new_object [OF assms(1,2)] new_object_handle_running [OF assms(1,3)] by (rule called_one)

lemma svc_create_mutex_called:
  "\<lbrakk>svc_create_mutex w regs mem k = Ret (r, regs', mem', k'); running k i t\<rbrakk> \<Longrightarrow> called i (r = SvcContinue) k k'"
  by (auto simp: svc_create_mutex_def create_mutex_def mutex_new_def intro: new_object_called)

lemma svc_create_event_called:
  "\<lbrakk>svc_create_event w regs mem k = Ret (r, regs', mem', k'); running k i t\<rbrakk> \<Longrightarrow> called i (r = SvcContinue) k k'"
  by (auto simp: svc_create_event_def create_event_def event_new_def intro: new_object_called)

lemma svc_create_timer_called:
  "\<lbrakk>svc_create_timer w regs mem k = Ret (r, regs', mem', k'); running k i t\<rbrakk> \<Longrightarrow> called i (r = SvcContinue) k k'"
  by (auto simp: svc_create_timer_def create_timer_def timer_new_def intro: new_object_called)

lemma svc_create_address_arbiter_called:
  "\<lbrakk>svc_create_address_arbiter w regs mem k = Ret (r, regs', mem', k'); running k i t\<rbrakk> \<Longrightarrow>
     called i (r = SvcContinue) k k'"
  by (auto simp: svc_create_address_arbiter_def create_address_arbiter_def arbiter_new_def intro: new_object_called)

lemma signal_event_call: "\<lbrakk>lookup_object h k = Ret x; dyn_cast is_event k x = Some j; event_signal j k = Ret k'\<rbrakk> \<Longrightarrow> thread_call k k'"
  by (rule thread_call.signal_event [of h _ "Inr ()"]) (simp add: signal_event_def)

lemma svc_release_mutex_called:
  assumes r: "svc_release_mutex regs mem k = Ret (r, regs', mem', k')" and run: "running k i t" and ok: "kernel_ok k"
  shows "called i (r = SvcContinue) k k'"
proof -
  obtain res where res: "release_mutex (handle_from_raw (reg_r 0 regs)) k = Ret (res, k')"
    using r by (auto simp: svc_release_mutex_def)
  have "running k' i t"
    using res run mutex_release_running [OF ok] by (auto simp: release_mutex_def split: option.split_asm)
  then show ?thesis using thread_call.release_mutex [OF res] by (intro called_one)
qed

lemma svc_signal_event_called:
  assumes r: "svc_signal_event regs mem k = Ret (r, regs', mem', k')" and run: "running k i t"
  shows "called i (r = SvcContinue) k k'"
  using r run
  by (auto simp: svc_signal_event_def split: option.split_asm intro: called_refl called_one signal_event_call)

text \<open>Calls that only change an object other than a thread, or the bindings of interrupts.\<close>

lemma event_clear_called: "running k i t \<Longrightarrow> called i goes_on k (event_clear j k)"
  by (rule called_one [OF thread_call.clear_event]) (simp add: event_clear_def)

lemma timer_set_called: "running k i t \<Longrightarrow> called i goes_on k (timer_set j initial interval k)"
  by (rule called_one [OF thread_call.set_timer]) (simp add: timer_set_def)

lemma bind_interrupt_called: "running k i t \<Longrightarrow> called i goes_on k (bind_interrupt name event k)"
  by (rule called_one [OF thread_call.bind_interrupt, where t = t]) (simp add: bind_interrupt_def running_def thread_at_def)

lemma svc_clear_event_called:
  "\<lbrakk>svc_clear_event w regs mem k = Ret (r, regs', mem', k'); running k i t\<rbrakk> \<Longrightarrow> called i (r = SvcContinue) k k'"
  by (auto simp: svc_clear_event_def split: option.split_asm intro: called_refl event_clear_called)

lemma svc_set_timer_called:
  "\<lbrakk>svc_set_timer regs mem k = Ret (r, regs', mem', k'); running k i t\<rbrakk> \<Longrightarrow> called i (r = SvcContinue) k k'"
  by (auto simp: svc_set_timer_def split: option.split_asm intro: called_refl timer_set_called)

lemma svc_cancel_timer_called:
  "\<lbrakk>svc_cancel_timer w regs mem k = Ret (r, regs', mem', k'); running k i t\<rbrakk> \<Longrightarrow> called i (r = SvcContinue) k k'"
  by (auto simp: svc_cancel_timer_def timer_cancel_def split: option.split_asm intro: called_refl timer_set_called)

lemma svc_bind_interrupt_called:
  "\<lbrakk>svc_bind_interrupt regs mem k = Ret (r, regs', mem', k'); running k i t\<rbrakk> \<Longrightarrow> called i (r = SvcContinue) k k'"
  by (auto simp: svc_bind_interrupt_def split: option.split_asm intro: called_refl bind_interrupt_called)

lemma close_handle_running: "close_handle h k = Ret (x, k') \<Longrightarrow> running k i t \<Longrightarrow> running k' i t"
  by (clarsimp simp: close_handle_def split: option.split_asm)
    (auto simp: running_def thread_at_def split: prod.split_asm)

lemma svc_close_handle_called:
  assumes "svc_close_handle regs mem k = Ret (r, regs', mem', k')" and run: "running k i t"
  shows "called i (r = SvcContinue) k k'"
proof -
  obtain res where res: "close_handle (handle_from_raw (reg_r 0 regs)) k = Ret (res, k')"
    using assms(1) by (auto simp: close_matches)
  show ?thesis using thread_call.close_handle [OF res] close_handle_running [OF res run] by (rule called_one)
qed

text \<open>Calls that leave the kernel as it is.\<close>

lemma svc_same_kernel:
  "svc_control_memory w regs mem k = Ret (r, regs', mem', k') \<Longrightarrow> k' = k"
  "svc_query_memory regs mem k = Ret (r, regs', mem', k') \<Longrightarrow> k' = k"
  "svc_create_memory_block regs mem k = Ret (r, regs', mem', k') \<Longrightarrow> k' = k"
  "svc_map_memory_block w regs mem k = Ret (r, regs', mem', k') \<Longrightarrow> k' = k"
  "svc_duplicate_handle regs mem k = Ret (r, regs', mem', k') \<Longrightarrow> k' = k"
  "svc_get_system_tick w regs mem k = Ret (r, regs', mem', k') \<Longrightarrow> k' = k"
  "svc_get_process_info regs mem k = Ret (r, regs', mem', k') \<Longrightarrow> k' = k"
  "svc_get_resource_limit regs mem k = Ret (r, regs', mem', k') \<Longrightarrow> k' = k"
  "svc_get_resource_limit_current_values w regs mem k = Ret (r, regs', mem', k') \<Longrightarrow> k' = k"
  "svc_unbind_interrupt regs mem k = Ret (r, regs', mem', k') \<Longrightarrow> k' = k"
  by (auto simp: svc_control_memory_def svc_query_memory_def svc_create_memory_block_def svc_map_memory_block_def
      svc_duplicate_handle_def svc_get_system_tick_def svc_get_process_info_def svc_get_resource_limit_def
      svc_get_resource_limit_current_values_def svc_unbind_interrupt_def Let_def split: if_splits)

text \<open>Calls that may give up the processor.\<close>

lemma called_stops: "thread_calls k k' \<Longrightarrow> called i False k k'"
  by (simp add: called_def)

lemma calls_more: "\<lbrakk>thread_calls k k1; thread_call k1 k'\<rbrakk> \<Longrightarrow> thread_calls k k'"
  by simp

lemma new_thread_is_ready:
  assumes "new_thread pid box k = Ret ((index, obj), k')" "ids_ok k"
  shows "ready_at k' index"
proof -
  have "unat (k_next_tid k) \<notin> set (thread_indices k)" using assms(2) by (auto simp: ids_ok_def)
  then have "find (\<lambda>t. ct_index t = unat (k_next_tid k)) (sc_threads k) = None"
    by (force simp: find_None_iff thread_indices_def)
  then show ?thesis
    using assms(1) by (auto simp: new_thread_def Let_def new_object_def thread_new_def ready_at_def thread_at_def find_append)
qed

lemma create_thread_calls:
  assumes "create_thread draws init_thread init mem k = Ret ((index, h), mem', k')" and ok: "ids_ok k"
  shows "thread_calls k (schedule_next index k')"
proof -
  obtain pid process process' obj thread k1 k2 where
      pid: "find_process pid (k_processes k) = Ret process" and
      k1: "k1 = k\<lparr>k_processes := update_first (\<lambda>(p, _). cp_pid p = pid) (\<lambda>(p, _). (p, process')) (k_processes k)\<rparr>"
      and k2: "new_thread pid thread k1 = Ret ((index, obj), k2)"
      and k3: "kernel_new_handle draws obj k2 = Ret (h, k')"
    using assms by (auto simp: create_thread_def Let_def)
  have "find (\<lambda>p. cp_pid p = pid) (map fst (k_processes k1)) = find (\<lambda>p. cp_pid p = pid) (map fst (k_processes k))"
    unfolding k1 by (simp add: map_update_first split_def)
  moreover have "find (\<lambda>p. cp_pid p = pid) (map fst (k_processes k)) \<noteq> None"
    using pid by (fastforce simp: find_process_def find_None_iff find_Some_iff)
  ultimately obtain p where p: "find_common_process pid (k_processes k1) = Ret p"
    by (auto simp: find_common_process_def)
  have "thread_call k k1" unfolding k1 by (rule thread_call.init_thread)
  then have "thread_calls k k1" by simp
  from calls_more [OF calls_more [OF this thread_call.new_thread [OF p k2]] thread_call.new_handle [OF k3]]
  moreover have "ids_ok k1" using ok by (simp add: k1 ids_ok_def thread_indices_def)
  then have "ready_at k2 index" by (rule new_thread_is_ready [OF k2])
  then have "ready_at k' index" using ready.new_handle [OF k3] by (simp add: ready_kept_def)
  ultimately show ?thesis using thread_call.schedule_next by (blast intro: calls_more)
qed

lemma svc_create_thread_called:
  "\<lbrakk>svc_create_thread w regs mem k = Ret (r, regs', mem', k'); ids_ok k\<rbrakk> \<Longrightarrow> called i (r = SvcContinue) k k'"
  by (auto simp: svc_create_thread_def called_def intro: create_thread_calls)

lemma wait_sync_1_called:
  assumes "wait_sync_1 now handle timeout k = Ret (res, k')" "running k i t"
  shows "called i (\<exists>err. res = Inl err) k k'"
  using thread_call.wait_one [OF assms(2,1)]
proof (rule called_one)
  assume "\<exists>err. res = Inl err"
  then show "running k' i t"
    using assms by (auto simp: wait_sync_1_def Let_def split: option.split_asm)
qed

lemma svc_wait_1_called:
  assumes r: "svc_wait_synchronization_1 w regs mem k = Ret (r, regs', mem', k')" and run: "running k i t"
  shows "called i (r = SvcContinue) k k'"
proof -
  obtain stack where "mm_read (w_memory w) (reg_r 13 regs) 32 mem = Ret stack"
    using r by (auto simp: svc_wait_synchronization_1_def)
  then obtain res where res: "wait_sync_1 (w_now w) (handle_from_raw (reg_r 0 regs))
      (join_words (reg_r 2 regs) (reg_r 3 regs)) k = Ret (res, k')" "(r, regs') = after_result res regs"
    using r by (auto simp: wait_1_matches case_prod_unfold)
  moreover have "res \<noteq> Inr None"
    using res(1) by (auto simp: wait_sync_1_def Let_def split: option.split_asm)
  ultimately have "r = SvcContinue \<longleftrightarrow> (\<exists>err. res = Inl err)"
    by (auto simp: after_result_def split: sum.splits option.splits)
  then show ?thesis using wait_sync_1_called [OF res(1) run] by simp
qed

lemma svc_wait_n_called:
  assumes r: "svc_wait_synchronization_n w regs mem k = Ret (r, regs', mem', k')" and run: "running k i t"
    and safe: "\<And>bytes. mm_read (w_memory w) (reg_r 1 regs) (unat (reg_r 2 regs) * 4) mem = Ret bytes \<Longrightarrow>
      wait_n_safe (handles_of bytes (unat (reg_r 2 regs))) k"
  shows "called i (r = SvcContinue) k k'"
proof -
  obtain bytes wifi where reads: "mm_read (w_memory w) (reg_r 1 regs) (unat (reg_r 2 regs) * 4) mem = Ret bytes"
      "mm_read (w_memory w) 0x1FF81060 8 mem = Ret wifi"
    using r by (auto simp: svc_wait_synchronization_n_def Let_def)
  then obtain res where "wait_sync_n (w_now w) (handles_of bytes (unat (reg_r 2 regs))) False
      (join_words (reg_r 4 regs) (reg_r 0 regs)) k = Ret (res, k')" "r = SvcReschedule"
    using r by (auto simp: wait_n_matches)
  then show ?thesis using thread_call.wait_several [OF run safe [OF reads(1)]] by (auto simp: called_def)
qed

lemma connect_called:
  assumes res: "create_session_to_port alive draws port k = Ret (res, k')" and run: "running k i t"
  shows "called i (\<forall>b h. res \<noteq> Inr (Some b, h)) k k'"
  using thread_call.connect [OF run res]
proof (rule called_one)
  assume "\<forall>b h. res \<noteq> Inr (Some b, h)"
  then show "running k' i t"
    using res run by (auto simp: create_session_to_port_def case_prod_unfold Let_def split: option.split_asm)
qed

lemma svc_connect_called:
  assumes run: "running k i t"
  shows "yields (svc_connect_to_port w regs mem k) (\<lambda>(r, regs', mem', k'). called i (r = SvcContinue) k k')"
  unfolding svc_connect_to_port_def Let_def
proof (intro yields_bind, goal_cases)
  case (1 bytes u x)
  obtain port k1 where x: "x = (port, k1)" by (cases x)
  have port: "k1 = k \<or> (\<exists>obj h. kernel_new_handle (w_draws w) obj k = Ret (h, k1))"
    using 1(3) by (auto simp: x split: option.split_asm)
  then have run1: "running k1 i t" using kernel_new_handle_running [OF _ run] run by auto
  have then_called: "called i g k k'" if "called i g k1 k'" for g k'
    using port that thread_call.new_handle called_then by metis
  show ?case unfolding x prod.case
  proof (intro yields_bind, goal_cases)
    case (1 y)
    obtain res k2 where y: "y = (res, k2)" by (cases y)
    show ?case
      using then_called [OF connect_called [OF 1 [unfolded y] run1]]
      by (cases res) (auto simp: y split: prod.split intro!: yieldsI)
  qed
qed

lemma take_command_called:
  assumes "take_command w tls mem k = Ret k1" "running k i t"
  shows "thread_call k k1 \<and> (\<exists>t'. running k1 i t')"
  using assms thread_call.set_data set_thread_ipc_data_running by (fastforce simp: take_command_def)

lemma send_called:
  assumes res: "send_sync_request alive handle k = Ret (res, k')" and run: "running k i t"
  shows "called i (\<forall>b. res \<noteq> Inr (Some b)) k k'"
  using thread_call.send_request [OF run res]
proof (rule called_one)
  assume "\<forall>b. res \<noteq> Inr (Some b)"
  then show "running k' i t"
    using res run by (auto simp: send_sync_request_def case_prod_unfold split: option.split_asm if_split_asm)
qed

lemma svc_send_called:
  assumes run: "running k i t"
  shows "yields (svc_send_sync_request w tls regs mem k) (\<lambda>(r, regs', mem', k'). called i (r = SvcContinue) k k')"
  unfolding svc_send_sync_request_def
proof (intro yields_bind, goal_cases)
  case (1 k1 y)
  obtain t1 where k1: "thread_call k k1" "running k1 i t1" using take_command_called [OF 1(1) run] by blast
  obtain res k2 where y: "y = (res, k2)" by (cases y)
  show ?case
    using called_then [OF k1(1) send_called [OF 1(2) [unfolded y] k1(2)]]
    by (auto simp: y split: sum.split option.split intro!: yieldsI)
qed

lemma client_port_wake_running:
  assumes ok: "sched_ok s" and r: "client_port_wake_thread i s = Ret s'"
    and t: "thread_at s j = Some t" "ct_state t \<noteq> Waiting"
  shows "thread_at s' j = Some t"
proof -
  obtain p where p: "object_at s i = Some (ClientPort p)" using r by (auto simp: client_port_wake_thread_def)
  have "all_woken i (take 1 (cp_queue p)) s s'" using client_port_wake [OF ok p] r by auto
  then show ?thesis
    using woken_others [OF ok p _ _ t, of "take 1 (cp_queue p)"] set_take_subset [of 1 "cp_queue p"] by simp
qed

lemma accept_session_running:
  assumes ok: "kernel_ok k" and run: "running k i t" and r: "accept_session alive port k = Ret (session, k1)"
  shows "running k1 i t"
proof (cases session)
  case None
  then show ?thesis using accept_session_none r run by fast
next
  case (Some x)
  then obtain client rest where wake: "client_port_wake_thread client
      (map_object port (map_server_port (\<lambda>p. p\<lparr>sp_sessions := rest\<rparr>)) k) = Ret k1"
    using r by (clarsimp simp: accept_session_def Let_def) (auto split: list.split_asm)
  have "sched_ok (map_object port (map_server_port (\<lambda>p. p\<lparr>sp_sessions := rest\<rparr>)) k)"
    using sched_step_with_queue [of "map_server_port (\<lambda>p. p\<lparr>sp_sessions := rest\<rparr>)" k port]
      kernel_ok_sched [OF ok] by (simp add: sched_step_def)
  from client_port_wake_running [OF this wake] have "thread_at k1 i = thread_at k i"
    using run by (simp add: running_def)
  then show ?thesis using running_frame [OF run rest.accept_session_part [OF r]] by simp
qed

lemma accept_called:
  assumes res: "svc_accept_session alive draws handle k = Ret (res, k')"
    and ok: "kernel_ok k" and run: "running k i t"
  shows "called i (\<forall>b. res \<noteq> Inr (Inl b)) k k'"
  using thread_call.accept [OF run res]
proof (rule called_one)
  assume not_waiting: "\<forall>b. res \<noteq> Inr (Inl b)"
  show "running k' i t"
  proof (cases "k' = k")
    case False
    then obtain port session k1 h where "accept_session alive port k = Ret (Some session, k1)"
        "kernel_new_handle draws session k1 = Ret (h, k')"
      using res not_waiting
      by (clarsimp simp: svc_accept_session_def) (auto split: option.split_asm)
    then show ?thesis using accept_session_running [OF ok run] kernel_new_handle_running by blast
  qed (simp add: run)
qed

lemma svc_accept_called:
  assumes ok: "kernel_ok k" and run: "running k i t"
  shows "yields (svc_accept_session_call w regs mem k) (\<lambda>(r, regs', mem', k'). called i (r = SvcContinue) k k')"
  unfolding svc_accept_session_call_def
  by (auto intro!: yields_bind split: sum.split) (auto simp: yields_def dest: accept_called [OF _ ok run])

text \<open>The wait that ends ReplyAndReceive is made of a kernel in which the reply has gone out.\<close>

definition receive_safe ::
  "(oid \<Rightarrow> bool) \<Rightarrow> (nat \<Rightarrow> u32) \<Rightarrow> handle option list \<Rightarrow> handle option \<Rightarrow> ('t, 'p) kernel \<Rightarrow> bool" where
  "receive_safe alive draws handles target k =
     (case target of
        None \<Rightarrow> wait_n_safe handles k
      | Some h \<Rightarrow>
          (case kernel_lookup_handle h k of
             Ret object \<Rightarrow>
               (case (dyn_cast is_server_session k object, current_pid_tid k) of
                  (Some session, Ret (_, i)) \<Rightarrow>
                    (case session_reply alive draws session i k of
                       Ret k1 \<Rightarrow> wait_n_safe handles k1
                     | _ \<Rightarrow> True)
                | _ \<Rightarrow> True)
           | _ \<Rightarrow> True))"

lemma wait_sync_n_inr: "wait_sync_n now handles wait_all timeout k = Ret (res, k') \<Longrightarrow> res = Inr (Some Reschedule)"
  by (auto simp: wait_sync_n_def Let_def)

lemma reply_and_receive_called:
  assumes ok: "kernel_ok k" and run: "running k i t"
    and r: "reply_and_receive_pre now alive draws handles target k = Ret (res, k')"
    and safe: "receive_safe alive draws handles target k"
  shows "called i (\<exists>err. res = Inl err) k k'"
proof (cases target)
  case None
  then have w: "wait_sync_n now handles False (- 1) k = Ret (res, k')" "wait_n_safe handles k"
    using r safe by (simp_all add: reply_and_receive_pre_def receive_safe_def)
  show ?thesis using thread_call.wait_several [OF run w(2,1)] wait_sync_n_inr [OF w(1)] by (simp add: called_def)
next
  case (Some h)
  obtain pid j object where o: "current_pid_tid k = Ret (pid, j)" "kernel_lookup_handle h k = Ret object"
    using r Some by (auto simp: reply_and_receive_pre_def)
  show ?thesis
  proof (cases "dyn_cast is_server_session k object")
    case None
    then show ?thesis using r Some o run by (auto simp: reply_and_receive_pre_def intro: called_refl)
  next
    fix session assume s: "dyn_cast is_server_session k object = Some session"
    obtain k1 where k1: "session_reply alive draws session j k = Ret k1"
        "wait_sync_n now handles False (- 1) k1 = Ret (res, k')" "wait_n_safe handles k1"
      using r safe Some o s by (auto simp: reply_and_receive_pre_def receive_safe_def)
    obtain t1 where t1: "running k1 i t1" using yieldsD [OF session_reply_ok [OF ok run] k1(1)] by blast
    have "thread_calls k k'"
      using thread_call.reply [OF run k1(1)] thread_call.wait_several [OF t1 k1(3,2)] by simp
    then show ?thesis using wait_sync_n_inr [OF k1(2)] by (simp add: called_def)
  qed
qed

lemma svc_reply_and_receive_called:
  assumes ok: "kernel_ok k" and run: "running k i t"
    and safe: "\<And>bytes k1. \<lbrakk>mm_read (w_memory w) (reg_r 1 regs) (unat (reg_r 2 regs) * 4) mem = Ret bytes;
        take_command w tls mem k = Ret k1\<rbrakk> \<Longrightarrow>
      receive_safe (w_alive w) (w_draws w) (handles_of bytes (unat (reg_r 2 regs))) (handle_from_raw (reg_r 3 regs)) k1"
  shows "yields (svc_reply_and_receive w tls regs mem k) (\<lambda>(r, regs', mem', k'). called i (r = SvcContinue) k k')"
  unfolding svc_reply_and_receive_def Let_def
proof (intro yields_bind, goal_cases)
  case (1 k1 bytes y)
  obtain t1 where k1: "thread_call k k1" "running k1 i t1" using take_command_called [OF 1(1) run] by blast
  obtain res k2 where y: "y = (res, k2)" by (cases y)
  have "called i (\<exists>err. res = Inl err) k1 k2"
    using reply_and_receive_called [OF thread_call_ok [OF k1(1) ok] k1(2) 1(3) [unfolded y] safe [OF 1(2,1)]] .
  from called_then [OF k1(1) this] show ?case
    by (auto simp: y split: sum.split option.split intro!: yieldsI)
qed

lemma finish_arbitration_called:
  assumes run: "running k i t" and a: "object_at k arb = Some (Arbiter ab)"
  shows "yields (finish_arbitration arb addr res regs mem k) (\<lambda>(r, regs', mem', k'). called i (r = SvcContinue) k k')"
proof (rule yieldsI)
  fix x assume r: "finish_arbitration arb addr res regs mem k = Ret x"
  show "(\<lambda>(r, regs', mem', k'). called i (r = SvcContinue) k k') x"
    using r run thread_call.wait_arbiter [OF run a, where addr = addr]
    by (cases res) (auto simp: finish_arbitration_def called_def split: arbitration_fail.split_asm)
qed

lemma arbiter_signal_kind:
  assumes "kernel_ok k" "arbiter_signal j n addr k = Ret (b, k')" "object_at k j = Some (Arbiter ab)"
  shows "\<exists>ab'. object_at k' j = Some (Arbiter ab')"
  using arbiter_signal_drains [OF kernel_ok_sched [OF assms(1)] assms(3) refl, where amount = n and addr = addr] assms(2)
  by auto

lemma svc_arbitrate_called:
  assumes ok: "kernel_ok k" and run: "running k i t"
  shows "yields (svc_arbitrate_address w regs mem k) (\<lambda>(r, regs', mem', k'). called i (r = SvcContinue) k k')"
  unfolding svc_arbitrate_address_def Let_def
proof (intro yields_bind, goal_cases)
  case (1 kind object)
  show ?case
  proof (cases "dyn_cast is_arbiter k object")
    case None
    then show ?thesis using run by (auto intro!: yieldsI called_refl)
  next
    case (Some arb)
    then obtain ab where ab: "object_at k arb = Some (Arbiter ab)" by (auto dest!: dyn_castD elim: is_arbiter.elims)
    show ?thesis unfolding Some option.case
    proof (intro yields_bind, goal_cases)
      case (1 data x)
      obtain action res where x: "x = (action, res)" by (cases x)
      show ?case unfolding x prod.case
      proof (intro yields_bind, goal_cases)
        case (1 y)
        obtain mem1 k1 where y: "y = (mem1, k1)" by (cases y)
        have k1: "k1 = k \<or> (\<exists>n addr b. arbiter_signal arb n addr k = Ret (b, k1))"
          using 1 y by (auto split: option.split_asm arbitration_action.split_asm)
        then have "(k1 = k \<or> thread_call k k1) \<and> running k1 i t \<and> (\<exists>ab'. object_at k1 arb = Some (Arbiter ab'))"
          using run ab arbiter_signal_running [OF ok _ run] arbiter_signal_kind [OF ok _ ab] thread_call.signal_arbiter by blast
        then obtain ab' where ab': "k1 = k \<or> thread_call k k1" "running k1 i t" "object_at k1 arb = Some (Arbiter ab')"
          by blast
        show ?case unfolding y prod.case
          by (rule yields_mono [OF finish_arbitration_called [OF ab'(2,3)]]) (use ab'(1) called_then in fastforce)
      qed
    qed
  qed
qed

section \<open>The handler\<close>

text \<open>The waits of WaitSynchronizationN and ReplyAndReceive are among those that leave no stale
  waker behind.\<close>

definition svc_wait_safe :: "('m, 't, 'p) world \<Rightarrow> u32 \<Rightarrow> u32 \<Rightarrow> thread_regs \<Rightarrow> 'm \<Rightarrow> ('t, 'p) kernel \<Rightarrow> bool" where
  "svc_wait_safe w svc tls regs mem k =
     (case mm_read (w_memory w) (reg_r 1 regs) (unat (reg_r 2 regs) * 4) mem of
        Ret bytes \<Rightarrow>
          let handles = handles_of bytes (unat (reg_r 2 regs)) in
          (svc = 0x25 \<longrightarrow> wait_n_safe handles k) \<and>
          (svc = 0x4F \<longrightarrow>
             (case take_command w tls mem k of
                Ret k1 \<Rightarrow> receive_safe (w_alive w) (w_draws w) handles (handle_from_raw (reg_r 3 regs)) k1
              | _ \<Rightarrow> True))
      | _ \<Rightarrow> True)"

lemma same_kernel_called: "\<lbrakk>k' = k; running k i t\<rbrakk> \<Longrightarrow> called i goes_on k k'"
  by (simp add: called_refl)

lemma run_svc_called:
  assumes ok: "kernel_ok k" and run: "running k i t" and safe: "svc_wait_safe w svc tls regs mem k"
    and r: "run_svc w svc tls regs mem k = Ret (r, regs', mem', k')"
  shows "called i (r = SvcContinue) k k'"
proof -
  note same = svc_same_kernel [THEN same_kernel_called, OF _ run]
  note plain = svc_exit_thread_called svc_sleep_thread_called svc_create_mutex_called
    svc_create_event_called svc_signal_event_called svc_clear_event_called svc_create_timer_called
    svc_set_timer_called svc_cancel_timer_called svc_create_address_arbiter_called svc_close_handle_called
    svc_wait_1_called svc_bind_interrupt_called
  note yielded = svc_arbitrate_called [OF ok run] svc_connect_called [OF run] svc_send_called [OF run]
    svc_accept_called [OF ok run]
  have wait_n: "called i (r = SvcContinue) k k'"
    if "svc = 0x25" "svc_wait_synchronization_n w regs mem k = Ret (r, regs', mem', k')"
    by (rule svc_wait_n_called [OF that(2) run]) (use safe that(1) in \<open>simp add: svc_wait_safe_def\<close>)
  have receive: "called i (r = SvcContinue) k k'"
    if "svc = 0x4F" "svc_reply_and_receive w tls regs mem k = Ret (r, regs', mem', k')"
  proof -
    have "yields (svc_reply_and_receive w tls regs mem k) (\<lambda>(r, regs', mem', k'). called i (r = SvcContinue) k k')"
      by (rule svc_reply_and_receive_called [OF ok run]) (use safe that(1) in \<open>simp add: svc_wait_safe_def\<close>)
    from yieldsD [OF this that(2)] show ?thesis by simp
  qed
  have yielded': "called i (r = SvcContinue) k k'"
    if "m = Ret (r, regs', mem', k')" "yields m (\<lambda>(r, regs', mem', k'). called i (r = SvcContinue) k k')" for m
    using yieldsD [OF that(2,1)] by simp
  show ?thesis
    using r unfolding run_svc_def
    by (simp split: if_split_asm add: called_refl [OF run])
      (erule plain [OF _ run] svc_release_mutex_called [OF _ run ok] svc_create_thread_called [OF _ kernel_ids_ok [OF ok]] same
        | (erule wait_n receive, assumption) | (erule yielded', rule yielded)
        | (use called_refl [OF run] in auto))+
qed

section \<open>Whatever it waits for\<close>

text \<open>Without a look at what is ready when the guest waits for several objects, the calls are still calls.\<close>

lemma called_any: "called i g k k' \<Longrightarrow> any_calls k k'"
  by (auto simp: called_def intro: thread_calls_any)

lemma any_one: "any_call k k' \<Longrightarrow> any_calls k k'"
  by blast

lemma svc_release_mutex_any: "svc_release_mutex regs mem k = Ret (r, regs', mem', k') \<Longrightarrow> any_calls k k'"
  by (auto simp: svc_release_mutex_def intro: any_one any_call.safe thread_call.release_mutex)

lemma svc_wait_n_any: "svc_wait_synchronization_n w regs mem k = Ret (r, regs', mem', k') \<Longrightarrow> any_calls k k'"
proof -
  assume r: "svc_wait_synchronization_n w regs mem k = Ret (r, regs', mem', k')"
  then obtain bytes wifi where "mm_read (w_memory w) (reg_r 1 regs) (unat (reg_r 2 regs) * 4) mem = Ret bytes"
      "mm_read (w_memory w) 0x1FF81060 8 mem = Ret wifi"
    by (auto simp: svc_wait_synchronization_n_def Let_def)
  then show ?thesis using r any_call.wait by (fastforce simp: wait_n_matches intro: any_one)
qed

lemma svc_accept_any:
  assumes "svc_accept_session_call w regs mem k = Ret (r, regs', mem', k')" "running k i t"
  shows "any_calls k k'"
proof -
  obtain res where res: "svc_accept_session (w_alive w) (w_draws w) (handle_from_raw (reg_r 1 regs)) k = Ret (res, k')"
  proof -
    obtain res k1 where r: "svc_accept_session (w_alive w) (w_draws w) (handle_from_raw (reg_r 1 regs)) k = Ret (res, k1)"
      using assms(1) by (auto simp: svc_accept_session_call_def)
    then have "k1 = k'" using assms(1) by (auto simp: svc_accept_session_call_def split: sum.split_asm)
    then show thesis using that r by simp
  qed
  show ?thesis using thread_call.accept [OF assms(2) res] by (intro any_one any_call.safe)
qed

lemma svc_receive_parts:
  assumes r: "svc_reply_and_receive w tls regs mem k = Ret (r, regs', mem', k')"
  obtains k1 handles res where "take_command w tls mem k = Ret k1"
    "reply_and_receive_pre (w_now w) (w_alive w) (w_draws w) handles (handle_from_raw (reg_r 3 regs)) k1 = Ret (res, k')"
    "r = SvcContinue \<Longrightarrow> \<exists>err. res = Inl err"
proof -
  obtain k1 bytes res k2 where c: "take_command w tls mem k = Ret k1"
      "mm_read (w_memory w) (reg_r 1 regs) (unat (reg_r 2 regs) * 4) mem = Ret bytes"
      "reply_and_receive_pre (w_now w) (w_alive w) (w_draws w) (handles_of bytes (unat (reg_r 2 regs)))
         (handle_from_raw (reg_r 3 regs)) k1 = Ret (res, k2)"
    using r by (auto simp: svc_reply_and_receive_def Let_def)
  then have eq: "k2 = k'" and err: "r = SvcContinue \<longrightarrow> (\<exists>err. res = Inl err)"
    using r by (auto simp: svc_reply_and_receive_def Let_def split: sum.split_asm option.split_asm)
  show thesis using that [OF c(1) c(3) [unfolded eq]] err by simp
qed

lemma svc_receive_any:
  assumes r: "svc_reply_and_receive w tls regs mem k = Ret (r, regs', mem', k')" and run: "running k i t"
  shows "any_calls k k'"
proof -
  obtain k1 handles res where k1: "take_command w tls mem k = Ret k1"
      and pre: "reply_and_receive_pre (w_now w) (w_alive w) (w_draws w) handles (handle_from_raw (reg_r 3 regs)) k1 = Ret (res, k')"
    using svc_receive_parts [OF r] by metis
  obtain t1 where c: "thread_call k k1" "running k1 i t1" using take_command_called [OF k1 run] by blast
  have "any_calls k1 k'"
  proof (cases "handle_from_raw (reg_r 3 regs)")
    case None
    then show ?thesis using pre by (auto simp: reply_and_receive_pre_def intro: any_one any_call.wait)
  next
    case (Some h)
    then obtain pid j object where o: "current_pid_tid k1 = Ret (pid, j)" "kernel_lookup_handle h k1 = Ret object"
      using pre by (auto simp: reply_and_receive_pre_def)
    show ?thesis
    proof (cases "dyn_cast is_server_session k1 object")
      case None
      then show ?thesis using pre Some o by (auto simp: reply_and_receive_pre_def)
    next
      fix session assume s: "dyn_cast is_server_session k1 object = Some session"
      obtain k2 where "session_reply (w_alive w) (w_draws w) session j k1 = Ret k2"
          "wait_sync_n (w_now w) handles False (- 1) k2 = Ret (res, k')"
        using pre Some o s by (auto simp: reply_and_receive_pre_def)
      then show ?thesis
        using any_call.safe [OF thread_call.reply [OF c(2)]] any_call.wait by (meson converse_rtranclp_into_rtranclp any_one)
    qed
  qed
  then show ?thesis using any_call.safe [OF c(1)] by (rule converse_rtranclp_into_rtranclp [rotated])
qed

lemma finish_arbitration_any:
  "finish_arbitration arb addr res regs mem k = Ret (r, regs', mem', k') \<Longrightarrow> any_calls k k'"
  by (cases res) (auto simp: finish_arbitration_def intro: any_one any_call.arbitrate split: arbitration_fail.split_asm)

lemma svc_arbitrate_any:
  assumes "svc_arbitrate_address w regs mem k = Ret (r, regs', mem', k')"
  shows "any_calls k k'"
proof -
  have "yields (svc_arbitrate_address w regs mem k) (\<lambda>(r, regs', mem', k'). any_calls k k')"
    unfolding svc_arbitrate_address_def Let_def
  proof (intro yields_bind, goal_cases)
    case (1 kind object)
    show ?case
    proof (cases "dyn_cast is_arbiter k object")
      case None
      then show ?thesis by (auto intro!: yieldsI)
    next
      case (Some arb)
      show ?thesis unfolding Some option.case
      proof (intro yields_bind, goal_cases)
        case (1 data x)
        obtain action res where x: "x = (action, res)" by (cases x)
        show ?case unfolding x prod.case
        proof (intro yields_bind, goal_cases)
          case (1 y)
          obtain mem1 k1 where y: "y = (mem1, k1)" by (cases y)
          have "k1 = k \<or> (\<exists>n addr b. arbiter_signal arb n addr k = Ret (b, k1))"
            using 1 y by (auto split: option.split_asm arbitration_action.split_asm)
          then have "any_calls k k1" using any_call.safe [OF thread_call.signal_arbiter] by blast
          then show ?case unfolding y prod.case
            by (auto intro!: yieldsI dest!: finish_arbitration_any)
        qed
      qed
    qed
  qed
  from yieldsD [OF this assms] show ?thesis by simp
qed

lemma run_svc_any:
  assumes ok: "ids_ok k" and run: "running k i t" and r: "run_svc w svc tls regs mem k = Ret (r, regs', mem', k')"
  shows "any_calls k k'"
proof -
  note same = svc_same_kernel [THEN same_kernel_called, OF _ run, THEN called_any]
  note plain = svc_exit_thread_called [THEN called_any]
    svc_sleep_thread_called [THEN called_any] svc_create_mutex_called [THEN called_any]
    svc_create_event_called [THEN called_any] svc_signal_event_called [THEN called_any]
    svc_clear_event_called [THEN called_any] svc_create_timer_called [THEN called_any]
    svc_set_timer_called [THEN called_any] svc_cancel_timer_called [THEN called_any]
    svc_create_address_arbiter_called [THEN called_any] svc_close_handle_called [THEN called_any]
    svc_wait_1_called [THEN called_any] svc_bind_interrupt_called [THEN called_any]
  note any = svc_release_mutex_any svc_wait_n_any svc_arbitrate_any
  note any_run = svc_accept_any [OF _ run] svc_receive_any [OF _ run]
  have yielded: "any_calls k k'"
    if "m = Ret (r, regs', mem', k')" "yields m (\<lambda>(r, regs', mem', k'). called i (r = SvcContinue) k k')" for m
    using yieldsD [OF that(2,1)] by (auto dest: called_any)
  show ?thesis
    using r unfolding run_svc_def
    by (simp split: if_split_asm)
      (erule plain [OF _ run] svc_create_thread_called [OF _ ok, THEN called_any] any any_run same
        | (erule yielded, rule svc_connect_called [OF run] svc_send_called [OF run])
        | auto)+
qed

text \<open>A handler that lets the guest go on has not waited.\<close>

lemma run_svc_goes_on:
  assumes ok: "kernel_ok k" and run: "running k i t"
    and r: "run_svc w svc tls regs mem k = Ret (SvcContinue, regs', mem', k')"
  shows "\<exists>t'. running k' i t'"
proof -
  consider "svc = 0x25" | "svc = 0x4F" | "svc \<noteq> 0x25" "svc \<noteq> 0x4F" by blast
  then show ?thesis
  proof cases
    case 1
    then show ?thesis using r by (auto simp: run_svc_def svc_wait_synchronization_n_def Let_def)
  next
    case 2
    then have "svc_reply_and_receive w tls regs mem k = Ret (SvcContinue, regs', mem', k')"
      using r by (simp add: run_svc_def)
    then obtain k1 handles err where k1: "take_command w tls mem k = Ret k1"
        and pre: "reply_and_receive_pre (w_now w) (w_alive w) (w_draws w) handles (handle_from_raw (reg_r 3 regs)) k1 =
          Ret (Inl err, k')"
      using svc_receive_parts by metis
    have "k' = k1"
      using pre wait_sync_n_inr by (fastforce simp: reply_and_receive_pre_def split: option.split_asm)
    then show ?thesis using take_command_called [OF k1 run] by blast
  next
    case 3
    have "svc_wait_safe w svc tls regs mem k" using 3 by (simp add: svc_wait_safe_def Let_def split: res.split)
    from run_svc_called [OF ok run this r] show ?thesis by (simp add: called_def)
  qed
qed

section \<open>The property\<close>

text \<open>C3: whatever the handler of system calls of the guest does to the kernel for a running thread is a
  sequence of the calls of the thread interface.  From a kernel in which queues and threads agree,
  the thread that made the system call is still the running one when the handler lets the guest go
  on; and unless it waits for several objects of which one is ready (WaitSynchronizationN and
  ReplyAndReceive, see C37), the calls are those of \<open>thread_call\<close> and queues and threads agree
  afterwards, too.\<close>

theorem guest_svc_calls:
  assumes "ids_ok k" "running k i t" "handle_svc w tls regs mem k = Ret (r, regs', mem', k')"
  shows "any_calls k k' \<and>
    (kernel_ok k \<longrightarrow>
      (r = SvcContinue \<longrightarrow> (\<exists>t'. running k' i t')) \<and>
      ((\<forall>svc. get_svc (w_memory w) regs mem = Ret svc \<longrightarrow> svc_wait_safe w svc tls regs mem k) \<longrightarrow>
        thread_calls k k' \<and> kernel_ok k'))"
proof -
  obtain svc where svc: "get_svc (w_memory w) regs mem = Ret svc"
      "run_svc w svc tls regs mem k = Ret (r, regs', mem', k')"
    using assms(3) by (auto simp: handle_svc_def)
  have "\<exists>t'. running k' i t'" if "kernel_ok k" "r = SvcContinue"
    by (rule run_svc_goes_on [OF that(1) assms(2)]) (use svc(2) that(2) in simp)
  moreover have "thread_calls k k' \<and> kernel_ok k'" if "kernel_ok k" "svc_wait_safe w svc tls regs mem k"
    using run_svc_called [OF that(1) assms(2) that(2) svc(2)] thread_calls_ok that(1) by (auto simp: called_def)
  ultimately have "kernel_ok k \<longrightarrow> (r = SvcContinue \<longrightarrow> (\<exists>t'. running k' i t')) \<and>
      (svc_wait_safe w svc tls regs mem k \<longrightarrow> thread_calls k k' \<and> kernel_ok k')"
    by blast
  then show ?thesis using run_svc_any [OF assms(1,2) svc(2)] svc(1) by blast
qed

text \<open>SleepThread before the address 0x1004: the thread gives up the processor and waits.\<close>

definition sleeping_code :: "u32 \<Rightarrow> u8" where
  "sleeping_code = (\<lambda>_. 0)(0x1000 := 0x0A, 0x1003 := 0xEF)"

lemma sleeping_svc: "get_svc (dynarmic_memory flat_memory) sample_regs sleeping_code = Ret 0x0A"
  using flat_read [of "0x1000" 4 sleeping_code]
  by (simp add: get_svc_def sample_regs_def csub_def upt_four sleeping_code_def)

definition sleeping_kernel :: "(thread_context, process_tls) kernel" where
  "sleeping_kernel = guest_kernel\<lparr>k_next_tid := 6\<rparr>"

lemma sleeping_kernel_ok: "kernel_ok sleeping_kernel"
  by (simp add: kernel_ok_def sleeping_kernel_def guest_kernel_def kernel_new_def sched_ok_def queues_live_def thread_indices_def thread_new_def)

lemma sleeping_kernel_running: "running sleeping_kernel 5 ((thread_new 0 5 9)\<lparr>ct_state := Running\<rparr>)"
  by (simp add: running_def sleeping_kernel_def guest_kernel_def kernel_new_def thread_at_def thread_new_def)

lemma sleeping_outcome:
  "\<exists>k' t. handle_svc sample_world 0 sample_regs sleeping_code sleeping_kernel =
      Ret (SvcReschedule, sample_regs, sleeping_code, k') \<and> sc_threads k' = [t] \<and> ct_state t = Waiting"
  using sleeping_svc
  by (simp add: handle_svc_def run_svc_def svc_sleep_thread_def sample_regs_def guest_make_timeout_def join_words_def
      kernel_time_def csub_def sample_world_def sleeping_kernel_def guest_kernel_def kernel_new_def timeout_absolute_def suspend_thread_def
      suspend_current_def current_pid_tid_def find_thread_def put_thread_def thread_new_def thread_wait_def Let_def)

theorem guest_svc_calls_witness:
  "\<exists>k' t. handle_svc sample_world 0 sample_regs sleeping_code sleeping_kernel =
      Ret (SvcReschedule, sample_regs, sleeping_code, k') \<and> sc_threads k' = [t] \<and> ct_state t = Waiting \<and>
    thread_calls sleeping_kernel k' \<and> kernel_ok k'"
proof -
  obtain k' t where k': "handle_svc sample_world 0 sample_regs sleeping_code sleeping_kernel =
      Ret (SvcReschedule, sample_regs, sleeping_code, k')" "sc_threads k' = [t]" "ct_state t = Waiting"
    using sleeping_outcome by blast
  have "svc_wait_safe sample_world svc 0 sample_regs sleeping_code sleeping_kernel"
    if "get_svc (w_memory sample_world) sample_regs sleeping_code = Ret svc" for svc
    using that sleeping_svc by (simp add: svc_wait_safe_def split: res.split)
  from guest_svc_calls [OF kernel_ids_ok [OF sleeping_kernel_ok] sleeping_kernel_running k'(1)] this sleeping_kernel_ok show ?thesis using k' by blast
qed

end
