(* ===== verification/Sessions.thy ===== *)
theory Sessions
  imports Translation Execution
begin

text \<open>
  The two halves of a session as one queue of requests: \<open>sync_request\<close> of the client end appends the
  calling thread and \<open>reply\<close> of the server end answers the first one and wakes it, as long as only
  senders of requests wait for the client end; and what happens when somebody else does.
\<close>

section \<open>A session as a queue\<close>

text \<open>The threads \<open>q\<close> have sent requests through the client end \<open>c\<close> of the session whose server end is
  \<open>s\<close> and wait for the answers, in this order.\<close>

definition session_serves :: "oid \<Rightarrow> oid \<Rightarrow> tid list \<Rightarrow> ('t, 'z) sched_scheme \<Rightarrow> bool" where
  "session_serves s c q k \<longleftrightarrow>
     (case (object_at k s, object_at k c) of
        (Some (ServerSession x), Some (ClientSession y)) \<Rightarrow>
          ss_requests x = q \<and> ss_client x = Some c \<and> map wk_thread (cs_queue y) = q \<and> cs_server y = s \<and>
          distinct q \<and> set q \<inter> wk_thread ` set (ss_queue x) = {}
      | _ \<Rightarrow> False)"

lemma session_servesE:
  assumes "session_serves s c q k"
  obtains x y where "object_at k s = Some (ServerSession x)" "object_at k c = Some (ClientSession y)"
    "ss_requests x = q" "ss_client x = Some c" "map wk_thread (cs_queue y) = q" "cs_server y = s"
    "distinct q" "set q \<inter> wk_thread ` set (ss_queue x) = {}"
proof -
  obtain a where a: "object_at k s = Some a"
    using assms by (cases "object_at k s") (simp_all add: session_serves_def)
  then obtain x where x: "a = ServerSession x" using assms by (cases a) (simp_all add: session_serves_def)
  obtain b where b: "object_at k c = Some b"
    using assms a x by (cases "object_at k c") (simp_all add: session_serves_def)
  then obtain y where "b = ClientSession y" using assms a x by (cases b) (simp_all add: session_serves_def)
  then show ?thesis using that assms a b x by (simp add: session_serves_def)
qed

text \<open>The translation of a message looks at processes and threads only.\<close>

lemma translate_ipc_map_object:
  assumes "translate_ipc draws src dest reply k = Ret k1"
  shows "translate_ipc draws src dest reply (map_object i f k) = Ret (map_object i f k1)"
  using assms by (cases reply) (fastforce simp: translate_ipc_def map_object_def Let_def)+

lemma translate_ipc_objects:
  "translate_ipc draws src dest reply k = Ret k1 \<Longrightarrow> sc_objects k1 = sc_objects k"
  by (auto simp: translate_ipc_def Let_def)

section \<open>Replying\<close>

lemma reply_wakes_head:
  assumes ok: "kernel_ok k"
    and s: "object_at k s = Some (ServerSession x)" "ss_requests x = r # q" "ss_client x = Some c" "alive c"
    and c: "object_at k c = Some (ClientSession y)" "cs_queue y = v # vs"
    and tr: "translate_ipc draws j r True k = Ret k1"
  shows "\<exists>k'. session_reply alive draws s j k = Ret k' \<and> kernel_ok k' \<and>
    (\<forall>i. thread_at k' i =
       (if i = wk_thread v then map_option (\<lambda>t. awake (object_resume c t) t) (thread_at k1 i) else thread_at k1 i)) \<and>
    object_at k' s = Some (ServerSession
      (x\<lparr>ss_requests := q, ss_queue := retain_others (wk_thread v) (ss_queue x)\<rparr>)) \<and>
    object_at k' c = Some (ClientSession (y\<lparr>cs_queue := retain_others (wk_thread v) vs\<rparr>))"
proof -
  let ?f = "map_server_session (\<lambda>x. x\<lparr>ss_requests := q\<rparr>)"
  have ne: "c \<noteq> s" using s(1) c(1) by auto
  have objects: "object_at k1 i = object_at k i" for i
    using same_objects [OF translate_ipc_objects [OF tr]] by simp
  have ok1: "kernel_ok k1" using yieldsD [OF translate_ipc_ok [OF ok] tr] by simp
  have "sched_step k1 (map_object s ?f k1)" by (rule sched_step_with_queue) simp_all
  then have ok2: "kernel_ok (map_object s ?f k1)" using ok1 by (rule kernel_ok_step)
  have c2: "object_at (map_object s ?f k1) c = Some (ClientSession y)"
    using c(1) ne objects by simp
  obtain k' where k': "client_session_wake_thread c (map_object s ?f k1) = Ret k'"
      "all_woken c (take 1 (cs_queue y)) (map_object s ?f k1) k'"
      "object_at k' c = Some (ClientSession (y\<lparr>cs_queue := pop_queue (cs_queue y)\<rparr>))"
    using client_session_wake [OF kernel_ok_sched [OF ok2] c2] by auto
  have "session_reply alive draws s j k = Ret k'"
    using s translate_ipc_map_object [OF tr, of s ?f] k'(1)
    by (simp add: session_reply_def server_session_at_def Let_def upgrade_def enqueue_response_def)
  moreover have "kernel_ok k'"
    using kernel_ok_step [OF yieldsD [OF client_session_wake_step k'(1)] ok2] .
  ultimately show ?thesis using k'(2,3) c(2) s(1) ne objects by (simp add: all_woken_def)
qed

section \<open>Sending\<close>

lemma retain_others_threads: "wk_thread ` set (retain_others i ws) \<subseteq> wk_thread ` set ws"
  by (auto simp: retain_others_def)

lemma pop_queue_threads: "wk_thread ` set (pop_queue ws) \<subseteq> wk_thread ` set ws"
  using retain_others_threads by (cases ws) fastforce+

text \<open>C7: as long as exactly the senders of requests wait for the client end of a session, a further
  request joins the end of the queue: the session then serves the earlier threads and after them
  the sender, and the server thread that has waited longest is the only one woken.\<close>

theorem session_request_joins_queue:
  assumes q: "session_serves s c q k" and w: "suspended_on k c w t" and s: "alive s"
  shows "\<exists>k' x. sync_request alive c w k = Ret (True, k') \<and> sched_ok k' \<and>
    session_serves s c (q @ [wk_thread w]) k' \<and> object_at k s = Some (ServerSession x) \<and>
    (\<forall>j. thread_at k' j =
       (if j \<in> wk_thread ` set (take 1 (ss_queue x))
        then map_option (\<lambda>t. awake (object_resume s t) t) (thread_at k j) else thread_at k j))"
proof -
  obtain x y where x: "object_at k s = Some (ServerSession x)" "ss_requests x = q" "ss_client x = Some c"
      and y: "object_at k c = Some (ClientSession y)" "map wk_thread (cs_queue y) = q" "cs_server y = s"
      and q': "distinct q" "set q \<inter> wk_thread ` set (ss_queue x) = {}"
    using q by (rule session_servesE)
  have new: "wk_thread w \<notin> set q" "wk_thread w \<notin> wk_thread ` set (ss_queue x)"
    using w x(1) y(1,2) by (force simp: suspended_on_def)+
  obtain k' where k': "sync_request alive c w k = Ret (True, k')" "sched_ok k'"
      "\<forall>j. thread_at k' j = (if j \<in> wk_thread ` set (take 1 (ss_queue x))
        then map_option (\<lambda>t. awake (object_resume s t) t) (thread_at k j) else thread_at k j)"
      "object_at k' s = Some (ServerSession
        (x\<lparr>ss_requests := q @ [wk_thread w], ss_queue := pop_queue (ss_queue x)\<rparr>))"
      "object_at k' c = Some (fold remove_wakers (map wk_thread (take 1 (ss_queue x)))
        (ClientSession (y\<lparr>cs_queue := cs_queue y @ [w]\<rparr>)))"
    using sync_request_queues [OF w y(1), of alive x] s x y(3) by auto
  have client: "object_at k' c = Some (ClientSession (y\<lparr>cs_queue := cs_queue y @ [w]\<rparr>))"
  proof (cases "ss_queue x")
    case (Cons v vs)
    then have "wk_thread v \<notin> wk_thread ` set (cs_queue y @ [w])" using q'(2) new(2) y(2) by force
    from retain_others_absent [OF this] show ?thesis using k'(5) Cons by simp
  qed (use k'(5) in simp)
  have "set (q @ [wk_thread w]) \<inter> wk_thread ` set (pop_queue (ss_queue x)) = {}"
    using q'(2) new(2) pop_queue_threads [of "ss_queue x"] by (simp, blast)
  then have "session_serves s c (q @ [wk_thread w]) k'"
    using k'(4) client x(3) y(2,3) q'(1) new(1) by (simp add: session_serves_def)
  then show ?thesis using k'(1,2,3) x(1) by blast
qed

section \<open>Answering\<close>

text \<open>C6: a reply answers the thread at the head of such a session: this thread, and no other, gets
  the translated message and is woken, and the session goes on with the threads behind it.\<close>

theorem session_reply_answers_first:
  assumes ok: "kernel_ok k" and q: "session_serves s c (r # q) k" and c: "alive c"
    and tr: "translate_ipc draws j r True k = Ret k1"
  shows "\<exists>k'. session_reply alive draws s j k = Ret k' \<and> kernel_ok k' \<and> session_serves s c q k' \<and>
    thread_at k' r = map_option (\<lambda>t. awake (object_resume c t) t) (thread_at k1 r) \<and>
    (\<forall>i. i \<noteq> r \<longrightarrow> thread_at k' i = thread_at k1 i)"
proof -
  obtain x y where x: "object_at k s = Some (ServerSession x)" "ss_requests x = r # q" "ss_client x = Some c"
      and y: "object_at k c = Some (ClientSession y)" "map wk_thread (cs_queue y) = r # q" "cs_server y = s"
      and q': "distinct (r # q)" "set (r # q) \<inter> wk_thread ` set (ss_queue x) = {}"
    using q by (rule session_servesE)
  obtain v vs where v: "cs_queue y = v # vs" "wk_thread v = r" "map wk_thread vs = q" using y(2) by auto
  obtain k' where k': "session_reply alive draws s j k = Ret k'" "kernel_ok k'"
      "\<forall>i. thread_at k' i =
         (if i = r then map_option (\<lambda>t. awake (object_resume c t) t) (thread_at k1 i) else thread_at k1 i)"
      "object_at k' s = Some (ServerSession (x\<lparr>ss_requests := q, ss_queue := retain_others r (ss_queue x)\<rparr>))"
      "object_at k' c = Some (ClientSession (y\<lparr>cs_queue := retain_others r vs\<rparr>))"
    using reply_wakes_head [where alive = alive, OF ok x c y(1) v(1) tr] v(2) by auto
  have "r \<notin> wk_thread ` set vs" using v(3) q'(1) by auto
  then have "retain_others r vs = vs" by (rule retain_others_absent)
  moreover have "set q \<inter> wk_thread ` set (retain_others r (ss_queue x)) = {}"
    using q'(2) retain_others_threads [of r "ss_queue x"] by auto
  ultimately have "session_serves s c q k'"
    using k'(4,5) x(3) y(3) v(3) q'(1) by (simp add: session_serves_def)
  then show ?thesis using k'(1,2,3) by simp
qed

text \<open>C8: when another thread waits for the client end ahead of the sender of the request, the reply
  wakes that thread: the sender has its answer but sleeps on, and its request is no longer queued.\<close>

theorem reply_wakes_bystander:
  assumes ok: "kernel_ok k"
    and s: "object_at k s = Some (ServerSession x)" "ss_requests x = [r]" "ss_client x = Some c" "alive c"
    and c: "object_at k c = Some (ClientSession y)" "cs_queue y = v # vs" "wk_thread v \<noteq> r"
    and tr: "translate_ipc draws j r True k = Ret k1"
  shows "\<exists>k' x'. session_reply alive draws s j k = Ret k' \<and>
    thread_at k' (wk_thread v) = map_option (\<lambda>t. awake (object_resume c t) t) (thread_at k1 (wk_thread v)) \<and>
    thread_at k' r = thread_at k1 r \<and> object_at k' s = Some (ServerSession x') \<and> ss_requests x' = []"
  using reply_wakes_head [where alive = alive, OF ok s c(1,2) tr] c(3) by fastforce

section \<open>Witnesses\<close>

text \<open>A server thread 0 waits for the server end 0 of a session, thread 2 has sent a request through
  the client end 1 and thread 1 has just suspended itself to do the same.\<close>

definition asked_session :: "unit sched" where
  "asked_session =
     \<lparr>sc_objects =
        [ServerSession \<lparr>ss_queue = [\<lparr>wk_thread = 0, wk_key = 0\<rparr>], ss_requests = [2], ss_client = Some 1\<rparr>,
         ClientSession \<lparr>cs_queue = [\<lparr>wk_thread = 2, wk_key = 0\<rparr>], cs_server = 0\<rparr>],
      sc_threads = [waiter 0, (waiter 1)\<lparr>ct_wait_objects := [1]\<rparr>, (waiter 2)\<lparr>ct_wait_objects := [1]\<rparr>]\<rparr>"

theorem session_request_joins_queue_witness:
  "\<exists>k'. sync_request (\<lambda>_. True) 1 \<lparr>wk_thread = 1, wk_key = 0\<rparr> asked_session = Ret (True, k') \<and>
     session_serves 0 1 [2, 1] k' \<and> thread_at k' 0 = Some (awake ResumeNormal (waiter 0))"
proof -
  have ok: "sched_ok asked_session"
    by (auto simp: asked_session_def sched_ok_def queues_live_def waits_on_def waiter_def thread_new_def less_Suc_eq)
  then have susp: "suspended_on asked_session 1 \<lparr>wk_thread = 1, wk_key = 0\<rparr> ((waiter 1)\<lparr>ct_wait_objects := [1]\<rparr>)"
    by (auto simp: asked_session_def suspended_on_def waits_on_def waiter_def thread_new_def
        object_at_def thread_at_def less_Suc_eq split: if_splits)
  have serves: "session_serves 0 1 [2] asked_session"
    by (simp add: session_serves_def asked_session_def object_at_def)
  show ?thesis
    using session_request_joins_queue [OF serves susp, of "\<lambda>_. True"]
    by (auto simp: asked_session_def object_at_def thread_at_def waiter_def thread_new_def object_resume_def)
qed

text \<open>Thread 3 of process 0 has sent a request through the client end 1; thread 4 of process 1 answers
  it with command 5, the result 0 and the word 7.  Other threads may wait for the client end too.\<close>

definition answer_message :: "u8 list" where
  "answer_message = words_bytes (command_words 5 [0] [7] []) @ replicate 244 0"

definition client_thread :: "tid \<Rightarrow> common_thread" where
  "client_thread i = (thread_new 0 i 0)\<lparr>ct_state := Waiting, ct_wait_objects := [1], ct_wait_type := Some WaitSync1\<rparr>"

definition answer_kernel :: "waker list \<Rightarrow> (unit, unit) kernel" where
  "answer_kernel ws = (kernel_new 20)
     \<lparr>sc_objects :=
        [ServerSession \<lparr>ss_queue = [], ss_requests = [3], ss_client = Some 1\<rparr>,
         ClientSession \<lparr>cs_queue = ws, cs_server = 0\<rparr>],
      k_processes := sample_processes, k_next_tid := 6,
      sc_threads := [client_thread 3, (thread_new 1 4 1)\<lparr>ct_ipc_data := answer_message\<rparr>, client_thread 5]\<rparr>"

lemma answer_kernel_ok: "set ws \<subseteq> {\<lparr>wk_thread = 3, wk_key = 0\<rparr>, \<lparr>wk_thread = 5, wk_key = 0\<rparr>} \<Longrightarrow> kernel_ok (answer_kernel ws)"
  by (auto simp: answer_kernel_def kernel_ok_def thread_indices_def sched_ok_def queues_live_def kernel_new_def
      thread_new_def client_thread_def waits_on_def less_Suc_eq)

lemma answer_kernel_at:
  "object_at (answer_kernel ws) 0 = Some (ServerSession \<lparr>ss_queue = [], ss_requests = [3], ss_client = Some 1\<rparr>)"
  "object_at (answer_kernel ws) 1 = Some (ClientSession \<lparr>cs_queue = ws, cs_server = 0\<rparr>)"
  "thread_at (answer_kernel ws) 3 = Some (client_thread 3)"
  "thread_at (answer_kernel ws) 4 = Some ((thread_new 1 4 1)\<lparr>ct_ipc_data := answer_message\<rparr>)"
  by (simp_all add: answer_kernel_def object_at_def thread_at_def kernel_new_def thread_new_def client_thread_def)

lemma answer_translated:
  assumes "set ws \<subseteq> {\<lparr>wk_thread = 3, wk_key = 0\<rparr>, \<lparr>wk_thread = 5, wk_key = 0\<rparr>}"
  shows "\<exists>data. translate_ipc (\<lambda>_. 9) 4 3 True (answer_kernel ws) =
      Ret ((answer_kernel ws)\<lparr>k_processes := sample_processes,
        sc_threads := put_thread 3 ((client_thread 3)\<lparr>ct_ipc_data := data\<rparr>) (sc_threads (answer_kernel ws))\<rparr>)"
proof -
  have layout: "write_command True 5 0 [7] [] (replicate 256 0) = Ret answer_message"
    using write_command_layout [of "[7]" "[]" "replicate 256 0" True 5 0]
    by (simp add: answer_message_def front_words_def command_words_def)
  have tables: "tables_ok (k_processes (answer_kernel ws))" and list:
      "translate_list (\<lambda>_. 9) 1 0 [] (k_processes (answer_kernel ws)) = Ret ([], sample_processes)"
    using sample_processes_ok by (simp_all add: answer_kernel_def)
  have procs: "process_at (k_processes (answer_kernel ws)) 0 \<noteq> None" "process_at (k_processes (answer_kernel ws)) 1 \<noteq> None"
    by (simp_all add: answer_kernel_def process_at_def sample_processes_def)
  from translate_ipc_delivers_lemma [OF kernel_ok_sched [OF answer_kernel_ok [OF assms]] tables answer_kernel_at(4,3),
      where ns = "[7]" and ps = "[]" and d = "replicate 256 0" and reply = True and command = 5 and result = 0
        and draws = "\<lambda>_. 9" and ps' = "[]" and procs' = sample_processes]
  show ?thesis using layout list procs by (auto simp: thread_new_def client_thread_def)
qed

lemma answered_threads:
  assumes "k1 = (answer_kernel ws)\<lparr>k_processes := sample_processes,
      sc_threads := put_thread 3 ((client_thread 3)\<lparr>ct_ipc_data := data\<rparr>) (sc_threads (answer_kernel ws))\<rparr>"
  shows "thread_at k1 3 = Some ((client_thread 3)\<lparr>ct_ipc_data := data\<rparr>)" "thread_at k1 5 = Some (client_thread 5)"
  using assms by (simp_all add: answer_kernel_def thread_at_def kernel_new_def thread_new_def client_thread_def put_thread_def)

theorem session_reply_answers_first_witness:
  "\<exists>k' t. session_reply (\<lambda>_. True) (\<lambda>_. 9) 0 4 (answer_kernel [\<lparr>wk_thread = 3, wk_key = 0\<rparr>]) = Ret k' \<and>
     session_serves 0 1 [] k' \<and> thread_at k' 3 = Some t \<and> ct_state t = Ready"
proof -
  let ?ws = "[\<lparr>wk_thread = 3, wk_key = 0\<rparr>]"
  obtain k1 data where k1: "translate_ipc (\<lambda>_. 9) 4 3 True (answer_kernel ?ws) = Ret k1"
      "thread_at k1 3 = Some ((client_thread 3)\<lparr>ct_ipc_data := data\<rparr>)"
    using answer_translated [of ?ws] answered_threads(1) by fastforce
  have "session_serves 0 1 [3] (answer_kernel ?ws)" using answer_kernel_at(1,2) by (simp add: session_serves_def)
  from session_reply_answers_first [OF answer_kernel_ok this _ k1(1), of "\<lambda>_. True"] k1(2)
  show ?thesis by (auto simp: awake_def)
qed

theorem reply_wakes_bystander_witness:
  "\<exists>k' t u x. session_reply (\<lambda>_. True) (\<lambda>_. 9) 0 4
       (answer_kernel [\<lparr>wk_thread = 5, wk_key = 0\<rparr>, \<lparr>wk_thread = 3, wk_key = 0\<rparr>]) = Ret k' \<and>
     thread_at k' 5 = Some t \<and> ct_state t = Ready \<and> thread_at k' 3 = Some u \<and> ct_state u = Waiting \<and>
     object_at k' 0 = Some (ServerSession x) \<and> ss_requests x = []"
proof -
  let ?ws = "[\<lparr>wk_thread = 5, wk_key = 0\<rparr>, \<lparr>wk_thread = 3, wk_key = 0\<rparr>]"
  obtain k1 data where k1: "translate_ipc (\<lambda>_. 9) 4 3 True (answer_kernel ?ws) = Ret k1"
      "thread_at k1 3 = Some ((client_thread 3)\<lparr>ct_ipc_data := data\<rparr>)" "thread_at k1 5 = Some (client_thread 5)"
    using answer_translated [of ?ws] answered_threads by fastforce
  have ok: "kernel_ok (answer_kernel ?ws)" by (rule answer_kernel_ok) simp
  from reply_wakes_bystander [OF ok answer_kernel_at(1) _ _ _ answer_kernel_at(2) _ _ k1(1), of "\<lambda>_. True"] k1(2,3)
  show ?thesis by (auto simp: awake_def client_thread_def)
qed

end
