(* ===== verification/Turns.thy ===== *)
theory Turns
  imports Reachable
begin

text \<open>
  A turn of the main loop never gets stuck by itself: in every reachable state each thread has its
  box and its process, so \<open>run_next\<close> panics or runs on for ever only if the body of the thread does.
\<close>

section \<open>Who lives in the kernel\<close>

text \<open>What calls leave as it is: the current thread, the threads and their boxes but for new ones,
  which have a process and their box; and processes never go.\<close>

definition grown :: "('t, 'p) kernel \<Rightarrow> ('t, 'p) kernel \<Rightarrow> bool" where
  "grown k k' \<longleftrightarrow>
     k_current k' = k_current k \<and> set (process_ids k) \<subseteq> set (process_ids k') \<and>
     (\<exists>new. thread_ids k' = thread_ids k @ map fst new \<and>
        k_thread_boxes k' = k_thread_boxes k @ map (\<lambda>(t, box). (fst t, Some box)) new \<and>
        snd ` fst ` set new \<subseteq> set (process_ids k'))"

lemma grown_same:
  "\<lbrakk>k_current k' = k_current k; process_ids k' = process_ids k; thread_ids k' = thread_ids k;
    k_thread_boxes k' = k_thread_boxes k\<rbrakk> \<Longrightarrow> grown k k'"
  unfolding grown_def by (intro conjI exI [of _ "[]"]) simp_all

lemma grown_refl [simp]: "grown k k"
  by (simp add: grown_same)

lemma grown_trans [trans]:
  assumes "grown k k1" "grown k1 k2"
  shows "grown k k2"
proof -
  obtain new1 where n1: "thread_ids k1 = thread_ids k @ map fst new1"
      "k_thread_boxes k1 = k_thread_boxes k @ map (\<lambda>(t, box). (fst t, Some box)) new1"
      "snd ` fst ` set new1 \<subseteq> set (process_ids k1)"
    using assms(1) unfolding grown_def by (elim conjE exE)
  obtain new2 where n2: "thread_ids k2 = thread_ids k1 @ map fst new2"
      "k_thread_boxes k2 = k_thread_boxes k1 @ map (\<lambda>(t, box). (fst t, Some box)) new2"
      "snd ` fst ` set new2 \<subseteq> set (process_ids k2)"
    using assms(2) unfolding grown_def by (elim conjE exE)
  have more: "k_current k2 = k_current k" "set (process_ids k1) \<subseteq> set (process_ids k2)"
      "set (process_ids k) \<subseteq> set (process_ids k2)"
    using assms unfolding grown_def by auto
  then have "snd ` fst ` set (new1 @ new2) \<subseteq> set (process_ids k2)" using n1(3) n2(3) by (simp add: image_Un)
  then show ?thesis unfolding grown_def using n1 n2 more by (intro conjI exI [of _ "new1 @ new2"]) simp_all
qed

lemma grown_house:
  assumes "house k' = house k"
  shows "grown k k'"
proof -
  have "sched.more k' = sched.more k" "thread_ids k' = thread_ids k" using assms by (simp_all add: house_def)
  with kernel_fields [OF this(1)] show ?thesis by (intro grown_same) (simp_all add: process_ids_def)
qed

lemma new_process_grown: "new_process name p k = Ret (pid, k') \<Longrightarrow> grown k k'"
  by (auto simp: new_process_def grown_def process_ids_def thread_ids_def Let_def)

lemma new_thread_grown:
  assumes "pid \<in> set (process_ids k)" "new_thread pid thread k = Ret (x, k')"
  shows "grown k k'"
  using assms unfolding grown_def
  by (intro conjI exI [of _ "[((unat (k_next_tid k), pid), thread)]"])
    (auto simp: new_thread_def new_object_def thread_new_def process_ids_def thread_ids_def Let_def)

lemma grown_put_process: "cp_pid p = pid \<Longrightarrow> grown k (k\<lparr>k_processes := put_process pid p (k_processes k)\<rparr>)"
  by (rule grown_same) (simp_all add: process_ids_def thread_ids_def put_process_ids)

lemma close_handle_grown: "close_handle handle k = Ret (x, k') \<Longrightarrow> grown k k'"
  by (clarsimp simp: close_handle_def split: option.split_asm)
    (auto split: prod.split_asm dest!: process_same_pid(2) intro: grown_put_process)

interpretation grown: call_relation grown
proof
  show "grown k k'" if "kernel_new_handle draws obj k = Ret (h, k')" for draws obj h and k k' :: "('t, 'p) kernel"
    using that by (auto simp: kernel_new_handle_def dest!: process_same_pid(1) intro: grown_put_process)
  show "grown k (k\<lparr>k_processes := ps\<rparr>)" if "translate_params draws src dest r w (k_processes k) = Ret (w', ps)"
    for draws src dest r w w' ps and k :: "('t, 'p) kernel"
    using translate_params_ids [OF that] by (intro grown_same) (simp_all add: process_ids_def thread_ids_def)
  show "grown k k'" if "waker_wake w i k = Ret (b, k')" for w i b and k k' :: "('t, 'p) kernel"
    using house.waker_wake_part [OF that] by (rule grown_house)
  show "grown k (k\<lparr>sc_threads := put_thread i t' (sc_threads k)\<rparr>)"
    if "find_thread i (sc_threads k) = Ret t" "ct_index t' = ct_index t" "ct_pid t' = ct_pid t"
    for i t t' and k :: "('t, 'p) kernel"
    using put_thread_ids [OF that] by (intro grown_same) (simp_all add: process_ids_def thread_ids_def)
  show "grown k (k\<lparr>k_processes := update_first (\<lambda>(p, _). cp_pid p = pid) (\<lambda>(p, _). (p, own)) (k_processes k)\<rparr>)"
    for pid own and k :: "('t, 'p) kernel"
    by (intro grown_same) (simp_all add: process_ids_def thread_ids_def update_process_ids)
  show "grown k k2" if "grown k k1" "grown k1 k2" for k k1 k2 :: "('t, 'p) kernel" using that by (rule grown_trans)
  show "grown k k'" if "pid \<in> set (process_ids k)" "new_thread pid box k = Ret (x, k')"
    for pid box x and k k' :: "('t, 'p) kernel" using that by (rule new_thread_grown)
qed (auto simp: process_ids_def thread_ids_def map_object_def schedule_next_def
    intro: grown_same close_handle_grown new_process_grown)

section \<open>A turn\<close>

text \<open>Between two turns no thread is current, each has its box and a process.\<close>

definition settled :: "('t, 'p) kernel \<Rightarrow> bool" where
  "settled k \<longleftrightarrow>
     k_current k = None \<and> map fst (k_thread_boxes k) = map fst (thread_ids k) \<and>
     list_all (\<lambda>b. snd b \<noteq> None) (k_thread_boxes k) \<and> snd ` set (thread_ids k) \<subseteq> set (process_ids k)"

lemma update_first_twice:
  "(\<And>x. P x \<Longrightarrow> P (g x)) \<Longrightarrow> update_first P f (update_first P g xs) = update_first P (\<lambda>x. f (g x)) xs"
  by (induction xs) simp_all

lemma update_first_append:
  "find P xs = Some x \<Longrightarrow> update_first P f (xs @ ys) = update_first P f xs @ ys"
  by (induction xs) (auto split: if_splits)

lemma find_thread_ids:
  assumes "i \<in> fst ` set (thread_ids k)"
  shows "\<exists>t. find_thread i (sc_threads k) = Ret t \<and> (i, ct_pid t) \<in> set (thread_ids k)"
proof -
  obtain t where t: "find (\<lambda>t. ct_index t = i) (sc_threads k) = Some t"
    using assms by (cases "find (\<lambda>t. ct_index t = i) (sc_threads k)") (auto simp: thread_ids_def find_None_iff)
  then have "t \<in> set (sc_threads k)" "ct_index t = i" by (auto simp: find_Some_iff)
  then show ?thesis using t by (auto simp: find_thread_def thread_ids_def)
qed

lemma find_process_ids: "pid \<in> set (process_ids k) \<Longrightarrow> \<exists>p. find_common_process pid (k_processes k) = Ret p"
  by (cases "process_at (k_processes k) pid") (auto simp: process_ids_def process_at_def find_None_iff)

lemma find_box:
  assumes "list_all (\<lambda>b. snd b \<noteq> None) bs" "i \<in> fst ` set bs"
  shows "\<exists>thread. find (\<lambda>b. fst b = i) bs = Some (i, Some thread)"
  using assms by (induction bs) auto

lemma returned_boxes:
  "list_all (\<lambda>b. snd b \<noteq> None) bs \<Longrightarrow>
     list_all (\<lambda>b. snd b \<noteq> None) (update_first P (\<lambda>b. (fst b, Some thread)) bs)"
  by (induction bs) auto

text \<open>A box taken out can be put back, whatever new threads have come.\<close>

definition taken :: "tid \<Rightarrow> (tid \<times> 't option) list \<Rightarrow> (tid \<times> 't option) list" where
  "taken i bs = update_first (\<lambda>b. fst b = i) (\<lambda>(j, _). (j, None)) bs"

lemma box_taken:
  assumes "list_all (\<lambda>b. snd b \<noteq> None) (k_thread_boxes k)" "i \<in> fst ` set (k_thread_boxes k)"
  shows "\<exists>thread. take_thread_box i k = Ret (thread, k\<lparr>k_thread_boxes := taken i (k_thread_boxes k)\<rparr>)"
  using find_box [OF assms] by (auto simp: take_thread_box_def taken_def)

lemma box_put_back:
  assumes full: "list_all (\<lambda>b. snd b \<noteq> None) bs" and i: "i \<in> fst ` set bs"
    and k: "k_thread_boxes k = taken i bs @ map (\<lambda>(t, box). (fst t, Some box)) new"
  shows "\<exists>bs'. replace_thread_box i thread' k = Ret (k\<lparr>k_thread_boxes := bs'\<rparr>) \<and>
    list_all (\<lambda>b. snd b \<noteq> None) bs' \<and> map fst bs' = map fst (k_thread_boxes k)"
proof -
  let ?P = "\<lambda>b. fst b = i"
  let ?returned = "update_first ?P (\<lambda>(j, _). (j, Some thread')) (k_thread_boxes k)"
  obtain thread where f: "find ?P bs = Some (i, Some thread)" using find_box [OF full i] ..
  have out: "find ?P (taken i bs) = Some (i, None)"
    using find_update_first [OF f, of "\<lambda>(j, _). (j, None)"] by (simp add: taken_def)
  have "?returned = update_first ?P (\<lambda>b. (fst b, Some thread')) bs @ map (\<lambda>(t, box). (fst t, Some box)) new"
    unfolding k update_first_append [OF out] by (simp add: taken_def update_first_twice split_def)
  then have "list_all (\<lambda>b. snd b \<noteq> None) ?returned"
    using returned_boxes [OF full, of ?P thread'] by (auto simp: list_all_iff)
  moreover have "map fst ?returned = map fst (k_thread_boxes k)" by (rule map_update_first) auto
  ultimately show ?thesis
    using out k by (intro exI [of _ ?returned]) (simp add: replace_thread_box_def find_append)
qed

text \<open>The computation failed the same way.\<close>

fun same_failure :: "'a res \<Rightarrow> 'b res \<Rightarrow> bool" where
  "same_failure (Panic p) (Panic q) = (p = q)"
| "same_failure Diverge Diverge = True"
| "same_failure _ _ = False"

definition resumed :: "common_thread \<Rightarrow> common_thread" where
  "resumed t = t\<lparr>ct_state := Running, ct_resume := ResumeNormal\<rparr>"

lemma resumed_ids:
  assumes t: "find_thread i (sc_threads k) = Ret t"
  shows "thread_at (k\<lparr>sc_threads := put_thread i (resumed t) (sc_threads k)\<rparr>) i = Some (resumed t)"
    "thread_ids (k\<lparr>sc_threads := put_thread i (resumed t) (sc_threads k)\<rparr>) = thread_ids k"
  using thread_at_put [of k i t "resumed t" i] t find_thread_index [OF t] put_thread_ids [OF t, of "resumed t"]
  by (simp_all add: find_thread_at resumed_def thread_ids_def)

text \<open>What is asked of the indices can be read off who the threads are.\<close>

lemma ids_ok_same:
  assumes "thread_ids k' = thread_ids k" "k_next_tid k' = k_next_tid k" "ids_ok k"
  shows "ids_ok k'"
proof -
  have "thread_indices k' = thread_indices k"
    using arg_cong [OF assms(1), of "map fst"] by (simp add: thread_indices_def thread_ids_def comp_def)
  then show ?thesis using assms(2,3) by (simp add: ids_ok_def)
qed

lemma taken_ids: "map fst (taken i bs) = map fst bs"
  unfolding taken_def by (rule map_update_first) auto

text \<open>What is left of a turn when the body has returned.\<close>

definition finish_turn :: "tid \<Rightarrow> 't \<Rightarrow> ('t, 'p) kernel \<Rightarrow> ('t, 'p) kernel res" where
  "finish_turn i thread k =
     and_then (replace_thread_box i thread k) (\<lambda>k5.
     and_then (expect ''Current execution thread is gone'' (k_current k5)) (\<lambda>(_, index').
     let k6 = k5\<lparr>k_current := None\<rparr> in
     and_then (find_thread index' (sc_threads k6)) (\<lambda>t'.
     let t'' = (if ct_state t' = Running then t'\<lparr>ct_state := Ready\<rparr> else t');
         k7 = k6\<lparr>sc_threads := put_thread index' t'' (sc_threads k6)\<rparr> in
     and_then (find_common_process (ct_pid t'') (k_processes k7)) (\<lambda>_. Ret k7))))"

lemma finish_turn_settles:
  assumes full: "list_all (\<lambda>b. snd b \<noteq> None) bs" and i: "i \<in> fst ` set bs"
    and boxes: "k_thread_boxes k = taken i bs @ map (\<lambda>(t, box). (fst t, Some box)) new"
    and current: "k_current k = Some (pid, i)"
    and homes: "map fst (k_thread_boxes k) = map fst (thread_ids k)"
    and processes: "snd ` set (thread_ids k) \<subseteq> set (process_ids k)"
  shows "\<exists>k'. finish_turn i thread k = Ret k' \<and> settled k'"
proof -
  obtain bs' where r: "replace_thread_box i thread k = Ret (k\<lparr>k_thread_boxes := bs'\<rparr>)"
      "list_all (\<lambda>b. snd b \<noteq> None) bs'" "map fst bs' = map fst (k_thread_boxes k)"
    using box_put_back [OF full i boxes] by blast
  have "fst ` set (taken i bs) = fst ` set bs" using taken_ids [of i bs] by (metis list.set_map)
  then have "i \<in> fst ` set (k_thread_boxes k)" using i boxes by (simp add: image_Un)
  then have "i \<in> fst ` set (thread_ids k)" using homes by (metis list.set_map)
  then obtain t where t: "find_thread i (sc_threads k) = Ret t" "(i, ct_pid t) \<in> set (thread_ids k)"
    using find_thread_ids by blast
  obtain p where p: "find_common_process (ct_pid t) (k_processes k) = Ret p"
    using find_process_ids [of "ct_pid t" k] t(2) processes by force
  let ?t = "if ct_state t = Running then t\<lparr>ct_state := Ready\<rparr> else t"
  let ?k = "k\<lparr>k_thread_boxes := bs', k_current := None, sc_threads := put_thread i ?t (sc_threads k)\<rparr>"
  have "finish_turn i thread k = Ret ?k"
    using r(1) current t(1) p by (simp add: finish_turn_def Let_def)
  moreover have "thread_ids ?k = thread_ids k"
    using put_thread_ids [OF t(1), of ?t] by (simp add: thread_ids_def)
  then have "settled ?k" using r(2,3) homes processes by (simp add: settled_def process_ids_def)
  ultimately show ?thesis by blast
qed

lemma run_thread_turn:
  assumes run: "calls_only run" and ok: "ids_ok k" and s: "settled k"
    and t: "find_thread i (sc_threads k) = Ret t" "ct_state t = Ready"
  shows "(\<exists>k'. run_thread run i k = Ret k' \<and> settled k') \<or>
    (\<exists>thread resume k1 u. running k1 i u \<and> same_failure (run thread resume k1) (run_thread run i k))"
proof -
  let ?k1 = "k\<lparr>sc_threads := put_thread i (resumed t) (sc_threads k)\<rparr>"
  note r = resumed_ids [OF t(1)]
  have mem: "(i, ct_pid t) \<in> set (thread_ids k)"
    using t(1) by (auto simp: find_thread_def thread_ids_def find_Some_iff image_iff)
  have "snd (i, ct_pid t) \<in> snd ` set (thread_ids k)" using mem by (rule imageI)
  then have "ct_pid t \<in> set (process_ids k)" using s by (auto simp: settled_def)
  then obtain p where p: "find_common_process (ct_pid t) (k_processes k) = Ret p" using find_process_ids by blast
  have full: "list_all (\<lambda>b. snd b \<noteq> None) (k_thread_boxes k)" using s by (simp add: settled_def)
  have "set (map fst (k_thread_boxes k)) = set (map fst (thread_ids k))" using s by (simp only: settled_def)
  then have i: "i \<in> fst ` set (k_thread_boxes k)" using imageI [OF mem, of fst] by simp
  let ?k3 = "?k1\<lparr>k_current := Some (ct_pid t, i), k_thread_boxes := taken i (k_thread_boxes k)\<rparr>"
  obtain thread where box: "take_thread_box i (?k1\<lparr>k_current := Some (ct_pid t, i)\<rparr>) = Ret (thread, ?k3)"
    using box_taken [of "?k1\<lparr>k_current := Some (ct_pid t, i)\<rparr>" i] full i by auto
  have unfold: "run_thread run i k =
      and_then (run thread (ct_resume t) ?k3) (\<lambda>(thread', k4). finish_turn i thread' k4)"
    using t p box by (simp add: run_thread_def resumed_def finish_turn_def Let_def del: find_common_process_iff)
  have run3: "running ?k3 i (resumed t)" using r(1) by (simp add: running_def thread_at_def resumed_def)
  have same: "thread_ids ?k3 = thread_ids k" using r(2) by (simp add: thread_ids_def)
  then have ok3: "ids_ok ?k3" by (rule ids_ok_same [OF _ _ ok]) simp
  show ?thesis
  proof (cases "run thread (ct_resume t) ?k3")
    case (Ret y)
    obtain thread' k4 where y: "y = (thread', k4)" by (cases y)
    have "grown ?k3 k4"
      using run Ret run3 ok3 grown.any_calls_related [OF _ ok3] unfolding y calls_only_def by blast
    then obtain new where new: "thread_ids k4 = thread_ids ?k3 @ map fst new"
        "k_thread_boxes k4 = taken i (k_thread_boxes k) @ map (\<lambda>(t, box). (fst t, Some box)) new"
        "snd ` fst ` set new \<subseteq> set (process_ids k4)" "k_current k4 = Some (ct_pid t, i)"
        "set (process_ids k) \<subseteq> set (process_ids k4)"
      by (auto simp: grown_def process_ids_def)
    have "map fst (k_thread_boxes k4) = map fst (thread_ids k4)"
      using new(1,2) s same by (simp add: settled_def split_def taken_ids)
    moreover have "snd ` set (thread_ids k4) \<subseteq> set (process_ids k4)"
      using new(1,3,5) s same by (simp add: settled_def image_Un) blast
    ultimately obtain k' where "finish_turn i thread' k4 = Ret k'" "settled k'"
      using finish_turn_settles [OF full i new(2,4)] by blast
    then show ?thesis using unfold Ret y by simp
  next
    case (Panic q)
    then show ?thesis using unfold run3 by (metis and_then.simps(2) same_failure.simps(1))
  next
    case Diverge
    then show ?thesis using unfold run3 by (metis and_then.simps(3) same_failure.simps(2))
  qed
qed

section \<open>Reachable states\<close>

lemma settled_grown:
  assumes s: "settled k" and g: "grown k k'"
  shows "settled k'"
proof -
  obtain new where new: "thread_ids k' = thread_ids k @ map fst new"
      "k_thread_boxes k' = k_thread_boxes k @ map (\<lambda>(t, box). (fst t, Some box)) new"
      "snd ` fst ` set new \<subseteq> set (process_ids k')"
    using g unfolding grown_def by (elim conjE exE)
  have "k_current k' = None" "set (process_ids k) \<subseteq> set (process_ids k')"
    using s g by (simp_all add: grown_def settled_def)
  moreover have "list_all (\<lambda>b. snd b \<noteq> None) (k_thread_boxes k')"
    using s new(2) by (auto simp: settled_def list_all_iff)
  ultimately show ?thesis using s new by (auto simp: settled_def split_def image_Un)
qed

lemma settled_new: "settled (kernel_new now)"
  by (simp add: settled_def kernel_new_def thread_ids_def)

lemma settled_house: "house k' = house k \<Longrightarrow> settled k \<Longrightarrow> settled k'"
  using settled_grown grown_house by blast

lemma tick_house:
  assumes "tick_at alive time k = Ret k'"
  shows "house k' = house k"
proof -
  obtain ts objs where t: "tick_threads time (sc_threads k) (sc_objects k) = Ret (ts, objs)"
      "fold_res (tick_object alive time) [0..<length objs] (k\<lparr>sc_threads := ts, sc_objects := objs\<rparr>) = Ret k'"
    using assms by (auto simp: tick_at_def)
  then show ?thesis
    using house.tick_objects_part [OF t(2)] ticked_threads(1) [OF tick_threads_each [OF t(1)]] by (simp add: house_def thread_ids_def)
qed

lemma tick_settled:
  assumes "tick alive now k = Ret k'" "settled k"
  shows "settled k'"
proof -
  obtain time k1 where k1: "tick_at alive time k = Ret k1"
      and k': "fold_res deliver_interrupt (k_active_interrupts k1) (k1\<lparr>k_active_interrupts := []\<rparr>) = Ret k'"
    using assms(1) by (auto simp: tick_def)
  have "settled (k1\<lparr>k_active_interrupts := []\<rparr>)"
    using settled_house [OF tick_house [OF k1] assms(2)] by (simp add: settled_def process_ids_def thread_ids_def)
  moreover have "settled s'" if "deliver_interrupt n s = Ret s'" "settled s" for n s s'
    using that settled_house [OF house.event_signal_part] by (auto simp: deliver_interrupt_def split: option.splits)
  ultimately show ?thesis using fold_res_keeps [where P = settled, OF _ k'] by blast
qed

lemma boot_settled: "boot now = Ret k \<Longrightarrow> settled k"
  using settled_grown [OF settled_new boot_related [OF grown.call_relation_axioms]] .

text \<open>The thread a turn resumes: the one asked for, else the first that is ready.\<close>

definition chosen :: "('t, 'p) kernel \<Rightarrow> tid option" where
  "chosen k = (case k_next k of Some i \<Rightarrow> Some i | None \<Rightarrow> next_thread (sc_threads k))"

lemma run_next_turn:
  assumes run: "calls_only run" and ok: "steady k" and s: "settled k"
  shows "(\<exists>k'. run_next run k = Ret k' \<and> settled k') \<or>
    (\<exists>thread resume k1 i t. chosen k = Some i \<and> running k1 i t \<and>
       same_failure (run thread resume k1) (run_next run k))"
proof (cases "chosen k")
  case None
  then have "run_next run k = Ret (k\<lparr>k_next := None\<rparr>)" by (simp add: run_next_def chosen_def Let_def)
  then show ?thesis using s by (simp add: settled_def process_ids_def thread_ids_def)
next
  case (Some i)
  obtain t where t: "find_thread i (sc_threads k) = Ret t" "ct_state t = Ready"
  proof (cases "k_next k")
    case None
    then obtain u where "find (\<lambda>t. ct_state t = Ready) (sc_threads k) = Some u" "ct_index u = i"
      using Some by (auto simp: chosen_def next_thread_def)
    then have "u \<in> set (sc_threads k)" "ct_index u = i" "ct_state u = Ready" by (auto simp: find_Some_iff)
    then have "find_thread i (sc_threads k) = Ret u"
      using find_thread_iff [of "sc_threads k" i u] ok by (simp add: steady_def ids_ok_def thread_indices_def)
    then show ?thesis using that \<open>ct_state u = Ready\<close> by blast
  next
    case (Some j)
    then show ?thesis using that ok \<open>chosen k = Some i\<close>
      by (auto simp: chosen_def find_thread_at steady_def next_ready_def ready_at_def)
  qed
  have turn: "run_next run k = run_thread run i (k\<lparr>k_next := None\<rparr>)"
    using Some by (simp add: run_next_def chosen_def Let_def)
  have rest: "ids_ok (k\<lparr>k_next := None\<rparr>)" "settled (k\<lparr>k_next := None\<rparr>)"
    using s ok by (simp_all add: settled_def process_ids_def thread_ids_def steady_def ids_ok_def thread_indices_def)
  show ?thesis unfolding turn using run_thread_turn [OF run rest, of i t] t Some by simp
qed

lemma reachable_settled:
  assumes "reachable run start k" "calls_only run" "steady start" "settled start"
  shows "settled k"
  using assms(1)
proof (induction rule: reachable.induct)
  case start
  show ?case by (rule assms(4))
next
  case (interrupt k n)
  then show ?case by (simp add: activate_interrupt_def settled_def process_ids_def thread_ids_def)
next
  case (turn k alive now k')
  obtain k1 where k1: "run_next run k = Ret k1" "tick alive now k1 = Ret k'"
    using turn(2) by (auto simp: main_turn_def)
  have "settled k1"
    using run_next_turn [OF assms(2) reachable_steady [OF turn(1) assms(2,3)] turn(3)] k1(1) by auto
  then show ?case by (rule tick_settled [OF k1(2)])
qed

section \<open>The property\<close>

text \<open>C2: in every state the main loop reaches from the start of the system with threads that act by
  calls only, as in C1, the next turn resumes a thread or has none to resume: the checks of the scheduler -
  the thread is known and ready, it has a process, its box is there before and gone after, it is
  still current - never fail, so that \<open>run_next\<close> panics or runs on for ever only if the body of a
  thread it resumed does, whatever the threads wait for.\<close>

theorem turn_fails_only_in_threads:
  assumes "boot now = Ret start" "calls_only run" "reachable run start k"
  shows "(\<exists>k'. run_next run k = Ret k' \<and> k_current k' = None) \<or>
    (\<exists>thread resume k1 i t. chosen k = Some i \<and> running k1 i t \<and>
       same_failure (run thread resume k1) (run_next run k))"
proof -
  have ok: "steady k" by (rule reachable_steady [OF assms(3,2) boot_steady [OF assms(1)]])
  have "settled k" by (rule reachable_settled [OF assms(3,2) boot_steady [OF assms(1)] boot_settled [OF assms(1)]])
  then show ?thesis
    using run_next_turn [OF assms(2) ok] unfolding settled_def by blast
qed

text \<open>A body that does nothing, run by the first thread of the started system.\<close>

definition idle_body :: "('t, 'p) thread_body" where
  "idle_body thread resume k = Ret (thread, k)"

lemma booted_threads:
  "case boot 0 :: ((closure, nat) thread_hle, process) kernel res of
     Ret k \<Rightarrow> k_next k = None \<and> next_thread (sc_threads k) = Some 0
   | _ \<Rightarrow> False"
  by (simp add: boot_evaluation next_thread_def)

theorem turn_fails_only_in_threads_witness:
  "\<exists>k k'. boot 0 = Ret (k :: ((closure, nat) thread_hle, process) kernel) \<and>
     next_thread (sc_threads k) = Some 0 \<and> run_next idle_body k = Ret k' \<and> k_current k' = None"
proof -
  obtain k :: "((closure, nat) thread_hle, process) kernel" where
      k: "boot 0 = Ret k" "k_next k = None" "next_thread (sc_threads k) = Some 0"
    using booted_threads by (auto split: res.split_asm)
  have "calls_only (idle_body :: ((closure, nat) thread_hle, process) thread_body)"
    by (simp add: calls_only_def idle_body_def)
  moreover have "\<not> same_failure (idle_body thread resume k1) r"
    for thread resume and k1 :: "((closure, nat) thread_hle, process) kernel" and r :: "((closure, nat) thread_hle, process) kernel res"
    by (simp add: idle_body_def)
  ultimately show ?thesis
    using turn_fails_only_in_threads [OF k(1) _ reachable.start, of idle_body] k by auto
qed

end
