(* ===== verification/ObjectCasts.thy ===== *)
theory ObjectCasts
  imports Svc
begin

text \<open>
  \<open>kernel/src/object/mod.rs\<close> and the typed references of \<open>kernel/src/lib.rs\<close>: a kernel object is a
  pointer to its data with a table of the trait implementations of its type, and a cast to a trait
  takes the entry of that trait.  The rest of the development asks for the kind of an object
  instead; the casts are shown to give the same.
\<close>

section \<open>Types, traits and tables\<close>

text \<open>The types that are kernel objects, and the traits a cast can ask for.\<close>

datatype object_type =
    EventImpl | TimerImpl | MutexImpl | ThreadImpl | ArbiterImpl | ServerPortHLE | ClientPortHLE
  | ServerSessionHLE | ClientSessionHLE | HLECodeSetImpl | LLECodeSetImpl

datatype object_trait =
    KSynchronizationObject | KClientSession | KServerSession | KClientPort | KServerPort | KTimer
  | KAddressArbiter | KEvent | KThread | KCodeSet | KMutex | KObjectDebug

text \<open>The implementations, as the types declare them.\<close>

primrec implementations :: "object_type \<Rightarrow> object_trait list" where
  "implementations EventImpl = [KSynchronizationObject, KEvent, KObjectDebug]"
| "implementations TimerImpl = [KSynchronizationObject, KTimer, KObjectDebug]"
| "implementations MutexImpl = [KSynchronizationObject, KMutex, KObjectDebug]"
| "implementations ThreadImpl = [KSynchronizationObject, KThread, KObjectDebug]"
| "implementations ArbiterImpl = [KAddressArbiter, KObjectDebug]"
| "implementations ServerPortHLE = [KSynchronizationObject, KServerPort, KObjectDebug]"
| "implementations ClientPortHLE = [KSynchronizationObject, KClientPort, KObjectDebug]"
| "implementations ServerSessionHLE = [KSynchronizationObject, KServerSession, KObjectDebug]"
| "implementations ClientSessionHLE = [KSynchronizationObject, KClientSession, KObjectDebug]"
| "implementations HLECodeSetImpl = [KCodeSet, KObjectDebug]"
| "implementations LLECodeSetImpl = [KObjectDebug]"

text \<open>A method table is named by the trait and the type whose methods it holds; \<open>auto_vtable\<close> is
  \<open>AutoVTableUniversal\<close>: its default is no table, specialized where the type implements the trait.\<close>

type_synonym methods = "object_trait \<times> object_type"

definition auto_vtable :: "object_trait \<Rightarrow> object_type \<Rightarrow> methods option" where
  "auto_vtable tr t = (if tr \<in> set (implementations t) then Some (tr, t) else None)"

record object_vtable =
  drop_the_ball_fn :: object_type
  sync_vtable :: "methods option"
  client_session_vtable :: "methods option"
  server_session_vtable :: "methods option"
  client_port_vtable :: "methods option"
  server_port_vtable :: "methods option"
  timer_vtable :: "methods option"
  addr_arb_vtable :: "methods option"
  event_vtable :: "methods option"
  thread_vtable :: "methods option"
  codeset_vtable :: "methods option"
  mutex_vtable :: "methods option"
  debug_vtable :: "methods option"

definition VTABLE :: "object_type \<Rightarrow> object_vtable" where
  "VTABLE t =
     \<lparr>drop_the_ball_fn = t,
      sync_vtable = auto_vtable KSynchronizationObject t,
      client_session_vtable = auto_vtable KClientSession t,
      server_session_vtable = auto_vtable KServerSession t,
      client_port_vtable = auto_vtable KClientPort t,
      server_port_vtable = auto_vtable KServerPort t,
      timer_vtable = auto_vtable KTimer t,
      addr_arb_vtable = auto_vtable KAddressArbiter t,
      event_vtable = auto_vtable KEvent t,
      thread_vtable = auto_vtable KThread t,
      codeset_vtable = auto_vtable KCodeSet t,
      mutex_vtable = auto_vtable KMutex t,
      debug_vtable = auto_vtable KObjectDebug t\<rparr>"

section \<open>Objects and casts\<close>

text \<open>\<open>'d\<close> is what the data pointer points to.\<close>

record 'd kobject =
  ko_dispatch :: object_vtable
  ko_data :: 'd

definition kobject_new :: "object_type \<Rightarrow> 'd \<Rightarrow> 'd kobject" where
  "kobject_new t data = \<lparr>ko_dispatch = VTABLE t, ko_data = data\<rparr>"

definition try_downcast :: "object_type \<Rightarrow> 'd kobject \<Rightarrow> 'd option" where
  "try_downcast t x = (if ko_dispatch x = VTABLE t then Some (ko_data x) else None)"

text \<open>A trait object: the data with the methods.\<close>

type_synonym 'd trait_object = "'d \<times> methods"

definition trait_cast :: "(object_vtable \<Rightarrow> methods option) \<Rightarrow> 'd kobject \<Rightarrow> 'd trait_object option" where
  "trait_cast entry x =
     (case entry (ko_dispatch x) of Some methods \<Rightarrow> Some (ko_data x, methods) | None \<Rightarrow> None)"

primrec try_into_trait :: "object_trait \<Rightarrow> 'd kobject \<Rightarrow> 'd trait_object option" where
  "try_into_trait KObjectDebug = trait_cast debug_vtable"
| "try_into_trait KSynchronizationObject = trait_cast sync_vtable"
| "try_into_trait KClientSession = trait_cast client_session_vtable"
| "try_into_trait KServerSession = trait_cast server_session_vtable"
| "try_into_trait KClientPort = trait_cast client_port_vtable"
| "try_into_trait KServerPort = trait_cast server_port_vtable"
| "try_into_trait KTimer = trait_cast timer_vtable"
| "try_into_trait KAddressArbiter = trait_cast addr_arb_vtable"
| "try_into_trait KEvent = trait_cast event_vtable"
| "try_into_trait KThread = trait_cast thread_vtable"
| "try_into_trait KCodeSet = trait_cast codeset_vtable"
| "try_into_trait KMutex = trait_cast mutex_vtable"

section \<open>Typed references\<close>

text \<open>A \<open>KTypedObject\<close> is a reference to an object with the pointer the cast gave.  \<open>read\<close> gives the
  object a reference stands for.\<close>

record 'd typed_object =
  to_object :: oid
  to_ptr :: "'d trait_object"

definition typed_new :: "(oid \<Rightarrow> 'd kobject) \<Rightarrow> object_trait \<Rightarrow> oid \<Rightarrow> 'd typed_object option" where
  "typed_new read tr i = map_option (\<lambda>ptr. \<lparr>to_object = i, to_ptr = ptr\<rparr>) (try_into_trait tr (read i))"

definition typed_cast :: "(oid \<Rightarrow> 'd kobject) \<Rightarrow> object_trait \<Rightarrow> 'd typed_object \<Rightarrow> 'd typed_object option" where
  "typed_cast read tr this = typed_new read tr (to_object this)"

text \<open>A weak one holds the same; whether its object is still there is \<open>alive\<close>.\<close>

definition typed_weak_new :: "(oid \<Rightarrow> 'd kobject) \<Rightarrow> object_trait \<Rightarrow> oid \<Rightarrow> 'd typed_object option" where
  "typed_weak_new read tr i = map_option (\<lambda>ptr. \<lparr>to_object = i, to_ptr = ptr\<rparr>) (try_into_trait tr (read i))"

definition typed_downgrade :: "'d typed_object \<Rightarrow> 'd typed_object" where
  "typed_downgrade this = this"

definition typed_upgrade :: "(oid \<Rightarrow> bool) \<Rightarrow> 'd typed_object \<Rightarrow> 'd typed_object option" where
  "typed_upgrade alive this = map_option (\<lambda>i. \<lparr>to_object = i, to_ptr = to_ptr this\<rparr>) (upgrade alive (to_object this))"

section \<open>The kinds of object of the model\<close>

primrec type_of :: "'t kobj \<Rightarrow> object_type" where
  "type_of (Event _) = EventImpl"
| "type_of (Timer _) = TimerImpl"
| "type_of (Mutex _) = MutexImpl"
| "type_of (ThreadObject _) = ThreadImpl"
| "type_of (Arbiter _) = ArbiterImpl"
| "type_of (ServerPort _) = ServerPortHLE"
| "type_of (ClientPort _) = ClientPortHLE"
| "type_of (ServerSession _) = ServerSessionHLE"
| "type_of (ClientSession _) = ClientSessionHLE"
| "type_of (HleCodeSet _) = HLECodeSetImpl"
| "type_of (LleCodeSet _) = LLECodeSetImpl"

text \<open>The predicate the model asks instead of a cast.\<close>

primrec trait_kind :: "object_trait \<Rightarrow> 't kobj \<Rightarrow> bool" where
  "trait_kind KSynchronizationObject = is_sync"
| "trait_kind KClientSession = is_client_session"
| "trait_kind KServerSession = is_server_session"
| "trait_kind KClientPort = is_client_port"
| "trait_kind KServerPort = is_server_port"
| "trait_kind KTimer = is_timer"
| "trait_kind KAddressArbiter = is_arbiter"
| "trait_kind KEvent = is_event"
| "trait_kind KThread = is_thread_object"
| "trait_kind KCodeSet = (\<lambda>obj. case obj of HleCodeSet _ \<Rightarrow> True | _ \<Rightarrow> False)"
| "trait_kind KMutex = is_mutex"
| "trait_kind KObjectDebug = (\<lambda>_. True)"

lemma try_into_trait_new:
  "try_into_trait tr (kobject_new t data) = map_option (Pair data) (auto_vtable tr t)"
  by (cases tr) (simp_all add: trait_cast_def kobject_new_def VTABLE_def split: option.split)

lemma trait_kind_implements: "trait_kind tr obj \<longleftrightarrow> tr \<in> set (implementations (type_of obj))"
  by (cases tr; cases obj; simp)

lemma VTABLE_eq: "VTABLE t = VTABLE t' \<longleftrightarrow> t = t'"
proof
  assume "VTABLE t = VTABLE t'"
  then have "drop_the_ball_fn (VTABLE t) = drop_the_ball_fn (VTABLE t')" by simp
  then show "t = t'" by (simp add: VTABLE_def)
qed simp

text \<open>The object at a place of the model, as the code has it.\<close>

definition as_kobject :: "'t kobj \<Rightarrow> 't kobj kobject" where
  "as_kobject obj = kobject_new (type_of obj) obj"

lemma try_into_trait_object:
  "try_into_trait tr (as_kobject obj) =
     (if trait_kind tr obj then Some (obj, tr, type_of obj) else None)"
  by (simp add: as_kobject_def try_into_trait_new auto_vtable_def trait_kind_implements)

lemma try_downcast_object: "try_downcast t (as_kobject obj) = (if type_of obj = t then Some obj else None)"
  by (simp add: as_kobject_def try_downcast_def kobject_new_def VTABLE_eq)

text \<open>A cast of an object reference succeeds exactly if its type implements the trait, which is
  what \<open>dyn_cast\<close> asks of its kind, and gives the data of the object with the methods its own type
  has for that trait; a typed reference can be cast on to every trait the object implements, and
  a downcast finds exactly the own type.\<close>

theorem casts_give_own_methods:
  assumes "object_at s i = Some obj" and "as_kobject obj = read i"
  shows "dyn_cast (trait_kind tr) s (Some i) = map_option to_object (typed_new read tr i) \<and>
    (\<forall>r. typed_new read tr i = Some r \<longrightarrow>
       to_ptr r = (obj, tr, type_of obj) \<and> typed_cast read tr' r = typed_new read tr' i) \<and>
    try_downcast t (read i) = (if type_of obj = t then Some obj else None)"
  unfolding assms(2) [symmetric] try_downcast_object
  using assms(1)
  by (auto simp: typed_new_def typed_cast_def assms(2) [symmetric] try_into_trait_object dyn_cast_def)

theorem casts_give_own_methods_witness:
  "typed_new (\<lambda>_. as_kobject (Event (event_new Sticky) :: nat kobj)) KEvent 0 \<noteq> None \<and>
   typed_new (\<lambda>_. as_kobject (Event (event_new Sticky) :: nat kobj)) KTimer 0 = None"
proof -
  let ?s = "\<lparr>sc_objects = [Event (event_new Sticky) :: nat kobj], sc_threads = []\<rparr>"
  have at: "object_at ?s 0 = Some (Event (event_new Sticky))" by (simp add: object_at_def)
  note casts = casts_give_own_methods [OF at, where read = "\<lambda>_. as_kobject (Event (event_new Sticky))", OF refl, THEN conjunct1]
  have "map_option to_object (typed_new (\<lambda>_. as_kobject (Event (event_new Sticky) :: nat kobj)) KEvent 0) = Some 0"
    "map_option to_object (typed_new (\<lambda>_. as_kobject (Event (event_new Sticky) :: nat kobj)) KTimer 0) = None"
    using at casts [of KEvent, symmetric] casts [of KTimer, symmetric] by (simp_all add: dyn_cast_def)
  then show ?thesis by auto
qed

end
