(* ===== verification/ServiceCalls.thy ===== *)
theory ServiceCalls
  imports GuestCalls Turns
begin

text \<open>
  The high-level services act on the kernel by calls only, as the guests do: whatever a poll of a
  service does is a sequence of \<open>thread_call\<close>s.  The difficult call is the wait for the port and all
  sessions at once, which is sound because none of these objects is ever ready at once; so the
  poll has to keep every handle of its loop on a port or a session of its own.
\<close>

section \<open>What objects a server serves\<close>

text \<open>What an object is to a server: a port with the sessions that wait to be accepted, a session with
  the threads whose requests wait for an answer, or nothing it serves.\<close>

datatype duty = Offers "oid list" | Serves "tid list" | NoDuty

fun duty_of :: "'t kobj \<Rightarrow> duty" where
  "duty_of (ServerPort p) = Offers (sp_sessions p)"
| "duty_of (ServerSession x) = Serves (ss_requests x)"
| "duty_of _ = NoDuty"

definition duty_at :: "('t, 'z) sched_scheme \<Rightarrow> oid \<Rightarrow> duty option" where
  "duty_at s i = map_option duty_of (object_at s i)"

definition duties :: "('t, 'z) sched_scheme \<Rightarrow> duty list" where
  "duties s = map duty_of (sc_objects s)"

lemma duty_at_duties: "duty_at s i = (if i < length (duties s) then Some (duties s ! i) else None)"
  by (simp add: duty_at_def duties_def object_at_def)

lemma duty_at_same: "duties s' = duties s \<Longrightarrow> duty_at s' i = duty_at s i"
  by (simp add: duty_at_duties)

lemma length_duties: "length (duties s) = length (sc_objects s)"
  by (simp add: duties_def)

text \<open>Most operations change no duty: queues of wakers come and go.\<close>

lemma duties_modify:
  "(\<And>obj. duty_of (f obj) = duty_of obj) \<Longrightarrow> map duty_of (modify_object i f objs) = map duty_of objs"
  by (rule nth_equalityI) (auto simp: modify_object_def nth_list_update split: if_split_asm)

lemma duties_map_object: "(\<And>obj. duty_of (f obj) = duty_of obj) \<Longrightarrow> duties (map_object i f s) = duties s"
  by (simp add: duties_def map_object_def duties_modify)

lemma duty_remove_wakers [simp]: "duty_of (remove_wakers i obj) = duty_of obj"
  by (cases obj) simp_all

lemma duty_maps [simp]:
  "duty_of (map_event f1 obj) = duty_of obj" "duty_of (map_timer f2 obj) = duty_of obj" "duty_of (map_mutex f3 obj) = duty_of obj"
  "duty_of (map_thread_object f4 obj) = duty_of obj" "duty_of (map_client_port f5 obj) = duty_of obj"
  "duty_of (map_client_session f6 obj) = duty_of obj"
  "duty_of (map_server_port (\<lambda>p. p\<lparr>sp_queue := g p\<rparr>) obj) = duty_of obj"
  "duty_of (map_server_session (\<lambda>x. x\<lparr>ss_queue := h x\<rparr>) obj) = duty_of obj"
  "duty_of (map_server_session (\<lambda>x. x\<lparr>ss_client := c\<rparr>) obj) = duty_of obj"
  by (cases obj; simp)+

lemmas duties_map [simp] = duties_map_object [OF duty_maps(1)] duties_map_object [OF duty_maps(2)]
  duties_map_object [OF duty_maps(3)] duties_map_object [OF duty_maps(4)] duties_map_object [OF duty_maps(5)]
  duties_map_object [OF duty_maps(6)] duties_map_object [OF duty_maps(7)] duties_map_object [OF duty_maps(8)]
  duties_map_object [OF duty_maps(9)]

lemma wake_up_duties: "wake_up r objs t = Ret (t', objs') \<Longrightarrow> map duty_of objs' = map duty_of objs"
proof -
  have "map duty_of (fold (\<lambda>i. modify_object i (remove_wakers j)) is objs) = map duty_of objs" for j "is"
    by (induction "is" arbitrary: objs) (simp_all add: duties_modify)
  then show "wake_up r objs t = Ret (t', objs') \<Longrightarrow> ?thesis" by (auto simp: wake_up_def Let_def)
qed

lemma waker_wake_duties: "waker_wake w i s = Ret (b, s') \<Longrightarrow> duties s' = duties s"
  by (auto simp: waker_wake_def wake_up_thread_def duties_def split: if_splits dest: wake_up_duties)

lemma wake_or_panic_duties: "wake_or_panic msg i w s = Ret s' \<Longrightarrow> duties s' = duties s"
  by (auto simp: wake_or_panic_def split: if_splits dest: waker_wake_duties)

lemma wake_each_duties: "wake_each i ws s = Ret s' \<Longrightarrow> duties s' = duties s"
  by (induction ws arbitrary: s) (auto simp: wake_each_def dest: waker_wake_duties)

lemma event_signal_duties: "event_signal i s = Ret s' \<Longrightarrow> duties s' = duties s"
  by (auto simp: event_signal_def Let_def split: if_splits list.splits dest!: wake_each_duties wake_or_panic_duties)

lemma sync_wait_duties: "sync_wait i w s = Ret s' \<Longrightarrow> duties s' = duties s"
  by (auto simp: sync_wait_def event_wait_def timer_wait_def mutex_wait_def thread_object_wait_def
      server_port_wait_def client_port_wait_def server_session_wait_def client_session_wait_def Let_def
      split: option.splits kobj.splits prod.splits if_splits dest!: waker_wake_duties)

lemma wait_objects_duties: "fold_res (wait_object w) is s = Ret s' \<Longrightarrow> duties s' = duties s"
  by (induction "is" arbitrary: s) (auto simp: wait_object_def split: option.splits dest!: sync_wait_duties)

lemma port_wake_duties:
  "server_port_wake_thread i s = Ret s' \<Longrightarrow> duties s' = duties s"
  "client_port_wake_thread i s = Ret s' \<Longrightarrow> duties s' = duties s"
  "client_session_wake_thread i s = Ret s' \<Longrightarrow> duties s' = duties s"
  by (clarsimp simp: server_port_wake_thread_def client_port_wake_thread_def client_session_wake_thread_def;
      force split: list.split_asm dest!: wake_or_panic_duties)+

section \<open>Calls that keep the duties of a process\<close>

text \<open>How a duty may change while its process goes on: sessions are accepted and requests answered, and
  only new sessions join a port.\<close>

fun eased :: "('t, 'z) sched_scheme \<Rightarrow> duty \<Rightarrow> duty \<Rightarrow> bool" where
  "eased s (Offers xs) (Offers ys) \<longleftrightarrow> (\<forall>y \<in> set ys. y \<in> set xs \<or> duty_at s y = Some (Serves []))"
| "eased s (Serves xs) (Serves ys) \<longleftrightarrow> set ys \<subseteq> set xs"
| "eased s NoDuty d \<longleftrightarrow> d = NoDuty"
| "eased s _ _ \<longleftrightarrow> False"

definition keeps :: "u32 \<Rightarrow> ('t, 'p) kernel \<Rightarrow> ('t, 'p) kernel \<Rightarrow> bool" where
  "keeps pid k k' \<longleftrightarrow>
     k_current k' = k_current k \<and> thread_ids k' = thread_ids k \<and>
     (tables_ok (k_processes k) \<longrightarrow> tables_ok (k_processes k') \<and>
        (\<forall>h i. held (k_processes k) pid h = Some i \<longrightarrow> held (k_processes k') pid h = Some i)) \<and>
     (\<forall>i d. duty_at k i = Some d \<longrightarrow> (\<exists>d'. duty_at k' i = Some d' \<and> eased k' d d'))"

lemma keeps_duty:
  assumes "keeps pid k k'" "duty_at k i = Some d"
  obtains d' where "duty_at k' i = Some d'" "eased k' d d'"
  using assms unfolding keeps_def by blast

lemma eased_refl [simp]: "eased s d d"
  by (cases d) simp_all

lemma keeps_refl [simp]: "keeps pid k k"
  by (simp add: keeps_def)

lemma eased_trans:
  assumes "eased s1 d d1" "eased s2 d1 d2"
    and "\<And>i. duty_at s1 i = Some (Serves []) \<Longrightarrow> duty_at s2 i = Some (Serves [])"
  shows "eased s2 d d2"
  using assms(1,2) by (cases d; cases d1; cases d2) (auto dest: assms(3))

lemma keeps_trans [trans]:
  assumes k: "keeps pid k k1" and k1: "keeps pid k1 k2"
  shows "keeps pid k k2"
proof -
  have empty: "duty_at k2 i = Some (Serves [])" if d: "duty_at k1 i = Some (Serves [])" for i
  proof -
    obtain d' where "duty_at k2 i = Some d'" "eased k2 (Serves []) d'" using keeps_duty [OF k1 d] .
    then show ?thesis by (cases d') simp_all
  qed
  have "\<exists>d'. duty_at k2 i = Some d' \<and> eased k2 d d'" if d: "duty_at k i = Some d" for i d
  proof -
    obtain d1 where d1: "duty_at k1 i = Some d1" "eased k1 d d1" using keeps_duty [OF k d] .
    obtain d2 where "duty_at k2 i = Some d2" "eased k2 d1 d2" using keeps_duty [OF k1 d1(1)] .
    then show ?thesis using eased_trans [OF d1(2) _ empty] by blast
  qed
  then show ?thesis using k k1 unfolding keeps_def by simp
qed

lemma keeps_same_tables:
  assumes "k_current k' = k_current k" "k_processes k' = k_processes k" "thread_ids k' = thread_ids k"
    and "\<And>i d. duty_at k i = Some d \<Longrightarrow> \<exists>d'. duty_at k' i = Some d' \<and> eased k' d d'"
  shows "keeps pid k k'"
  using assms by (simp add: keeps_def)

lemma keeps_duties:
  assumes "house k' = house k" "duties k' = duties k"
  shows "keeps pid k k'"
proof (rule keeps_same_tables)
  have "sched.more k' = sched.more k" using assms(1) by (simp add: house_def)
  then show "k_current k' = k_current k" "k_processes k' = k_processes k" using kernel_fields by blast+
  show "thread_ids k' = thread_ids k" using assms(1) by (simp add: house_def)
qed (simp add: duty_at_same [OF assms(2)])

lemma keeps_threads:
  assumes "find_thread i (sc_threads k) = Ret t" "ct_index t' = ct_index t" "ct_pid t' = ct_pid t"
  shows "keeps pid k (k\<lparr>sc_threads := put_thread i t' (sc_threads k)\<rparr>)"
proof (rule keeps_same_tables)
  show "thread_ids (k\<lparr>sc_threads := put_thread i t' (sc_threads k)\<rparr>) = thread_ids k"
    using put_thread_ids [OF assms] by (simp add: thread_ids_def)
qed (auto simp: duty_at_def object_at_def split: if_split_asm)

section \<open>Handles a server waits for\<close>

definition foreign :: "u32 \<Rightarrow> ('t, 'z) sched_scheme \<Rightarrow> tid list \<Rightarrow> bool" where
  "foreign pid s rs \<longleftrightarrow> (\<forall>r \<in> set rs. (r, pid) \<notin> set (thread_ids s))"

text \<open>A server is bound to a port that only sessions wait at, or to a session; who asks for anything
  there is of another process.\<close>

definition tended :: "u32 \<Rightarrow> ('t, 'z) sched_scheme \<Rightarrow> oid \<Rightarrow> bool" where
  "tended pid s i \<longleftrightarrow>
     (case duty_at s i of
        Some (Serves rs) \<Rightarrow> foreign pid s rs
      | Some (Offers xs) \<Rightarrow> \<forall>x \<in> set xs. \<exists>rs. duty_at s x = Some (Serves rs) \<and> foreign pid s rs
      | _ \<Rightarrow> False)"

definition serving_at :: "u32 \<Rightarrow> handle option list \<Rightarrow> ('t, 'p) kernel \<Rightarrow> bool" where
  "serving_at pid handles k \<longleftrightarrow>
     tables_ok (k_processes k) \<and>
     (\<forall>x \<in> set handles. \<exists>h i. x = Some h \<and> held (k_processes k) pid h = Some i \<and> tended pid k i)"

lemma foreign_same: "thread_ids s' = thread_ids s \<Longrightarrow> foreign pid s rs \<Longrightarrow> foreign pid s' rs"
  by (simp add: foreign_def)

lemma tended_keeps:
  assumes k: "keeps pid k k'" and t: "tended pid k i"
  shows "tended pid k' i"
proof -
  have ids: "thread_ids k' = thread_ids k" using k by (simp add: keeps_def)
  have serves: "\<exists>rs'. duty_at k' j = Some (Serves rs') \<and> foreign pid k' rs'"
    if d: "duty_at k j = Some (Serves rs)" "foreign pid k rs" for j rs
  proof -
    obtain d' where d': "duty_at k' j = Some d'" "eased k' (Serves rs) d'" using keeps_duty [OF k d(1)] .
    then show ?thesis using d(2) ids by (cases d') (auto simp: foreign_def)
  qed
  show ?thesis
  proof (cases "duty_at k i")
    case (Some d)
    obtain d' where d': "duty_at k' i = Some d'" "eased k' d d'" using keeps_duty [OF k Some] .
    show ?thesis
    proof (cases d)
      case (Offers xs)
      then obtain ys where ys: "d' = Offers ys" using d'(2) by (cases d') simp_all
      have "\<exists>rs. duty_at k' y = Some (Serves rs) \<and> foreign pid k' rs" if "y \<in> set ys" for y
      proof (cases "y \<in> set xs")
        case True
        then show ?thesis using t Some Offers serves by (auto simp: tended_def)
      next
        case False
        then show ?thesis using d'(2) ys Offers that by (auto simp: foreign_def)
      qed
      then show ?thesis using d'(1) ys by (simp add: tended_def)
    next
      case (Serves rs)
      then show ?thesis using serves [of i rs] t Some by (auto simp: tended_def)
    qed (use t Some in \<open>simp add: tended_def\<close>)
  qed (use t in \<open>simp add: tended_def\<close>)
qed

lemma serving_keeps:
  assumes s: "serving_at pid hs k" and k: "keeps pid k k'"
  shows "serving_at pid hs k'"
proof -
  have "tables_ok (k_processes k')"
    and held: "\<And>h i. held (k_processes k) pid h = Some i \<Longrightarrow> held (k_processes k') pid h = Some i"
    using s k unfolding serving_at_def keeps_def by blast+
  moreover have "\<exists>h i. x = Some h \<and> held (k_processes k') pid h = Some i \<and> tended pid k' i" if x: "x \<in> set hs" for x
  proof -
    obtain h i where "x = Some h" "held (k_processes k) pid h = Some i" "tended pid k i"
      using s x unfolding serving_at_def by blast
    then show ?thesis using held tended_keeps [OF k] by blast
  qed
  ultimately show ?thesis unfolding serving_at_def by blast
qed

section \<open>The calls of a service\<close>

lemma suspend_thread_keeps: "suspend_thread objects timeout wt k = Ret (w, k') \<Longrightarrow> keeps pid k k'"
  by (auto simp: suspend_thread_def suspend_current_def thread_wait_def simp del: find_thread_at
      split: if_splits intro: keeps_threads)

lemma set_thread_ipc_data_keeps: "set_thread_ipc_data data k = Ret k' \<Longrightarrow> keeps pid k k'"
  by (auto simp: set_thread_ipc_data_def simp del: find_thread_at intro: keeps_threads)

lemma event_signal_keeps: "event_signal i k = Ret k' \<Longrightarrow> keeps pid k k'"
  by (intro keeps_duties house.event_signal_part event_signal_duties)

lemma signal_event_keeps: "signal_event handle k = Ret (x, k') \<Longrightarrow> keeps pid k k'"
  by (auto simp: signal_event_def split: option.split_asm intro: event_signal_keeps)

lemma wait_sync_n_keeps:
  assumes "wait_sync_n now handles wait_all timeout k = Ret (x, k')"
  shows "keeps pid k k'"
proof -
  obtain objects absolute w k1 where
      w: "suspend_thread objects absolute WaitSyncN k = Ret (w, k1)" "fold_res (wait_object w) objects k1 = Ret k'"
    using assms by (auto simp: wait_sync_n_def Let_def)
  have "keeps pid k1 k'" by (intro keeps_duties house.wait_objects_part [OF w(2)] wait_objects_duties [OF w(2)])
  with suspend_thread_keeps [OF w(1)] show ?thesis by (rule keeps_trans)
qed

lemma kernel_new_handle_keeps:
  assumes r: "kernel_new_handle draws obj k = Ret (h, k')" and pid: "k_current k = Some (pid, i)"
    and ok: "tables_ok (k_processes k)"
  shows "keeps pid k k' \<and> held (k_processes k') pid h = Some obj \<and> sc_objects k' = sc_objects k"
proof -
  obtain p p' where p: "process_at (k_processes k) pid = Some p" "process_new_handle draws obj p = Ret (h, p')"
      "k' = k\<lparr>k_processes := put_process pid p' (k_processes k)\<rparr>"
    using r pid by (auto simp: kernel_new_handle_def current_process_def dest: process_at_pid)
  note new = process_new_handle_held [OF ok p(1,2)]
  have "keeps pid k k'"
    unfolding keeps_def using new by (auto simp: p(3) thread_ids_def duty_at_def object_at_def split: if_split_asm)
  then show ?thesis using new p(3) by simp
qed

lemma new_object_keeps: "keeps pid k (snd (new_object obj k))"
  by (rule keeps_same_tables)
    (auto simp: new_object_def thread_ids_def duty_at_def object_at_def nth_append split: if_split_asm)

lemma new_object_tables [simp]:
  "k_processes (snd (new_object obj k)) = k_processes k" "k_current (snd (new_object obj k)) = k_current k"
  by (simp_all add: new_object_def)

lemma new_object_duty: "duty_at (snd (new_object obj k)) (fst (new_object obj k)) = Some (duty_of obj)"
  by (simp add: new_object_def duty_at_def object_at_def)

lemma new_object_handle_keeps:
  assumes r: "new_object_handle draws obj k = Ret ((j, h), k')" and pid: "k_current k = Some (pid, i)"
    and ok: "tables_ok (k_processes k)"
  shows "keeps pid k k'"
proof -
  have "kernel_new_handle draws (fst (new_object obj k)) (snd (new_object obj k)) = Ret (h, k')"
    using r by (auto simp: new_object_handle_def case_prod_unfold Let_def)
  from kernel_new_handle_keeps [OF this] pid ok have "keeps pid (snd (new_object obj k)) k'" by simp
  with new_object_keeps show ?thesis by (rule keeps_trans)
qed

lemma keeps_map_object:
  "(\<And>obj. duty_of (f obj) = duty_of obj) \<Longrightarrow> keeps pid k (map_object i f k)"
  by (rule keeps_duties) (simp_all add: duties_map_object)

lemma new_objects_keep: "keeps pid k (snd (new_object obj1 (snd (new_object obj2 k))))"
  using new_object_keeps new_object_keeps by (rule keeps_trans)

lemma duty_map_client [simp]: "duty_of (map_server_port (\<lambda>p. p\<lparr>sp_client := c\<rparr>) obj) = duty_of obj"
  by (cases obj) simp_all

lemma make_port_pair_keeps: "keeps pid k (snd (make_port_pair k))"
  unfolding make_port_pair_def case_prod_unfold Let_def snd_conv
  by (rule keeps_trans [OF new_objects_keep keeps_map_object]) simp

lemma make_session_pair_keeps:
  "keeps pid k (snd (make_session_pair k))"
  "duty_at (snd (make_session_pair k)) (fst (fst (make_session_pair k))) = Some (Serves [])"
proof -
  show "keeps pid k (snd (make_session_pair k))"
    unfolding make_session_pair_def case_prod_unfold Let_def snd_conv
    by (rule keeps_trans [OF new_objects_keep keeps_map_object]) simp
  show "duty_at (snd (make_session_pair k)) (fst (fst (make_session_pair k))) = Some (Serves [])"
    by (simp add: make_session_pair_def case_prod_unfold Let_def duty_at_duties)
      (simp add: new_object_def duties_def nth_append)
qed

text \<open>A new session joins the queue of a port.\<close>

lemma port_create_session_keeps:
  assumes r: "port_create_session alive port x k = Ret k'" and x: "duty_at k x = Some (Serves [])"
  shows "keeps pid k k'"
proof -
  obtain j where w: "server_port_wake_thread j
      (map_object j (map_server_port (\<lambda>p. p\<lparr>sp_sessions := sp_sessions p @ [x]\<rparr>)) k) = Ret k'"
    using r by (auto simp: port_create_session_def enqueue_session_def)
  let ?f = "map_server_port (\<lambda>p. p\<lparr>sp_sessions := sp_sessions p @ [x]\<rparr>)"
  have at: "duty_at k' i = (if i = j then map_option (duty_of \<circ> ?f) (object_at k i) else duty_at k i)" for i
    using duty_at_same [OF port_wake_duties(1) [OF w]]
    by (simp add: duty_at_def map_object_def object_at_def modify_object_def)
  have x': "duty_at k' x = Some (Serves [])"
    unfolding at using x by (auto simp: duty_at_def elim!: duty_of.elims)
  have "eased k' (duty_of obj) (duty_of (?f obj))" for obj :: "'a kobj"
    using x' by (cases obj) simp_all
  moreover have "house k' = house k"
    using house.server_port_wake_part [OF w] by simp
  then have "k_current k' = k_current k" "k_processes k' = k_processes k" "thread_ids k' = thread_ids k"
    using kernel_fields [of k' k] by (simp_all add: house_def)
  ultimately show ?thesis
    by (intro keeps_same_tables) (unfold at, auto simp: duty_at_def)
qed

lemma client_port_wait_keeps: "client_port_wait i w k = Ret k' \<Longrightarrow> keeps pid k k'"
  by (auto simp: client_port_wait_def intro: keeps_map_object)

lemma server_port_wait_keeps: "server_port_wait i w k = Ret k' \<Longrightarrow> keeps pid k k'"
  by (auto simp: server_port_wait_def intro: keeps_map_object)

lemma keeps_current: "keeps pid k k' \<Longrightarrow> k_current k' = k_current k"
  by (simp add: keeps_def)

lemma keeps_tables: "\<lbrakk>keeps pid k k'; tables_ok (k_processes k)\<rbrakk> \<Longrightarrow> tables_ok (k_processes k')"
  by (simp add: keeps_def)

lemma create_session_keeps:
  assumes r: "create_session_to_port alive draws handle k = Ret (x, k')"
    and pid: "k_current k = Some (pid, i)" and ok: "tables_ok (k_processes k)"
  shows "keeps pid k k'"
proof (cases "k' = k")
  case False
  then obtain port k2 w k3 k4 client h where
      s: "port_create_session alive port (fst (fst (make_session_pair k))) (snd (make_session_pair k)) = Ret k2"
        "suspend_thread [port] None WaitSync1 k2 = Ret (w, k3)" "client_port_wait port w k3 = Ret k4"
        "kernel_new_handle draws client k4 = Ret (h, k')"
    using r by (auto simp: create_session_to_port_def case_prod_unfold Let_def split: option.split_asm)
  have "keeps pid k k2"
    using make_session_pair_keeps(1) port_create_session_keeps [OF s(1) make_session_pair_keeps(2)] by (rule keeps_trans)
  also note suspend_thread_keeps [OF s(2)]
  also note client_port_wait_keeps [OF s(3)]
  finally have k4: "keeps pid k k4" .
  also have "keeps pid k4 k'"
    using kernel_new_handle_keeps [OF s(4)] keeps_current [OF k4] keeps_tables [OF k4 ok] pid by simp
  finally show ?thesis .
qed simp

section \<open>Accepting sessions\<close>

lemma accept_session_keeps:
  assumes r: "accept_session alive port k = Ret (session, k')"
  shows "keeps pid k k' \<and>
    (\<forall>x. session = Some x \<longrightarrow> (\<exists>xs. duty_at k port = Some (Offers xs) \<and> x \<in> set xs))"
proof (cases session)
  case None
  then have "k' = k" using accept_session_none [of alive port k k'] r by simp
  then show ?thesis using None by simp
next
  case (Some x)
  let ?f = "\<lambda>rest. map_server_port (\<lambda>p. p\<lparr>sp_sessions := rest\<rparr>)"
  obtain p rest client where p: "object_at k port = Some (ServerPort p)" "sp_sessions p = x # rest"
      and w: "client_port_wake_thread client (map_object port (?f rest) k) = Ret k'"
    using r Some by (clarsimp simp: accept_session_def Let_def) (auto split: list.split_asm)
  have at: "duty_at k' i = (if i = port then map_option (duty_of \<circ> ?f rest) (object_at k i) else duty_at k i)" for i
    using duty_at_same [OF port_wake_duties(2) [OF w]]
    by (simp add: duty_at_def map_object_def object_at_def modify_object_def)
  have "house k' = house k" using house.client_port_wake_part [OF w] by simp
  then have "k_current k' = k_current k" "k_processes k' = k_processes k" "thread_ids k' = thread_ids k"
    using kernel_fields [of k' k] by (simp_all add: house_def)
  then have "keeps pid k k'"
    using p by (intro keeps_same_tables) (unfold at, auto simp: duty_at_def)
  then show ?thesis using p Some by (simp add: duty_at_def)
qed

lemma lookup_held:
  assumes "lookup_object (Some h) k = Ret object" "k_current k = Some (pid, i)"
  shows "object = held (k_processes k) pid h"
  using assms by (auto simp: lookup_object_def kernel_lookup_handle_def current_process_def held_def)

lemma serving_more:
  "\<lbrakk>serving_at pid hs k; held (k_processes k) pid h = Some i; tended pid k i\<rbrakk> \<Longrightarrow> serving_at pid (hs @ [Some h]) k"
  by (auto simp: serving_at_def)

lemma svc_accept_keeps:
  assumes r: "svc_accept_session alive draws (Some port) k = Ret (res, k')"
    and pid: "k_current k = Some (pid, i)" and s: "serving_at pid hs k" and port: "Some port \<in> set hs"
  shows "keeps pid k k' \<and> (\<forall>h. res = Inr (Inr h) \<longrightarrow> serving_at pid (hs @ [Some h]) k')"
proof (cases "k' = k \<and> (\<forall>h. res \<noteq> Inr (Inr h))")
  case False
  obtain j where j: "held (k_processes k) pid port = Some j" "tended pid k j"
    using s port by (auto simp: serving_at_def)
  obtain object where object: "lookup_object (Some port) k = Ret object"
    using r by (auto simp: svc_accept_session_def)
  obtain session k1 where a: "accept_session alive j k = Ret (session, k1)"
    and rest: "case session of
        Some x \<Rightarrow> \<exists>h. kernel_new_handle draws x k1 = Ret (h, k') \<and> res = Inr (Inr h)
      | None \<Rightarrow> \<exists>w k2. suspend_thread [j] None WaitSync1 k1 = Ret (w, k2) \<and> server_port_wait j w k2 = Ret k' \<and>
          res = Inr (Inl Reschedule)"
  proof -
    have "object = Some j" using lookup_held [OF object pid] j(1) by simp
    then obtain m where m: "dyn_cast is_server_port k object = Some m"
      using r object False by (cases "dyn_cast is_server_port k object") (auto simp: svc_accept_session_def)
    then have "m = j" using \<open>object = Some j\<close> dyn_castD [OF m] by simp
    then obtain session k1 where a: "accept_session alive j k = Ret (session, k1)"
      using r object m by (auto simp: svc_accept_session_def)
    show thesis
      by (rule that [OF a]) (use r object m \<open>m = j\<close> a in \<open>auto simp: svc_accept_session_def split: option.split\<close>)
  qed
  note k1 = accept_session_keeps [OF a, of pid]
  show ?thesis
  proof (cases session)
    case None
    then obtain w k2 where w: "suspend_thread [j] None WaitSync1 k1 = Ret (w, k2)" "server_port_wait j w k2 = Ret k'"
        "res = Inr (Inl Reschedule)"
      using rest by auto
    have "keeps pid k k1" using k1 by simp
    also note suspend_thread_keeps [OF w(1)]
    also note server_port_wait_keeps [OF w(2)]
    finally show ?thesis using w(3) by simp
  next
    case (Some x)
    then obtain h where h: "kernel_new_handle draws x k1 = Ret (h, k')" "res = Inr (Inr h)" using rest by auto
    have keep1: "keeps pid k k1" using k1 by simp
    have ok: "tables_ok (k_processes k)" using s by (simp add: serving_at_def)
    note new = kernel_new_handle_keeps [OF h(1) _ keeps_tables [OF keep1 ok], of pid i]
    have keep: "keeps pid k k'" "held (k_processes k') pid h = Some x"
      using keeps_trans [OF keep1] new keeps_current [OF keep1] pid by simp_all
    have "\<exists>rs. duty_at k x = Some (Serves rs) \<and> foreign pid k rs" using k1 Some j(2) by (auto simp: tended_def)
    then have "tended pid k x" by (auto simp: tended_def)
    then have "tended pid k' x" by (rule tended_keeps [OF keep(1)])
    then show ?thesis using serving_more [OF serving_keeps [OF s keep(1)] keep(2)] keep(1) h(2) by simp
  qed
qed simp

section \<open>Messages of a server\<close>

text \<open>What the translation of a message does to the handles of the two processes: the receiver only
  gains handles, the sender only loses some.\<close>

definition handed :: "u32 \<Rightarrow> u32 \<Rightarrow> (oid common_process \<times> 'p) list \<Rightarrow> (oid common_process \<times> 'p) list \<Rightarrow> bool" where
  "handed src dest ps ps' \<longleftrightarrow>
     (tables_ok ps \<longrightarrow> tables_ok ps' \<and>
        (\<forall>h i. held ps dest h = Some i \<longrightarrow> held ps' dest h = Some i) \<and>
        (\<forall>h i. held ps' src h = Some i \<longrightarrow> held ps src h = Some i))"

lemma translate_handle_handed:
  assumes ne: "src \<noteq> dest" and tr: "translate_handle draws src dest moved h ps = Ret (h', ps')"
  shows "handed src dest ps ps'"
proof (cases h)
  case (Some x)
  obtain sp where sp: "process_at ps src = Some sp" using tr Some by (auto simp: translate_handle_def)
  obtain obj sp' where l: "(if moved then process_lookup_close_handle x sp else (process_lookup_handle x sp, sp)) = (obj, sp')"
    by (cases "if moved then process_lookup_close_handle x sp else (process_lookup_handle x sp, sp)")
  let ?ps1 = "put_process src sp' ps"
  have first: "handed src dest ps ?ps1"
  proof (cases moved)
    case True
    then have "process_lookup_close_handle x sp = (obj, sp')" using l by simp
    from process_take_handle_held [OF _ sp this] show ?thesis using ne by (auto simp: handed_def split: if_split_asm)
  next
    case False
    then show ?thesis using l put_process_same [OF sp] by (auto simp: handed_def)
  qed
  show ?thesis
  proof (cases obj)
    case None
    then show ?thesis using first tr Some sp l by (simp add: translate_handle_def)
  next
    case o: (Some v)
    obtain dp y dp' where d: "process_at ?ps1 dest = Some dp" "process_new_handle draws v dp = Ret (y, dp')"
        "ps' = put_process dest dp' ?ps1"
      using tr Some sp l o by (auto simp: translate_handle_def Let_def)
    have "handed src dest ?ps1 ps'"
      unfolding handed_def using process_new_handle_held [OF _ d(1,2)] ne by (auto simp: d(3))
    then show ?thesis using first by (simp add: handed_def)
  qed
qed (use tr in \<open>simp add: translate_handle_def handed_def\<close>)

lemma translate_params_handed:
  "\<lbrakk>translate_params draws src dest r w ps = Ret (w', ps'); src \<noteq> dest\<rbrakk> \<Longrightarrow> handed src dest ps ps'"
  by (rule translate_params_relate [where P = "(\<noteq>)" and R = handed])
    (auto simp: handed_def dest: translate_handle_handed [unfolded handed_def])

lemma thread_ids_unique:
  assumes "kernel_ok k" "(i, a) \<in> set (thread_ids k)" "(i, b) \<in> set (thread_ids k)"
  shows "a = b"
proof -
  have "distinct (map fst (thread_ids k))"
    using assms(1) by (simp add: kernel_ok_def sched_ok_def thread_ids_def comp_def)
  then show ?thesis using assms(2,3) by (rule eq_key_imp_eq_value)
qed

lemma find_thread_pair_ids:
  assumes ok: "kernel_ok k" and r: "find_thread_pair (src, dest) (sc_threads k) = Ret (s, t)"
  shows "(src, ct_pid s) \<in> set (thread_ids k) \<and> (dest, ct_pid t) \<in> set (thread_ids k)"
proof -
  obtain u v vs where uv: "filter (\<lambda>t. ct_index t = src \<or> ct_index t = dest) (sc_threads k) = u # v # vs"
      and st: "(s, t) = (if ct_index u = dest then (v, u) else (u, v))"
    using r by (auto simp: find_thread_pair_def split: list.splits if_splits)
  have "distinct (map ct_index (sc_threads k))" using ok by (simp add: kernel_ok_def sched_ok_def)
  then have "distinct (map ct_index (filter (\<lambda>t. ct_index t = src \<or> ct_index t = dest) (sc_threads k)))"
    by (rule distinct_map_filter)
  then have "ct_index u \<noteq> ct_index v" unfolding uv by simp
  moreover have "u \<in> set (sc_threads k)" "v \<in> set (sc_threads k)"
    "ct_index u = src \<or> ct_index u = dest" "ct_index v = src \<or> ct_index v = dest"
    using uv [THEN arg_cong, of set] by auto
  ultimately have "s \<in> set (sc_threads k)" "t \<in> set (sc_threads k)" "ct_index s = src" "ct_index t = dest"
    using st by (auto split: if_splits)
  then show ?thesis by (auto simp: thread_ids_def)
qed

lemma translate_ipc_handed:
  assumes ok: "kernel_ok k" and r: "translate_ipc draws src dest reply k = Ret k'"
  shows "\<exists>a b. (src, a) \<in> set (thread_ids k) \<and> (dest, b) \<in> set (thread_ids k) \<and>
    (a \<noteq> b \<longrightarrow> handed a b (k_processes k) (k_processes k')) \<and>
    k_current k' = k_current k \<and> thread_ids k' = thread_ids k \<and> duties k' = duties k"
proof -
  obtain s t ps data where st: "find_thread_pair (src, dest) (sc_threads k) = Ret (s, t)"
      and ps: "\<exists>r w w'. translate_params draws (ct_pid s) (ct_pid t) r w (k_processes k) = Ret (w', ps)"
      and k': "k' = k\<lparr>k_processes := ps,
        sc_threads := put_thread dest (t\<lparr>ct_ipc_data := data\<rparr>) (sc_threads k)\<rparr>"
    using r by (cases reply) (auto simp: translate_ipc_def Let_def, blast+)
  have t: "find_thread dest (sc_threads k) = Ret t"
    using find_thread_pair_second [OF _ st] ok by (simp add: kernel_ok_def sched_ok_def)
  have "thread_ids k' = thread_ids k"
    using put_thread_ids [OF t, of "t\<lparr>ct_ipc_data := data\<rparr>"] by (simp add: k' thread_ids_def)
  moreover have "ct_pid s \<noteq> ct_pid t \<longrightarrow> handed (ct_pid s) (ct_pid t) (k_processes k) (k_processes k')"
    using ps translate_params_handed unfolding k' by fastforce
  ultimately show ?thesis
    using find_thread_pair_ids [OF ok st] by (intro exI [of _ "ct_pid s"] exI [of _ "ct_pid t"]) (simp add: k' duties_def)
qed

lemma session_receive_keeps:
  assumes ok: "kernel_ok k" and r: "session_receive draws j i k = Ret (x, k')"
    and i: "(i, pid) \<in> set (thread_ids k)" and tended: "tended pid k j"
  shows "keeps pid k k'"
proof (cases "k' = k")
  case False
  obtain s request rest where s: "object_at k j = Some (ServerSession s)" "ss_requests s = request # rest"
      "translate_ipc draws request i False k = Ret k'"
    using r False by (clarsimp simp: session_receive_def) (auto split: list.split_asm)
  obtain a b where ab: "(request, a) \<in> set (thread_ids k)" "(i, b) \<in> set (thread_ids k)"
      "a \<noteq> b \<longrightarrow> handed a b (k_processes k) (k_processes k')"
      "k_current k' = k_current k" "thread_ids k' = thread_ids k" "duties k' = duties k"
    using translate_ipc_handed [OF ok s(3)] by blast
  have "b = pid" by (rule thread_ids_unique [OF ok ab(2) i])
  moreover have "(request, pid) \<notin> set (thread_ids k)"
    using tended s(1,2) by (simp add: tended_def duty_at_def foreign_def)
  then have "a \<noteq> pid" using ab(1) by auto
  ultimately have "handed a pid (k_processes k) (k_processes k')" using ab(3) by simp
  then show ?thesis
    using ab(4-6) unfolding keeps_def handed_def by (simp add: duty_at_same [OF ab(6)])
qed simp

text \<open>A reply may take handles from the server: those that are left stand for what they stood for.\<close>

lemma session_reply_leaves:
  assumes ok: "kernel_ok k" and r: "session_reply alive draws j i k = Ret k'"
    and i: "(i, pid) \<in> set (thread_ids k)" and tended: "tended pid k j" and tables: "tables_ok (k_processes k)"
  shows "k_current k' = k_current k \<and> thread_ids k' = thread_ids k \<and> tables_ok (k_processes k') \<and>
    (\<forall>h u. held (k_processes k') pid h = Some u \<longrightarrow> held (k_processes k) pid h = Some u) \<and>
    (\<forall>u. tended pid k u \<longrightarrow> tended pid k' u)"
proof -
  let ?f = "\<lambda>rest. map_server_session (\<lambda>x. x\<lparr>ss_requests := rest\<rparr>)"
  obtain s request rest client k2 where s: "object_at k j = Some (ServerSession s)" "ss_requests s = request # rest"
      and k2: "translate_ipc draws i request True (map_object j (?f rest) k) = Ret k2"
      and k': "client_session_wake_thread client k2 = Ret k'"
    using r by (clarsimp simp: session_reply_def) (auto simp: enqueue_response_def Let_def split: list.split_asm)
  let ?k1 = "map_object j (?f rest) k"
  have "sched_step k ?k1" by (rule sched_step_with_queue) simp_all
  then have ok1: "kernel_ok ?k1" using ok by (rule kernel_ok_step)
  have k1: "thread_ids ?k1 = thread_ids k" "k_processes ?k1 = k_processes k" "k_current ?k1 = k_current k"
    by (simp_all add: map_object_def thread_ids_def)
  obtain a b where ab: "(i, a) \<in> set (thread_ids k)" "(request, b) \<in> set (thread_ids k)"
      "a \<noteq> b \<longrightarrow> handed a b (k_processes k) (k_processes k2)"
      "k_current k2 = k_current k" "thread_ids k2 = thread_ids k" "duties k2 = duties ?k1"
    using translate_ipc_handed [OF ok1 k2] k1 by auto
  have "a = pid" by (rule thread_ids_unique [OF ok ab(1) i])
  moreover have "(request, pid) \<notin> set (thread_ids k)"
    using tended s by (simp add: tended_def duty_at_def foreign_def)
  then have "b \<noteq> pid" using ab(2) by auto
  ultimately have h: "handed pid b (k_processes k) (k_processes k2)" using ab(3) by simp
  have more: "sched.more k' = sched.more k2" and ids': "thread_ids k' = thread_ids k2"
    using house.client_session_wake_part [OF k'] by (simp_all add: house_def)
  have duties': "duties k' = duties ?k1" using port_wake_duties(3) [OF k'] ab(6) by simp
  have at: "duty_at k' i = (if i = j then map_option (duty_of \<circ> ?f rest) (object_at k i) else duty_at k i)" for i
    using duty_at_same [OF duties'] by (simp add: duty_at_def map_object_def object_at_def modify_object_def)
  have serves: "\<exists>rs'. duty_at k' u = Some (Serves rs') \<and> foreign pid k' rs'"
    if "duty_at k u = Some (Serves rs)" "foreign pid k rs" for u rs
  proof (cases "u = j")
    case True
    then have "set rest \<subseteq> set rs" using that(1) s by (auto simp: duty_at_def)
    then show ?thesis using True that(2) s(1) ids' ab(5) unfolding at foreign_def by auto
  next
    case False
    then show ?thesis using that ids' ab(5) unfolding at foreign_def by simp
  qed
  have offers: "duty_at k' u = Some (Offers xs)" if "duty_at k u = Some (Offers xs)" for u xs
    using that s unfolding at by (auto simp: duty_at_def)
  have "tended pid k' u" if t: "tended pid k u" for u
  proof (cases "duty_at k u")
    case (Some d)
    show ?thesis
    proof (cases d)
      case (Offers xs)
      have "\<exists>rs. duty_at k' x = Some (Serves rs) \<and> foreign pid k' rs" if "x \<in> set xs" for x
        using t Some Offers that serves by (auto simp: tended_def)
      then show ?thesis using offers Some Offers by (simp add: tended_def)
    next
      case (Serves rs)
      then show ?thesis using serves [of u rs] t Some by (auto simp: tended_def)
    qed (use t Some in \<open>simp add: tended_def\<close>)
  qed (use t in \<open>simp add: tended_def\<close>)
  then show ?thesis
    using h tables kernel_fields(1,3) [OF more] ids' ab(4,5) unfolding handed_def by auto
qed

section \<open>A server waits safely\<close>

text \<open>The thread \<open>i\<close> of the process \<open>pid\<close> runs in a consistent kernel.\<close>

definition at_work :: "u32 \<Rightarrow> tid \<Rightarrow> ('t, 'p) kernel \<Rightarrow> bool" where
  "at_work pid i k \<longleftrightarrow>
     kernel_ok k \<and> tables_ok (k_processes k) \<and> k_current k = Some (pid, i) \<and>
     (i, pid) \<in> set (thread_ids k) \<and> (\<exists>t. running k i t)"

lemma at_workD:
  assumes "at_work pid i k"
  shows "kernel_ok k" "tables_ok (k_processes k)" "k_current k = Some (pid, i)" "(i, pid) \<in> set (thread_ids k)"
  using assms by (simp_all add: at_work_def)

lemma at_work_running:
  assumes "at_work pid i k"
  obtains t where "running k i t"
  using assms by (auto simp: at_work_def)

lemma at_work_called: "\<lbrakk>at_work pid i k; called i True k k'; keeps pid k k'\<rbrakk> \<Longrightarrow> at_work pid i k'"
  using thread_calls_ok [of k k'] by (simp add: at_work_def called_def keeps_def)

lemma tended_not_ready:
  assumes "tended pid s i"
  shows "\<exists>obj. object_at s i = Some obj \<and> is_sync obj \<and> \<not> sync_ready obj"
proof -
  obtain obj where obj: "object_at s i = Some obj" "duty_of obj \<noteq> NoDuty"
    using assms by (cases "object_at s i") (auto simp: tended_def duty_at_def split: duty.split_asm)
  then show ?thesis by (cases obj) simp_all
qed

lemma lookup_objects_held:
  "\<lbrakk>lookup_objects hs k = Ret objs; k_current k = Some (pid, i)\<rbrakk> \<Longrightarrow>
     (\<forall>j \<in> set objs. \<exists>h. Some h \<in> set hs \<and> held (k_processes k) pid h = Some j) \<and>
     (\<forall>h. Some h \<in> set hs \<longrightarrow> held (k_processes k) pid h \<noteq> None)"
proof (induction hs arbitrary: objs)
  case (Cons x hs)
  obtain j js where j: "lookup_object x k = Ret (Some j)" "lookup_objects hs k = Ret js" "objs = j # js"
    using Cons.prems(1) by auto
  obtain h where h: "x = Some h" using j(1) by (cases x) (auto simp: lookup_object_def)
  have "held (k_processes k) pid h = Some j" using lookup_held [OF _ Cons.prems(2), of h "Some j"] j(1) h by simp
  then show ?case using Cons.IH [OF j(2) Cons.prems(2)] h j(3) by auto
qed simp

lemma tended_wait_safe:
  assumes "k_current k = Some (pid, i)"
    and "\<forall>h j. Some h \<in> set hs \<and> held (k_processes k) pid h = Some j \<longrightarrow> tended pid k j"
  shows "wait_n_safe hs k"
proof (cases "lookup_objects hs k")
  case (Ret objs)
  then have "\<exists>obj. object_at k j = Some obj \<and> is_sync obj \<and> \<not> sync_ready obj" if "j \<in> set objs" for j
    using lookup_objects_held [OF Ret assms(1)] assms(2) tended_not_ready that by blast
  then show ?thesis using Ret by (fastforce simp: wait_n_safe_def list_all_iff)
qed (simp_all add: wait_n_safe_def)

lemma serving_held:
  "\<lbrakk>serving_at pid hs k; Some h \<in> set hs; held (k_processes k) pid h = Some j\<rbrakk> \<Longrightarrow> tended pid k j"
  by (fastforce simp: serving_at_def)

lemma serving_all: "serving_at pid hs k \<Longrightarrow> \<forall>h j. Some h \<in> set hs \<and> held (k_processes k) pid h = Some j \<longrightarrow> tended pid k j"
  using serving_held by blast

lemma serving_restored:
  assumes s: "serving_at pid hs k" and ok: "tables_ok (k_processes k')"
    and less: "\<And>h j. held (k_processes k') pid h = Some j \<Longrightarrow> held (k_processes k) pid h = Some j"
    and tended: "\<And>j. tended pid k j \<Longrightarrow> tended pid k' j"
    and found: "\<And>h. Some h \<in> set hs \<Longrightarrow> held (k_processes k') pid h \<noteq> None"
  shows "serving_at pid hs k'"
  unfolding serving_at_def
proof (intro conjI ballI ok)
  fix x assume x: "x \<in> set hs"
  then obtain h i where h: "x = Some h" using s by (auto simp: serving_at_def)
  then obtain j where j: "held (k_processes k') pid h = Some j" using found x by blast
  then have "tended pid k j" using serving_held [OF s] less x h by blast
  then show "\<exists>h i. x = Some h \<and> held (k_processes k') pid h = Some i \<and> tended pid k' i" using h j tended by blast
qed

lemma wait_n_called:
  assumes r: "wait_sync_n now hs False timeout k = Ret (res, k')" and run: "running k i t"
    and cur: "k_current k = Some (pid, i)"
    and safe: "\<forall>h j. Some h \<in> set hs \<and> held (k_processes k) pid h = Some j \<longrightarrow> tended pid k j"
  shows "thread_calls k k' \<and> keeps pid k k' \<and> (\<forall>h. Some h \<in> set hs \<longrightarrow> held (k_processes k) pid h \<noteq> None)"
proof -
  obtain objs where "lookup_objects hs k = Ret objs" using r by (auto simp: wait_sync_n_def Let_def)
  then show ?thesis
    using lookup_objects_held [OF _ cur] thread_call.wait_several [OF run tended_wait_safe [OF cur safe] r]
      wait_sync_n_keeps [OF r] by blast
qed

text \<open>The end of a poll: the reply to the target, if any, and the wait for everything served.\<close>

lemma reply_and_receive_serves:
  assumes work: "at_work pid i k" and s: "serving_at pid hs k" and target: "\<And>h. target = Some h \<Longrightarrow> Some h \<in> set hs"
    and r: "reply_and_receive_pre now alive draws hs target k = Ret (Inr res, k')"
  shows "thread_calls k k' \<and> serving_at pid hs k' \<and>
    (\<forall>h u. Some h \<in> set hs \<and> held (k_processes k) pid h = Some u \<longrightarrow> held (k_processes k') pid h = Some u)"
proof -
  note w = at_workD [OF work]
  obtain t where run: "running k i t" using work by (rule at_work_running)
  show ?thesis
  proof (cases target)
    case None
    then have "wait_sync_n now hs False (- 1) k = Ret (Inr res, k')" using r by (simp add: reply_and_receive_pre_def)
    note wait = wait_n_called [OF this run w(3) serving_all [OF s]]
    have "tables_ok (k_processes k)" using s by (simp add: serving_at_def)
    then have "\<forall>h u. held (k_processes k) pid h = Some u \<longrightarrow> held (k_processes k') pid h = Some u"
      using wait by (simp add: keeps_def)
    then show ?thesis using wait serving_keeps [OF s] by blast
  next
    case (Some h)
    obtain j where j: "held (k_processes k) pid h = Some j" "tended pid k j"
      using s target Some by (fastforce simp: serving_at_def)
    obtain object where object: "lookup_object (Some h) k = Ret object"
      using r Some by (auto simp: reply_and_receive_pre_def lookup_object_def)
    have "object = Some j" using lookup_held [OF object w(3)] j(1) by simp
    moreover obtain m k1 where m: "dyn_cast is_server_session k object = Some m"
        "session_reply alive draws m i k = Ret k1" "wait_sync_n now hs False (- 1) k1 = Ret (Inr res, k')"
      using r Some object w(3)
      by (auto simp: reply_and_receive_pre_def lookup_object_def current_pid_tid_def split: option.split_asm)
    ultimately have "m = j" using dyn_castD [OF m(1)] by simp
    note left = session_reply_leaves [OF w(1) m(2) w(4) j(2) [folded \<open>m = j\<close>] w(2)]
    obtain t1 where t1: "running k1 i t1" using yieldsD [OF session_reply_ok [OF w(1) run] m(2)] by blast
    have safe: "\<forall>x u. Some x \<in> set hs \<and> held (k_processes k1) pid x = Some u \<longrightarrow> tended pid k1 u"
      using left serving_all [OF s] by blast
    have "k_current k1 = Some (pid, i)" using left w(3) by simp
    note wait = wait_n_called [OF m(3) t1 this safe]
    have "serving_at pid hs k1"
      by (rule serving_restored [OF s]) (use left wait in blast)+
    then have "serving_at pid hs k'" using serving_keeps wait by blast
    moreover have "held (k_processes k') pid x = Some u"
      if "Some x \<in> set hs" "held (k_processes k) pid x = Some u" for x u
    proof -
      have "held (k_processes k1) pid x \<noteq> None" using wait that(1) by blast
      then obtain v where v: "held (k_processes k1) pid x = Some v" by blast
      then have "held (k_processes k) pid x = Some v" using left by blast
      then have "held (k_processes k1) pid x = Some u" using v that(2) by simp
      then show ?thesis using wait left unfolding keeps_def by blast
    qed
    moreover have "thread_calls k k'" using thread_call.reply [OF run m(2)] wait by (meson converse_rtranclp_into_rtranclp)
    ultimately show ?thesis by blast
  qed
qed

section \<open>The loop of a server\<close>

text \<open>The loop of a server serves the port object its port handle stands for, with the sessions it has
  accepted there.\<close>

definition served :: "u32 \<Rightarrow> oid \<Rightarrow> 'c server \<Rightarrow> ('t, 'p) kernel \<Rightarrow> bool" where
  "served pid u se k \<longleftrightarrow>
     serving_at pid (se_handles se) k \<and> Some (se_port se) \<in> set (se_handles se) \<and>
     held (k_processes k) pid (se_port se) = Some u"

lemma served_keeps:
  assumes "served pid u se k" "keeps pid k k'"
  shows "served pid u se k'"
proof -
  have "tables_ok (k_processes k)" using assms(1) by (simp add: served_def serving_at_def)
  then have "held (k_processes k') pid (se_port se) = Some u"
    using assms unfolding keeps_def served_def by blast
  then show ?thesis using assms serving_keeps by (auto simp: served_def)
qed

lemma served_loop:
  "served pid u (se\<lparr>se_data := data\<rparr>) k = served pid u se k" "served pid u (se\<lparr>se_self := self\<rparr>) k = served pid u se k"
  by (simp_all add: served_def)

lemma set_data_called:
  assumes "set_thread_ipc_data data k = Ret k'" "at_work pid i k"
  shows "called i True k k' \<and> keeps pid k k' \<and> at_work pid i k'"
proof -
  obtain t where run: "running k i t" using assms(2) by (rule at_work_running)
  then have "called i True k k'"
    using thread_call.set_data [OF assms(1)] set_thread_ipc_data_running [OF assms(1) run] by (auto simp: called_def)
  then show ?thesis using set_thread_ipc_data_keeps [OF assms(1)] at_work_called [OF assms(2)] by blast
qed

lemma calls_chain: "\<lbrakk>called i g k k1; thread_calls k1 k'\<rbrakk> \<Longrightarrow> thread_calls k k'"
  by (auto simp: called_def intro: rtranclp_trans)

lemma server_receive_serves:
  assumes r: "server_receive os target se k = Ret ((se', point), k')" and work: "at_work pid i k"
    and s: "served pid u se k" and target: "\<And>h. target = Some h \<Longrightarrow> Some h \<in> set (se_handles se)"
  shows "thread_calls k k' \<and> served pid u se' k'"
proof -
  obtain poll k2 where h: "hle_reply_and_receive (os_now os) (os_alive os) (os_draws os) (se_handles se) target
        (se_data se) k = Ret (poll, k2)"
      and c: "(case poll of PollPending \<Rightarrow> Ret ((se, InReceive), k2)
        | PollReady (None, Inl err) \<Rightarrow> Panic (Expect ''Failed somewhere'') | PollReady _ \<Rightarrow> Panic Unreachable) =
        Ret ((se', point), k')"
    using r by (auto simp: server_receive_def)
  from c have p: "poll = PollPending" "se' = se" "k2 = k'"
    by (auto split: poll.split_asm prod.split_asm sum.split_asm option.split_asm)
  obtain k1 res where k1: "set_thread_ipc_data (se_data se) k = Ret k1"
      "reply_and_receive_pre (os_now os) (os_alive os) (os_draws os) (se_handles se) target k1 = Ret (Inr res, k')"
      "se' = se"
  proof -
    obtain k1 pre k3 where a: "set_thread_ipc_data (se_data se) k = Ret k1"
        "reply_and_receive_pre (os_now os) (os_alive os) (os_draws os) (se_handles se) target k1 = Ret (pre, k3)"
        "(case pre of Inr (Some _) \<Rightarrow> Ret (PollPending, k3) | Inr None \<Rightarrow> Panic Unreachable
          | Inl err \<Rightarrow> Ret (PollReady (None, Inl err), k3)) = Ret (poll, k2)"
      using h unfolding hle_reply_and_receive_def and_then_eq_Ret by auto
    then obtain res where "pre = Inr res" "k3 = k'"
      using p by (cases pre) (auto split: option.split_asm)
    then show thesis using that [OF a(1)] a(2) p(2) by simp
  qed
  note d = set_data_called [OF k1(1) work]
  have "serving_at pid (se_handles se) k1" using s d serving_keeps by (auto simp: served_def)
  from reply_and_receive_serves [OF _ this target k1(2), of i] d
  have served: "thread_calls k1 k'" "serving_at pid (se_handles se) k'"
    and port: "\<forall>h u. Some h \<in> set (se_handles se) \<and> held (k_processes k1) pid h = Some u \<longrightarrow>
      held (k_processes k') pid h = Some u"
    by simp_all
  have "served pid u se k1" using served_keeps [OF s] d by blast
  then have "served pid u se k'" using served(2) port unfolding served_def by blast
  have "thread_calls k k'" using d served(1) calls_chain [of i True k k1 k'] by blast
  then show ?thesis using k1(3) \<open>served pid u se k'\<close> by simp
qed

lemma receive_called:
  assumes r: "session_receive draws j i k = Ret (x, k')" and work: "at_work pid i k" and t: "tended pid k j"
  shows "called i True k k' \<and> keeps pid k k'"
proof -
  obtain t where run: "running k i t" using work by (rule at_work_running)
  have "\<exists>t'. running k' i t'"
  proof (cases "k' = k")
    case False
    then obtain request where "translate_ipc draws request i False k = Ret k'"
      using r by (clarsimp simp: session_receive_def) (auto split: list.split_asm)
    from yieldsD [OF translate_ipc_ok [OF at_workD(1) [OF work]] this] show ?thesis using run by blast
  qed (use run in blast)
  then show ?thesis
    using thread_call.receive [OF r] session_receive_keeps [OF at_workD(1) [OF work] r at_workD(4) [OF work] t]
    by (simp add: called_def r_into_rtranclp)
qed

lemma receive_resumed_called:
  assumes r: "hle_reply_and_receive_resumed draws hs resume k = Ret (((index, res), data), k')"
    and work: "at_work pid i k" and s: "serving_at pid hs k"
  shows "called i True k k' \<and> keeps pid k k' \<and> (\<forall>n. index = Some n \<longrightarrow> n < length hs)"
proof -
  obtain n where index: "index = Some n" and post: "reply_and_receive_post draws hs resume k = Ret ((n, res), k')"
    using r by (auto simp: hle_reply_and_receive_resumed_def)
  then have n: "resume = ResumeWaitSyncN n" "n < length hs" "index = Some n"
    by (auto simp: reply_and_receive_post_def split: thread_resume.split_asm option.split_asm)
  note w = at_workD [OF work]
  obtain t where run: "running k i t" using work by (rule at_work_running)
  have "hs ! n \<in> set hs" using n(2) by simp
  then obtain h j where h: "hs ! n = Some h" "held (k_processes k) pid h = Some j" "tended pid k j"
    using s by (fastforce simp: serving_at_def)
  have "called i True k k' \<and> keeps pid k k'"
  proof (cases "k' = k")
    case True
    then show ?thesis using called_refl [OF run] by simp
  next
    case False
    obtain object where object: "lookup_object (Some h) k = Ret object"
      using post n h by (auto simp: reply_and_receive_post_def)
    have "object = Some j" using lookup_held [OF object w(3)] h(2) by simp
    then obtain m x where m: "dyn_cast is_server_session k object = Some m" "session_receive draws m i k = Ret (x, k')"
      using post n h object False w(3)
      by (auto simp: reply_and_receive_post_def current_pid_tid_def split: option.split_asm)
    then have "m = j" using \<open>object = Some j\<close> dyn_castD [OF m(1)] by simp
    then show ?thesis using receive_called [OF m(2) work] h(3) by simp
  qed
  then show ?thesis using n by simp
qed

lemma accepted_serves:
  assumes r: "server_accepted os se (poll, k1) = Ret ((se', point), k')"
    and a: "hle_accept_session (os_alive os) (os_draws os) (se_port se) k = Ret (poll, k1)"
    and work: "at_work pid i k" and s: "served pid u se k"
  shows "thread_calls k k' \<and> served pid u se' k'"
proof -
  obtain res where acc: "svc_accept_session (os_alive os) (os_draws os) (Some (se_port se)) k = Ret (res, k1)"
      "poll = (case res of Inl err \<Rightarrow> PollReady (Inl err) | Inr (Inr h) \<Rightarrow> PollReady (Inr h) | Inr (Inl _) \<Rightarrow> PollPending)"
    using a by (auto simp: hle_accept_session_def)
  note w = at_workD [OF work]
  obtain t where run: "running k i t" using work by (rule at_work_running)
  note call = accept_called [OF acc(1) w(1) run]
  have keep: "keeps pid k k1" "res = Inr (Inr h) \<Longrightarrow> serving_at pid (se_handles se @ [Some h]) k1" for h
    using svc_accept_keeps [OF acc(1) w(3)] s by (auto simp: served_def)
  have port: "held (k_processes k1) pid (se_port se) = Some u"
    using served_keeps [OF s keep(1)] by (simp add: served_def)
  show ?thesis
  proof (cases res)
    case (Inl err)
    then show ?thesis using r acc(2) by (simp add: server_accepted_def)
  next
    case (Inr x)
    show ?thesis
    proof (cases x)
      case (Inl y)
      then have "k' = k1" "se' = se" using r acc(2) Inr by (simp_all add: server_accepted_def)
      then show ?thesis using call served_keeps [OF s keep(1)] by (simp add: called_def)
    next
      case h: (Inr h)
      let ?se = "se\<lparr>se_handles := se_handles se @ [Some h]\<rparr>"
      have "server_receive os None ?se k1 = Ret ((se', point), k')"
        using r acc(2) Inr h by (simp add: server_accepted_def)
      moreover have "called i True k k1" using call Inr h by (simp add: called_def)
      moreover from this have "at_work pid i k1" by (rule at_work_called [OF work _ keep(1)])
      moreover have "served pid u ?se k1" using keep(2) [of h] Inr h s port by (simp add: served_def)
      ultimately show ?thesis using server_receive_serves [of os None ?se k1] calls_chain by blast
    qed
  qed
qed

section \<open>The contract of a request handler\<close>

text \<open>What the loop of a server relies on: while a handler works on a request, it acts by calls that keep
  what the process serves, and its thread goes on unless the handler waits.\<close>

locale request_handler =
  fixes handle_ipc :: "('c, 'w, 't, 'p) ipc_handler"
  assumes handled: "\<lbrakk>at_work pid i k; handle_ipc os self data k = Ret (Handled self' data', k')\<rbrakk> \<Longrightarrow>
      called i True k k' \<and> keeps pid k k'"
    and waits: "\<lbrakk>at_work pid i k; handle_ipc os self data k = Ret (Waits self' w, k')\<rbrakk> \<Longrightarrow>
      thread_calls k k' \<and> keeps pid k k'"
begin

lemma server_answer_serves:
  assumes "server_answer os n se k = Ret ((se', point), k')" "at_work pid i k" "served pid u se k"
  shows "thread_calls k k' \<and> served pid u se' k'"
proof -
  have n: "n < length (se_handles se)" "server_receive os (se_handles se ! n) se k = Ret ((se', point), k')"
    using assms(1) by (auto simp: server_answer_def)
  show ?thesis
    by (rule server_receive_serves [OF n(2) assms(2,3)]) (use n(1) nth_mem in force)
qed

lemma server_handle_serves:
  assumes r: "server_handle handle_ipc os n se k = Ret ((se', point), k')" and work: "at_work pid i k"
    and s: "served pid u se k"
  shows "thread_calls k k' \<and> served pid u se' k'"
proof -
  obtain h k1 where h: "handle_ipc os (se_self se) (se_data se) k = Ret (h, k1)"
    using r by (auto simp: server_handle_def)
  show ?thesis
  proof (cases h)
    case (Handled self data)
    note w = handled [OF work h [unfolded Handled]]
    have "server_answer os n (se\<lparr>se_self := self, se_data := data\<rparr>) k1 = Ret ((se', point), k')"
      using r h Handled by (simp add: server_handle_def)
    moreover have "served pid u (se\<lparr>se_self := self, se_data := data\<rparr>) k1"
      using served_keeps [OF s, of k1] w by (simp add: served_def)
    ultimately have "thread_calls k1 k' \<and> served pid u se' k'"
      using w at_work_called [OF work] by (intro server_answer_serves [of os n _ k1]) auto
    then show ?thesis using w calls_chain by blast
  next
    case (Waits self waiting)
    then show ?thesis using r h waits [OF work h [unfolded Waits]] served_keeps [OF s]
      by (auto simp: server_handle_def served_loop)
  qed
qed

lemma server_poll_serves:
  assumes r: "server_poll handle_ipc handle_resumed os resume (se, point) k = Ret ((se', point'), k')"
    and work: "at_work pid i k" and s: "served pid u se k"
  shows "thread_calls k k' \<and> served pid u se' k'"
proof (cases point)
  case InReceive
  obtain index res data k1 where h:
      "hle_reply_and_receive_resumed (os_draws os) (se_handles se) resume k = Ret (((index, res), data), k1)"
    using r InReceive by (auto simp: server_poll_def)
  have "serving_at pid (se_handles se) k" using s by (simp add: served_def)
  note got = receive_resumed_called [OF h work this]
  let ?se = "se\<lparr>se_data := data\<rparr>"
  have k1: "called i True k k1" "at_work pid i k1" "served pid u ?se k1"
    using got at_work_called [OF work] served_keeps [OF s] by (simp_all add: served_loop)
  obtain n where n: "index = Some n" "res = Inr ()"
    using r InReceive h by (cases index; cases res) (auto simp: server_poll_def)
  have "thread_calls k1 k' \<and> served pid u se' k'"
  proof (cases "n = 0")
    case True
    then obtain poll k2 where a: "hle_accept_session (os_alive os) (os_draws os) (se_port ?se) k1 = Ret (poll, k2)"
        "server_accepted os ?se (poll, k2) = Ret ((se', point'), k')"
      using r InReceive h n by (auto simp: server_poll_def Let_def)
    show ?thesis by (rule accepted_serves [OF a(2,1) k1(2,3)])
  next
    case False
    then have "server_handle handle_ipc os n ?se k1 = Ret ((se', point'), k')"
      using r InReceive h n by (simp add: server_poll_def Let_def)
    then show ?thesis by (rule server_handle_serves [OF _ k1(2,3)])
  qed
  then show ?thesis using calls_chain [OF k1(1)] by blast
next
  case InAccept
  then obtain poll k2 where a: "hle_accept_session (os_alive os) (os_draws os) (se_port se) k = Ret (poll, k2)"
      "server_accepted os se (poll, k2) = Ret ((se', point'), k')"
    using r by (auto simp: server_poll_def hle_accept_session_resumed_def)
  show ?thesis by (rule accepted_serves [OF a(2,1) work s])
next
  case (InHandler n waiting)
  then obtain data where "server_answer os n (se\<lparr>se_data := data\<rparr>) k = Ret ((se', point'), k')"
    using r by (auto simp: server_poll_def)
  then show ?thesis by (rule server_answer_serves [OF _ work]) (simp add: served_loop s)
qed

end

section \<open>The handlers of the services\<close>

lemma created_called:
  assumes "new_object_handle draws obj k = Ret ((j, h), k')" "wakers_of obj = []" "at_work pid i k"
  shows "called i True k k' \<and> keeps pid k k' \<and> at_work pid i k'"
proof -
  obtain t where "running k i t" using assms(3) by (rule at_work_running)
  from new_object_called [OF assms(1,2) this] new_object_handle_keeps [OF assms(1) at_workD(3,2) [OF assms(3)]]
  show ?thesis using at_work_called [OF assms(3)] by blast
qed

lemma handle_called:
  assumes r: "kernel_new_handle draws obj k = Ret (h, k')" and work: "at_work pid i k"
  shows "called i True k k' \<and> keeps pid k k' \<and> at_work pid i k'"
proof -
  obtain t where "running k i t" using work by (rule at_work_running)
  from called_one [OF thread_call.new_handle [OF r] kernel_new_handle_running [OF r this]]
  show ?thesis using kernel_new_handle_keeps [OF r at_workD(3,2) [OF work]] at_work_called [OF work] by blast
qed

lemma ports_called:
  assumes work: "at_work pid i k"
  shows "called i True k (snd (make_port_pair k)) \<and> keeps pid k (snd (make_port_pair k)) \<and>
    at_work pid i (snd (make_port_pair k))"
proof -
  obtain t where "running k i t" using work by (rule at_work_running)
  then have "running (snd (make_port_pair k)) i t"
    by (simp add: make_port_pair_def new_object_def running_def thread_at_def map_object_def)
  from called_one [OF thread_call.new_ports [OF prod.collapse [symmetric]] this]
  show ?thesis using make_port_pair_keeps at_work_called [OF work] by blast
qed

lemma signal_called:
  assumes r: "signal_event handle k = Ret (x, k')" and work: "at_work pid i k"
  shows "called i True k k' \<and> keeps pid k k' \<and> at_work pid i k'"
proof -
  obtain t where run: "running k i t" using work by (rule at_work_running)
  have "running k' i t"
    using r event_signal_running [OF at_workD(1) [OF work] _ run] run
    by (auto simp: signal_event_def split: option.split_asm)
  from called_one [OF thread_call.signal_event [OF r] this]
  show ?thesis using signal_event_keeps [OF r] at_work_called [OF work] by blast
qed

lemma called_trans: "\<lbrakk>called i True k k1; called i g k1 k'\<rbrakk> \<Longrightarrow> called i g k k'"
  by (auto simp: called_def intro: rtranclp_trans)

lemma at_work_stays: "at_work pid i k \<Longrightarrow> called i True k k \<and> keeps pid k k"
  by (auto simp: at_work_def intro: called_refl)

text \<open>The contract as a postcondition of a handler.\<close>

definition worked :: "u32 \<Rightarrow> tid \<Rightarrow> ('t, 'p) kernel \<Rightarrow> ('c, 'w) handled \<times> ('t, 'p) kernel \<Rightarrow> bool" where
  "worked pid i k x \<longleftrightarrow>
     (case x of (handled, k') \<Rightarrow>
        called i (case handled of Handled _ _ \<Rightarrow> True | Waits _ _ \<Rightarrow> False) k k' \<and> keeps pid k k')"

lemma request_handlerI:
  assumes "\<And>pid i os self data k. at_work pid i k \<Longrightarrow> yields (handle_ipc os self data k) (worked pid i k)"
  shows "request_handler handle_ipc"
  by unfold_locales (auto simp: worked_def called_def dest: yieldsD [OF assms])

lemma answered_works:
  "called i True k k' \<and> keeps pid k k' \<Longrightarrow> yields (answered c k' answer) (worked pid i k)"
  by (auto simp: answered_def worked_def intro!: yields_bind)

lemma handled_answer_works:
  "called i True k k' \<and> keeps pid k k' \<Longrightarrow> yields (handled_answer k' answer) (worked pid i k)"
  unfolding handled_answer_def by (rule answered_works)

lemma read_then_works:
  "(\<And>xs. yields (f xs) P) \<Longrightarrow> yields (read_then n data f) P"
  by (auto simp: read_then_def intro!: yields_bind)

lemma if_works: "\<lbrakk>yields m P; yields m' P\<rbrakk> \<Longrightarrow> yields (if b then m else m') P"
  by simp

lemma unwrap_eq [simp]: "unwrap res = Ret x \<longleftrightarrow> res = Inr x"
  by (auto simp: unwrap_def split: sum.split)

lemma create_called:
  assumes work: "at_work pid i k"
  shows "create_mutex draws locked k = Ret (res, k') \<Longrightarrow> called i True k k' \<and> keeps pid k k' \<and> at_work pid i k'"
    and "create_event draws reset k = Ret (res, k') \<Longrightarrow> called i True k k' \<and> keeps pid k k' \<and> at_work pid i k'"
  using created_called [OF _ _ work]
  by (auto simp: create_mutex_def create_event_def mutex_new_def event_new_def)

lemma apt_lock_works:
  assumes work: "at_work pid i k"
  shows "yields (apt_get_lock_handle os self data k) (worked pid i k)"
  unfolding apt_get_lock_handle_def
  by (auto intro!: read_then_works yields_bind handled_answer_works dest!: create_called(1) [OF work])

lemma apt_initialize_works:
  assumes work: "at_work pid i k"
  shows "yields (apt_initialize os self data k) (worked pid i k)"
  unfolding apt_initialize_def
proof (rule read_then_works, intro yields_bind, goal_cases)
  case (1 xs x)
  obtain res1 k1 where x: "x = (res1, k1)" by (cases x)
  note c1 = create_called(2) [OF work 1 [unfolded x]]
  show ?case unfolding x prod.case
  proof (intro yields_bind, goal_cases)
    case (1 event1 y)
    obtain res2 k2 where y: "y = (res2, k2)" by (cases y)
    have w1: "at_work pid i k1" using c1 by simp
    note c2 = create_called(2) [OF w1 1(2) [unfolded y]]
    show ?case unfolding y prod.case
    proof (intro yields_bind, goal_cases)
      case (1 event2 z)
      obtain res3 k3 where z: "z = (res3, k3)" by (cases z)
      have w2: "at_work pid i k2" using c2 by simp
      note c3 = signal_called [OF 1(2) [unfolded z] w2]
      have "called i True k k3 \<and> keeps pid k k3" using c1 c2 c3 called_trans keeps_trans by blast
      then show ?case unfolding z prod.case by (intro yields_bind handled_answer_works)
    qed
  qed
qed

lemma constant_services_work:
  assumes work: "at_work pid i k"
  shows "yields (ndm_handle_ipc os self data k) (worked pid i k)"
    and "yields (dsp_handle_ipc os self data k) (worked pid i k)"
    and "yields (cfg_handle_ipc os self data k) (worked pid i k)"
    and "yields (fs_handle_ipc os self data k) (worked pid i k)"
  using at_work_stays [OF work]
  by (auto simp: ndm_handle_ipc_def dsp_handle_ipc_def cfg_handle_ipc_def fs_handle_ipc_def
      intro!: yields_bind read_then_works handled_answer_works)

lemma apt_works:
  assumes work: "at_work pid i k"
  shows "yields (apt_handle_ipc os self data k) (worked pid i k)"
  unfolding apt_handle_ipc_def
  by (intro yields_bind if_works apt_lock_works apt_initialize_works work read_then_works
      handled_answer_works at_work_stays [OF work]) simp

lemma srv_semaphore_works:
  assumes work: "at_work pid i k"
  shows "yields (srv_get_semaphore os srv data k) (worked pid i k)"
  unfolding srv_get_semaphore_def
  by (auto simp: worked_def intro!: yields_bind dest!: create_called(2) [OF work])

lemma srv_register_works:
  assumes work: "at_work pid i k"
  shows "yields (srv_register os srv data k) (worked pid i k)"
  unfolding srv_register_def
proof (intro yields_bind, goal_cases)
  case (1 x)
  obtain name len max where x: "x = (name, len, max)" by (cases x)
  obtain server client k1 where p: "make_port_pair k = ((server, client), k1)" by (metis prod.collapse)
  have c1: "called i True k k1 \<and> keeps pid k k1 \<and> at_work pid i k1" using ports_called [OF work] p by simp
  show ?case unfolding x p Let_def prod.case
  proof (intro yields_bind, goal_cases)
    case (1 y)
    obtain h1 k2 where y: "y = (h1, k2)" by (cases y)
    have w1: "at_work pid i k1" using c1 by simp
    note c2 = handle_called [OF 1 [unfolded y] w1]
    show ?case unfolding y prod.case
    proof (intro yields_bind, goal_cases)
      case (1 z)
      obtain h2 k3 where z: "z = (h2, k3)" by (cases z)
      have w2: "at_work pid i k2" using c2 by simp
      note c3 = handle_called [OF 1 [unfolded z] w2]
      have "called i True k k3 \<and> keeps pid k k3" using c1 c2 c3 called_trans keeps_trans by blast
      then show ?case unfolding z prod.case by (intro yields_bind) (simp add: worked_def)
    qed
  qed
qed

lemma hle_connect_called:
  assumes r: "hle_create_session_to_port alive draws h k = Ret (wait, k')" and work: "at_work pid i k"
  shows "called i (\<forall>s. wait \<noteq> SessionPending s) k k' \<and> keeps pid k k'"
proof -
  obtain res where c: "create_session_to_port alive draws (Some h) k = Ret (res, k')"
      "wait = (case res of Inl err \<Rightarrow> SessionReady (Inl err)
        | Inr (reschedule, h) \<Rightarrow> if reschedule \<noteq> None then SessionPending h else SessionReady (Inr h))"
    using r by (auto simp: hle_create_session_to_port_def)
  obtain t where run: "running k i t" using work by (rule at_work_running)
  have "(\<forall>s. wait \<noteq> SessionPending s) \<longrightarrow> (\<forall>b h. res \<noteq> Inr (Some b, h))" using c(2) by auto
  then show ?thesis
    using connect_called [OF c(1) run] create_session_keeps [OF c(1) at_workD(3,2) [OF work]] by (auto simp: called_def)
qed

lemma srv_service_works:
  assumes work: "at_work pid i k"
  shows "yields (srv_get_service os srv data k) (worked pid i k)"
proof -
  have "yields (case wait of SessionPending session \<Rightarrow> Ret (Waits srv (data, session), k')
      | SessionReady (Inl _) \<Rightarrow> Panic Unwrap
      | SessionReady (Inr session) \<Rightarrow>
          and_then (respond 0 [] [moved_handle session] data) (\<lambda>data'. Ret (Handled srv data', k'))) (worked pid i k)"
    if "hle_create_session_to_port (os_alive os) (os_draws os) h k = Ret (wait, k')" for h wait k'
    using hle_connect_called [OF that work]
    by (auto simp: worked_def split: session_wait.split sum.split intro!: yields_bind)
  then show ?thesis unfolding srv_get_service_def by (auto intro!: yields_bind)
qed

lemma srv_works:
  assumes work: "at_work pid i k"
  shows "yields (srv_handle_ipc os srv data k) (worked pid i k)"
  unfolding srv_handle_ipc_def
  by (intro yields_bind if_works srv_semaphore_works srv_register_works srv_service_works work
      answered_works at_work_stays [OF work]) simp

interpretation registry: request_handler srv_handle_ipc
  by (rule request_handlerI) (rule srv_works)

interpretation apt: request_handler apt_handle_ipc
  by (rule request_handlerI) (rule apt_works)

interpretation ndm: request_handler ndm_handle_ipc
  by (rule request_handlerI) (rule constant_services_work)

interpretation dsp: request_handler dsp_handle_ipc
  by (rule request_handlerI) (rule constant_services_work)

interpretation cfg: request_handler cfg_handle_ipc
  by (rule request_handlerI) (rule constant_services_work)

interpretation fs: request_handler fs_handle_ipc
  by (rule request_handlerI) (rule constant_services_work)

lemma service_handler: "request_handler (service_handle_ipc s)"
  by (cases s; simp; unfold_locales)

section \<open>A poll of a service\<close>

lemma hle_send_calls:
  assumes r: "hle_send_sync_request alive h data k = Ret (poll, k')" and work: "at_work pid i k"
  shows "thread_calls k k'"
proof -
  obtain k1 res where k1: "set_thread_ipc_data data k = Ret k1" "send_sync_request alive (Some h) k1 = Ret (res, k')"
    using r by (auto simp: hle_send_sync_request_def)
  note d = set_data_called [OF k1(1) work]
  then obtain t where "running k1 i t" by (auto simp: called_def)
  from thread_call.send_request [OF this k1(2)] show ?thesis using d calls_chain by blast
qed

lemma service_register_calls:
  assumes "service_register os self name session k = Ret (future', k')" "at_work pid i k"
  shows "thread_calls k k' \<and> future' = ServiceRegistering self"
proof -
  have "yields (service_register os self name session k)
      (\<lambda>(future', k'). thread_calls k k' \<and> future' = ServiceRegistering self)"
    unfolding service_register_def srv_register_service_def
    by (auto intro!: yields_bind split: poll.split_asm sum.split_asm dest: hle_send_calls [OF _ assms(2)])
  from yieldsD [OF this assms(1)] show ?thesis by simp
qed

text \<open>What the thread of a service needs when it is polled: the registry has answered its registration
  with the server end of its port, and later it serves that port and its sessions.\<close>

definition service_ready :: "u32 \<Rightarrow> thread_resume \<Rightarrow> ('c, 'w) service_future \<Rightarrow> ('t, 'p) kernel \<Rightarrow> bool" where
  "service_ready pid resume future k \<longleftrightarrow>
     (case future of
        ServiceRegistering self \<Rightarrow> \<forall>port. srv_call_resumed resume k = Ret (Inr port) \<longrightarrow> serving_at pid [Some port] k
      | ServiceServing se point \<Rightarrow> \<exists>u. served pid u se k
      | _ \<Rightarrow> True)"

definition serves_on :: "u32 \<Rightarrow> ('c, 'w) service_future \<Rightarrow> ('t, 'p) kernel \<Rightarrow> bool" where
  "serves_on pid future k \<longleftrightarrow> (case future of ServiceServing se point \<Rightarrow> \<exists>u. served pid u se k | _ \<Rightarrow> True)"

context request_handler begin

lemma service_poll_serves:
  assumes r: "service_poll handle_ipc handle_resumed os resume future k = Ret (future', k')"
    and work: "at_work pid i k" and ready: "service_ready pid resume future k"
  shows "thread_calls k k' \<and> serves_on pid future' k'"
proof (cases future)
  case (ServiceStart self name)
  then obtain port h k1 wait k2 where c: "kernel_new_handle (os_draws os) port k = Ret (h, k1)"
      "hle_create_session_to_port (os_alive os) (os_draws os) h k1 = Ret (wait, k2)"
      "(case wait of SessionPending session \<Rightarrow> Ret (ServiceConnecting self name session, k2)
        | SessionReady (Inl err) \<Rightarrow> Panic Unwrap
        | SessionReady (Inr session) \<Rightarrow> service_register os self name session k2) = Ret (future', k')"
    using r by (auto simp: service_poll_def)
  note h = handle_called [OF c(1) work]
  have w1: "at_work pid i k1" using h by simp
  note s = hle_connect_called [OF c(2) w1]
  have k2: "thread_calls k k2" using h s calls_chain by (meson called_def)
  show ?thesis
  proof (cases wait)
    case (SessionPending session)
    then show ?thesis using c(3) k2 by (auto simp: serves_on_def)
  next
    case (SessionReady res)
    then obtain session where reg: "service_register os self name session k2 = Ret (future', k')"
      using c(3) by (auto split: sum.split_asm)
    have "called i True k1 k2" using s SessionReady by (simp add: called_def)
    then have "at_work pid i k2" using at_work_called [OF w1] s by blast
    from service_register_calls [OF reg this] show ?thesis
      using k2 by (auto simp: serves_on_def intro: rtranclp_trans)
  qed
next
  case (ServiceConnecting self name session)
  then have "service_register os self name session k = Ret (future', k')"
    using r by (auto simp: service_poll_def)
  from service_register_calls [OF this work] show ?thesis by (auto simp: serves_on_def)
next
  case (ServiceRegistering self)
  then obtain res where res: "srv_call_resumed resume k = Ret res"
      "(case res of Inl err \<Rightarrow> Panic Unwrap
        | Inr port \<Rightarrow> serving (server_receive os None (server_new self port) k)) = Ret (future', k')"
    using r by (auto simp: service_poll_def)
  then obtain port se point where p: "srv_call_resumed resume k = Ret (Inr port)"
      "server_receive os None (server_new self port) k = Ret ((se, point), k')" "future' = ServiceServing se point"
    by (cases res) (auto simp: serving_def)
  obtain u where "served pid u (server_new self port) k"
    using ready ServiceRegistering p(1) by (fastforce simp: service_ready_def served_def server_new_def serving_at_def)
  from server_receive_serves [OF p(2) work this] show ?thesis using p(3) by (auto simp: serves_on_def)
next
  case (ServiceServing se point)
  then obtain se' point' where p: "server_poll handle_ipc handle_resumed os resume (se, point) k = Ret ((se', point'), k')"
      "future' = ServiceServing se' point'"
    using r by (auto simp: service_poll_def serving_def)
  obtain u where "served pid u se k" using ready ServiceServing by (auto simp: service_ready_def)
  from server_poll_serves [OF p(1) work this] show ?thesis using p(2) by (auto simp: serves_on_def)
qed

end

text \<open>The registry is started with the port object \<open>port\<close>, and from its first poll on serves that object.\<close>

definition registry_ready :: "u32 \<Rightarrow> oid \<Rightarrow> srv_future \<Rightarrow> ('t, 'p) kernel \<Rightarrow> bool" where
  "registry_ready pid port future k \<longleftrightarrow>
     (case future of
        SrvStart server \<Rightarrow> server = port \<and> tended pid k port
      | SrvServing se point \<Rightarrow> served pid port se k)"

lemma srv_poll_serves:
  assumes r: "srv_poll os resume future k = Ret (future', k')" and work: "at_work pid i k"
    and ready: "registry_ready pid port future k"
  shows "thread_calls k k' \<and> registry_ready pid port future' k'"
proof (cases future)
  case (SrvStart server)
  then obtain h k1 se point where c: "kernel_new_handle (os_draws os) server k = Ret (h, k1)"
      "server_receive os None (server_new srv_new h) k1 = Ret ((se, point), k')" "future' = SrvServing se point"
    using r by (auto simp: srv_poll_def)
  note h = handle_called [OF c(1) work]
  have held: "held (k_processes k1) pid h = Some server"
    using kernel_new_handle_keeps [OF c(1) at_workD(3,2) [OF work]] by blast
  have port: "server = port" and "tended pid k port" using ready SrvStart by (simp_all add: registry_ready_def)
  then have "tended pid k1 port" using h tended_keeps by blast
  then have "served pid port (server_new srv_new h) k1"
    using held h port by (simp add: served_def server_new_def serving_at_def at_work_def)
  moreover have "at_work pid i k1" using h by simp
  ultimately have "thread_calls k1 k' \<and> served pid port se k'" using server_receive_serves [OF c(2)] by simp
  then show ?thesis using h c(3) calls_chain by (auto simp: registry_ready_def)
next
  case (SrvServing se point)
  then obtain se' point' where p: "server_poll srv_handle_ipc srv_handle_resumed os resume (se, point) k = Ret ((se', point'), k')"
      "future' = SrvServing se' point'"
    using r by (auto simp: srv_poll_def)
  have "served pid port se k" using ready SrvServing by (simp add: registry_ready_def)
  from registry.server_poll_serves [OF p(1) work this] show ?thesis using p(2) by (simp add: registry_ready_def)
qed

section \<open>The properties\<close>

lemma at_work_running_thread:
  "\<lbrakk>kernel_ok k; tables_ok (k_processes k); running k i t; k_current k = Some (ct_pid t, i)\<rbrakk> \<Longrightarrow>
     at_work (ct_pid t) i k"
  by (auto simp: at_work_def thread_ids_def running_def thread_at_def find_Some_iff image_iff)

text \<open>C4: whatever a poll of one of the services of \<open>main\<close> does to the kernel, at whatever point its
  future stands, is a sequence of calls of the thread interface, which keeps queues and threads
  consistent; and a service that serves has every handle of its loop on its port or on a session of
  a client of another process, so that its wait for all of them leaves no stale waker behind.\<close>

theorem service_poll_calls:
  assumes "kernel_ok k" "tables_ok (k_processes k)" "running k i t" "k_current k = Some (ct_pid t, i)"
    and "service_ready (ct_pid t) resume future k"
    and "service_poll (service_handle_ipc s) handle_resumed os resume future k = Ret (future', k')"
  shows "thread_calls k k' \<and> kernel_ok k' \<and> serves_on (ct_pid t) future' k'"
  using request_handler.service_poll_serves [OF service_handler assms(6) at_work_running_thread [OF assms(1-4)] assms(5)]
    thread_calls_ok assms(1) by blast

text \<open>A service that waits to accept, with no session at its port.\<close>

definition idle_port :: "nat kobj" where
  "idle_port = ServerPort \<lparr>sp_queue = [], sp_sessions = [], sp_client = None\<rparr>"

definition service_kernel :: "(nat, nat) kernel" where
  "service_kernel = (kernel_new 0)
     \<lparr>sc_objects := [idle_port], sc_threads := [(thread_new 7 0 1)\<lparr>ct_state := Running\<rparr>],
      k_processes := [(\<lparr>cp_pid = 7, cp_name = ''ndm'', cp_objects = \<lparr>ot_objects = [(5, 0)], ot_drawn = 0\<rparr>\<rparr>, 0)],
      k_current := Some (7, 0), k_next_tid := 1\<rparr>"

definition idle_outside :: outside where
  "idle_outside = \<lparr>os_now = 0, os_alive = (\<lambda>_. True), os_draws = (\<lambda>n. of_nat n + 9)\<rparr>"

lemmas service_evaluation = service_kernel_def idle_port_def kernel_new_def thread_new_def

lemma service_kernel_ok: "kernel_ok service_kernel" "tables_ok (k_processes service_kernel)"
  "running service_kernel 0 ((thread_new 7 0 1)\<lparr>ct_state := Running\<rparr>)"
  by (auto simp: service_evaluation kernel_ok_def sched_ok_def queues_live_def thread_indices_def running_def
      thread_at_def tables_ok_def process_at_def table_ok_def split: if_split_asm)

lemma service_kernel_serves: "served 7 0 (server_new () 5) service_kernel"
  using service_kernel_ok(2)
  by (auto simp: served_def server_new_def serving_at_def held_def process_at_def process_lookup_handle_def
      table_lookup_def tended_def duty_at_def object_at_def service_evaluation)

lemma idle_accept:
  "\<exists>k'. service_poll (service_handle_ipc NdmU) (\<lambda>_ _ :: unit. Ret []) idle_outside ResumeNormal
      (ServiceServing (server_new () 5) InAccept) service_kernel = Ret (ServiceServing (server_new () 5) InAccept, k') \<and>
    map ct_state (sc_threads k') = [Waiting]"
  by (simp add: service_poll_def server_poll_def hle_accept_session_resumed_def resumed_normally_def serving_def
      hle_accept_session_def svc_accept_session_def server_new_def server_accepted_def lookup_object_def
      kernel_lookup_handle_def current_process_def process_at_def process_lookup_handle_def table_lookup_def
      dyn_cast_def object_at_def accept_session_def suspend_thread_def current_pid_tid_def suspend_current_def
      find_thread_def thread_wait_def server_port_wait_def map_object_def put_thread_def service_evaluation idle_outside_def)

theorem service_poll_calls_witness:
  "\<exists>k'. service_poll (service_handle_ipc NdmU) (\<lambda>_ _ :: unit. Ret []) idle_outside ResumeNormal
      (ServiceServing (server_new () 5) InAccept) service_kernel = Ret (ServiceServing (server_new () 5) InAccept, k') \<and>
    map ct_state (sc_threads k') = [Waiting] \<and> thread_calls service_kernel k' \<and> kernel_ok k' \<and>
    (\<exists>u. served 7 u (server_new () 5) k')"
proof -
  obtain k' where k': "service_poll (service_handle_ipc NdmU) (\<lambda>_ _ :: unit. Ret []) idle_outside ResumeNormal
      (ServiceServing (server_new () 5) InAccept) service_kernel = Ret (ServiceServing (server_new () 5) InAccept, k')"
      "map ct_state (sc_threads k') = [Waiting]"
    using idle_accept by (elim exE conjE)
  let ?t = "(thread_new 7 0 1)\<lparr>ct_state := Running\<rparr>"
  let ?future = "ServiceServing (server_new () 5) InAccept :: (unit, unit) service_future"
  have pid: "ct_pid ?t = 7" by (simp add: thread_new_def)
  have ready: "service_ready (ct_pid ?t) ResumeNormal ?future service_kernel"
    unfolding pid using service_kernel_serves by (auto simp: service_ready_def)
  have current: "k_current service_kernel = Some (ct_pid ?t, 0)" unfolding pid by (simp add: service_kernel_def)
  have "thread_calls service_kernel k' \<and> kernel_ok k' \<and> serves_on (ct_pid ?t) ?future k'"
    by (rule service_poll_calls [OF service_kernel_ok current ready k'(1)])
  then have "thread_calls service_kernel k' \<and> kernel_ok k' \<and> (\<exists>u. served 7 u (server_new () 5) k')"
    unfolding pid by (simp add: serves_on_def)
  with k' show ?thesis by (intro exI [of _ k'] conjI) simp_all
qed

text \<open>C5: the registry acts by calls of the thread interface, too, from its start on.  Its first poll makes
  a handle of the very port object it was started with; after that poll and after each later one its
  port handle still stands for that object, and every handle it waits for is of a port or a session
  whose clients are of other processes.\<close>

theorem srv_poll_calls:
  assumes "kernel_ok k" "tables_ok (k_processes k)" "running k i t" "k_current k = Some (ct_pid t, i)"
    and "registry_ready (ct_pid t) port future k"
    and "srv_poll os resume future k = Ret (future', k')"
  shows "thread_calls k k' \<and> kernel_ok k' \<and> registry_ready (ct_pid t) port future' k'"
  using srv_poll_serves [OF assms(6) at_work_running_thread [OF assms(1-4)] assms(5)] thread_calls_ok assms(1) by blast

lemma registry_start:
  "\<exists>k'. srv_poll idle_outside ResumeNormal (SrvStart 0) service_kernel = Ret (SrvServing (server_new srv_new 9) InReceive, k') \<and>
    map ct_state (sc_threads k') = [Waiting]"
  by (simp add: srv_poll_def kernel_new_handle_def current_process_def process_at_def process_new_handle_def
      table_insert_def insert_loop.simps [of "\<lambda>n. word_of_nat n + 9"] handle_from_raw_def put_process_def
      server_receive_def hle_reply_and_receive_def set_thread_ipc_data_def reply_and_receive_pre_def wait_sync_n_def
      server_new_def lookup_object_def kernel_lookup_handle_def process_lookup_handle_def table_lookup_def Let_def
      make_timeout_def kernel_time_def csub_def timeout_absolute_def wait_object_def sync_wait_def
      dyn_cast_def object_at_def suspend_thread_def current_pid_tid_def suspend_current_def
      find_thread_def thread_wait_def server_port_wait_def map_object_def put_thread_def service_evaluation idle_outside_def)

lemma service_kernel_tends: "tended 7 service_kernel 0"
  by (simp add: tended_def duty_at_def object_at_def service_evaluation)

theorem srv_poll_calls_witness:
  "\<exists>k'. srv_poll idle_outside ResumeNormal (SrvStart 0) service_kernel = Ret (SrvServing (server_new srv_new 9) InReceive, k') \<and>
    map ct_state (sc_threads k') = [Waiting] \<and> thread_calls service_kernel k' \<and> kernel_ok k' \<and>
    served 7 0 (server_new srv_new 9) k'"
proof -
  obtain k' where k': "srv_poll idle_outside ResumeNormal (SrvStart 0) service_kernel =
      Ret (SrvServing (server_new srv_new 9) InReceive, k')" "map ct_state (sc_threads k') = [Waiting]"
    using registry_start by (elim exE conjE)
  let ?t = "(thread_new 7 0 1)\<lparr>ct_state := Running\<rparr>"
  have pid: "ct_pid ?t = 7" by (simp add: thread_new_def)
  have ready: "registry_ready (ct_pid ?t) 0 (SrvStart 0) service_kernel"
    unfolding pid using service_kernel_tends by (simp add: registry_ready_def)
  have current: "k_current service_kernel = Some (ct_pid ?t, 0)" unfolding pid by (simp add: service_kernel_def)
  have "thread_calls service_kernel k' \<and> kernel_ok k' \<and>
      registry_ready (ct_pid ?t) 0 (SrvServing (server_new srv_new 9) InReceive) k'"
    by (rule srv_poll_calls [OF service_kernel_ok current ready k'(1)])
  then have "thread_calls service_kernel k' \<and> kernel_ok k' \<and> served 7 0 (server_new srv_new 9) k'"
    unfolding pid by (simp add: registry_ready_def)
  with k' show ?thesis by (intro exI [of _ k'] conjI) simp_all
qed

end
