(* ===== verification/Spec2Isabelle.thy ===== *)
theory Spec2Isabelle
  imports IpcRoundTrip Kmm Svc Translation ServiceFacts GuestCalls Sessions Turns Formats
    ObjectCasts ServiceCalls
begin

text \<open>
  Pomelo runs programs of the Nintendo 3DS.  Its workspace has a kernel (\<open>kernel/\<close>: objects, handles,
  threads, message passing, memory), high-level services and their kernel objects (\<open>hle/\<close>), the system
  calls of a guest program (\<open>guest/\<close>), a guest processor built on the Dynarmic recompiler
  (\<open>guest_dynarmic/\<close>), file layouts (\<open>formats/\<close>) and the program that puts them together (\<open>cli/\<close>).

  \<^bold>\<open>How the parts work together.\<close>  \<open>cli/src/main.rs\<close> builds the physical memory and its manager, starts the
  services and the loader of the guest program as kernel threads, and then repeats two steps:
  \<open>run_next\<close> resumes the first ready thread until it suspends itself, and \<open>tick\<close> wakes the threads
  whose timeout has passed, fires timers and signals the events of pending interrupts.  A thread acts
  on the kernel by the calls of \<open>hle/src/svc.rs\<close>.  To wait, it queues a waker - its index and its wake
  key - at an object; to wake it, an operation of the object makes the thread ready and takes all its
  wakers out of the queues.  Clients and services exchange messages through ports and sessions; the
  kernel copies a message from the command buffer of one thread to that of the other and translates
  the handles in it.

  \<^bold>\<open>State.\<close>  All mutable state a Rust operation can reach is one record that the operation takes and
  returns: a byte store below \<open>Memory\<close>, the record \<open>sched\<close> of kernel objects and threads, and
  \<open>kernel\<close>, which extends it by processes, execution and registries.  A reference to an object is its
  position in the list of objects, so that two owners of one object share it.  An operation returns a
  \<open>res\<close>: it returns a value, panics for a stated reason, or does not return.  The error codes of the
  console are the left side of \<open>kresult\<close>.

  \<^bold>\<open>Theories\<close>, each with the files it models and what its lemmas show.
  \<^item> \<open>Prelude\<close>: outcomes, checked arithmetic of the machine integers, little-endian bytes, slices.
  \<^item> \<open>Ipc\<close>, \<open>IpcRoundTrip\<close> (\<open>kernel/src/ipc.rs\<close>): readers and writers of command buffers; what a
    writer wrote is what a reader reads, for requests and responses with handle parameters of every
    kind, up to what the reader itself replaces (\<open>received\<close>).
  \<^item> \<open>PageMemory\<close>, \<open>VirtMemory\<close>, \<open>Kmm\<close> (\<open>kernel/src/memory/\<close>): slices of physical memory, the map of
    spans and accesses across them, and the block lists of the kernel memory manager, kept in the
    managed memory itself.  The contract of \<open>Memory\<close> is the locale \<open>byte_memory\<close>.  A write refines a
    write of single bytes; freeing refines insertion into a sorted, coalesced list of intervals; allocating is exact for the
    first block, up to the rest of the list that an exact fit loses.
  \<^item> \<open>ObjectTable\<close> (\<open>kernel/src/object_manager.rs\<close> and the handles of a process): the contract of a
    table is the locale \<open>handle_table\<close>; insertion gives a fresh handle and ends exactly if the
    generator yields one.
  \<^item> \<open>KernelTypes\<close>, \<open>Threads\<close>, \<open>SyncObjects\<close>, \<open>Ports\<close> (\<open>kernel/src/lib.rs\<close>, the objects of \<open>hle/src/\<close>):
    signals, timeouts, the life of a thread, events, timers, mutexes, thread objects, arbiters, ports and
    sessions.  The invariant \<open>sched_ok\<close> says that every queued waker stands for a wait that is still
    on; each operation keeps it, never panics under it, and wakes the right threads in order.  The
    contract of \<open>KSynchronizationObject\<close> is the locale \<open>sync_object\<close>.
  \<^item> \<open>Kernel\<close>, \<open>KernelFacts\<close>, \<open>Translation\<close> (\<open>KernelImpl\<close> of \<open>kernel/src/lib.rs\<close>, \<open>hle/src/session.rs\<close>,
    \<open>hle/src/codeset.rs\<close>): processes, the run loop, the tick, the registries and the translation of
    messages.  A tick returns and wakes every thread that is due; a translated message is the sent one
    with its handles replaced by new handles of the receiver to the same objects.  The locale
    \<open>object_steps\<close> carries a relation through every operation of an object, and \<open>untouched\<close> is its
    instance for what such operations leave alone.
  \<^item> \<open>Svc\<close> (\<open>hle/src/svc.rs\<close>): the calls of services and guests, and what waiting does.
  \<^item> \<open>GuestMemory\<close>, \<open>Guest\<close>, \<open>GuestFacts\<close> (\<open>guest/src/\<close>, \<open>guest_dynarmic/src/lib.rs\<close>): registers, memory
    callbacks, thread-local storage, every system call and the run loop of the processor.  An access
    touches exactly its range; a call keeps all registers but those of \<open>result_regs\<close>; five calls the
    guest writes out itself agree with the functions of \<open>Svc\<close>; and the first run of a new thread is
    compared with a run on a fresh guest.
  \<^item> \<open>HleThread\<close>, \<open>Services\<close>, \<open>ServiceFacts\<close> (\<open>hle/src/thread.rs\<close>, \<open>hle/src/service/\<close>): a high-level
    thread and the asynchronous calls it awaits, the server loop of \<open>declare_service!\<close> and the
    registry \<open>srv:\<close>; the registry answers a lookup with the port that was registered.  \<open>ServiceFacts\<close>
    also holds what \<open>Cli\<close> does to start services and to cut a program into its sections.
  \<^item> \<open>Formats\<close> (\<open>formats/src/\<close>): the structs of the extended header and the NCCH header with size,
    alignment and offsets by the rules of C; the loader reads its fields by their names.
  \<^item> \<open>Cli\<close> (\<open>cli/src/main.rs\<close>): the small services, the loader, the start of the system and the main
    loop.
  \<^item> \<open>ObjectCasts\<close> (\<open>kernel/src/object/mod.rs\<close>, the typed references of \<open>kernel/src/lib.rs\<close>): objects
    with their tables of trait implementations; a cast succeeds exactly for the kinds of object that
    \<open>dyn_cast\<close> of \<open>Svc\<close> asks for, and finds the methods of the own type.
  \<^item> \<open>Execution\<close>: each call keeps the invariant of the kernel.  \<open>CallRelations\<close>: \<open>thread_call\<close> is
    the step relation of a thread that never waits for several objects while one is ready, \<open>any_call\<close>
    the one without that restriction; the locale \<open>call_relation\<close> carries any relation between kernels
    that survives new handles, processes and threads through every call of either, and through the
    start of the system; it is interpreted for the indices of threads, the handle tables, the thread
    that is to run next and, in \<open>Turns\<close>, for the growth of the kernel.
  \<^item> \<open>Reachable\<close>: \<open>reachable\<close> are the states of the main loop.  They are all \<open>steady\<close> - indices are
    unique, handle tables well-formed and the thread to run next is ready - if the threads act by
    calls (\<open>calls_only\<close>); and queues and threads agree in them if, besides, \<open>waits_safely\<close> holds.
  \<^item> \<open>Turns\<close>: in all of them, too, every thread has its process and its box, so a turn of the scheduler
    fails only if the body of the thread does.
  \<^item> \<open>Sessions\<close>: the two ends of a session as one queue of requests, in which a reply answers the
    first, and what breaks it.
  \<^item> \<open>GuestCalls\<close>: whatever a system call of a guest does is a sequence of \<open>any_call\<close>s, and of
    \<open>thread_call\<close>s unless it waits for several objects of which one is ready.
  \<^item> \<open>ServiceCalls\<close>: whatever a poll of a service does is a sequence of \<open>thread_call\<close>s.  The contract of a handler of requests is
    the locale \<open>request_handler\<close>, which the registry and every service of \<open>main\<close> satisfy; the loop
    keeps all its handles on its port and its sessions, so that waiting for them together is safe.

  \<^bold>\<open>Asynchronous functions\<close> are split where they await: an operation that starts the call and returns
  what is ready, or that it is pending, and one that the resumed thread continues with.  The points a
  service thread can stop at are a datatype.

  \<^bold>\<open>Loops.\<close>  Loops over data are structural or have a measure: the bytes left of a memory access (each
  turn advances by at least one byte, or the code does not return), the words left of a message.
  Loops that can run forever are \<open>partial_function (option)\<close>, with \<open>None\<close> for a run without end: the
  walks along the blocks of a free list, which end because the list of a region is finite and sorted;
  the search for a free random handle, which ends exactly if the generator yields one;
  \<open>size_in_bytes\<close>, which never ends; and the run of the processor until a system call.

  \<^bold>\<open>Integers.\<close>  The workspace builds with overflow checks, so plain arithmetic is \<open>cadd\<close>, \<open>csub\<close> or
  \<open>cmul\<close> and may panic; wrapping operations and shifts are those of words.  \<open>usize\<close> is \<open>nat\<close>.

  \<^bold>\<open>Parameters.\<close>  What is not in the repository is an argument: \<open>draws\<close> the random numbers of handles,
  \<open>now\<close> the clock, \<open>alive\<close> whether a weak reference still has an object (the drop of an object is not
  traced), the recompiler as an \<open>executor\<close> of the handler of system calls, its memory as
  \<open>memory_impl\<close>, and the two files the loader includes.  \<open>run\<close> and \<open>init_thread\<close> stand for the trait
  objects \<open>Thread\<close> and \<open>Process\<close>, so that the kernel is proved for every thread body.

  \<^bold>\<open>Not modelled.\<close>  Borrow flags of \<open>RefCell\<close> (a reentrant borrow panics); the addresses in the
  vtables of \<open>kernel/src/object/mod.rs\<close>, of which the model has the entries; debug output;
  the host thread that waits for an interrupt, whose effect is \<open>activate_interrupt\<close>; the coprocessor
  and floating-point state of the recompiler; the
  executor of futures, which only polls.
\<close>

end
